(* ===== verification/Prelude.thy ===== *)
theory Prelude
  imports Complex_Main "HOL-Library.Word" "HOL-Library.Multiset"
begin

text \<open>
  Shared base of the development: Go's durations and instants as integers of nanoseconds,
  Go's first-match loops over slices (find, remove, replace), maps with Go's zero-value
  lookup, and the fact collections the component theories feed.

  A \<^typ>\<open>int\<close> stands for Go's \<open>int\<close> and \<open>int64\<close> wherever the code only counts or compares;
  the places where the code relies on a width (round robin counter, line hash, duration
  conversion, instant subtraction) write the width out.
\<close>

named_theorems conn_simps "definitions of the per-connection operations"
named_theorems conn_inv "operations that preserve the connection invariant"
named_theorems queue_simps "behaviour of the interval queue"

section \<open>Durations and instants\<close>

type_synonym duration = int
type_synonym gtime = int

abbreviation Millisecond :: duration where "Millisecond \<equiv> 1000000"
abbreviation Second :: duration where "Second \<equiv> 1000000000"
abbreviation Minute :: duration where "Minute \<equiv> 60000000000"
abbreviation Hour :: duration where "Hour \<equiv> 3600000000000"

abbreviation max_int64 :: int where "max_int64 \<equiv> 9223372036854775807"
abbreviation min_int64 :: int where "min_int64 \<equiv> - 9223372036854775808"

text \<open>
  An instant is the number of nanoseconds since Go's zero instant, so the zero value of
  \<open>time.Time\<close> is 0 and \<open>IsZero\<close> is a comparison with 0. \<open>t.Sub(u)\<close> saturates at the bounds
  of a 64-bit duration.
\<close>

definition time_sub :: "gtime \<Rightarrow> gtime \<Rightarrow> duration" where
  "time_sub t u = max min_int64 (min max_int64 (t - u))"

lemma time_sub_exact:
  "min_int64 \<le> t - u \<Longrightarrow> t - u \<le> max_int64 \<Longrightarrow> time_sub t u = t - u"
  by (simp add: time_sub_def)

lemma time_sub_mono: "t \<le> t' \<Longrightarrow> time_sub t u \<le> time_sub t' u"
  by (auto simp: time_sub_def)

section \<open>First-match loops over slices\<close>

text \<open>
  Go loops of the form \<open>for i, x := range xs { if p(x) { ...; break } }\<close>: the first match is
  returned, removed (\<open>append(xs[:i], xs[i+1:]...)\<close>) or overwritten (\<open>xs[i] = y\<close>).
\<close>

fun find_first :: "('a \<Rightarrow> bool) \<Rightarrow> 'a list \<Rightarrow> 'a option" where
  "find_first p [] = None"
| "find_first p (x # xs) = (if p x then Some x else find_first p xs)"

fun remove_first :: "('a \<Rightarrow> bool) \<Rightarrow> 'a list \<Rightarrow> 'a list" where
  "remove_first p [] = []"
| "remove_first p (x # xs) = (if p x then xs else x # remove_first p xs)"

fun replace_first :: "('a \<Rightarrow> bool) \<Rightarrow> 'a \<Rightarrow> 'a list \<Rightarrow> 'a list" where
  "replace_first p y [] = []"
| "replace_first p y (x # xs) = (if p x then y # xs else x # replace_first p y xs)"

lemma find_first_None [simp]: "find_first p xs = None \<longleftrightarrow> (\<forall>x\<in>set xs. \<not> p x)"
  by (induction xs) auto

lemma find_first_SomeD: "find_first p xs = Some x \<Longrightarrow> x \<in> set xs \<and> p x"
  by (induction xs) (auto split: if_splits)

lemma find_first_filter: "find_first p xs = (case filter p xs of [] \<Rightarrow> None | x # _ \<Rightarrow> Some x)"
  by (induction xs) auto

lemma remove_first_id [simp]: "\<forall>x\<in>set xs. \<not> p x \<Longrightarrow> remove_first p xs = xs"
  by (induction xs) auto

lemma set_remove_first_subset: "set (remove_first p xs) \<subseteq> set xs"
  by (induction xs) auto

lemma length_replace_first [simp]: "length (replace_first p y xs) = length xs"
  by (induction xs) auto

lemma replace_first_id [simp]: "\<forall>x\<in>set xs. \<not> p x \<Longrightarrow> replace_first p y xs = xs"
  by (induction xs) auto

lemma map_replace_first_key:
  "map k (replace_first (\<lambda>x. k x = k y) y xs) = map k xs"
  by (induction xs) auto

text \<open>When the key of the loop is unique in the slice, first match means every match.\<close>

lemma remove_first_distinct:
  "distinct (map k xs) \<Longrightarrow> remove_first (\<lambda>x. k x = v) xs = filter (\<lambda>x. k x \<noteq> v) xs"
proof (induction xs)
  case (Cons x xs)
  then have "k x = v \<Longrightarrow> filter (\<lambda>y. k y \<noteq> v) xs = xs"
    by (intro filter_True) (auto simp: image_iff)
  with Cons show ?case by simp
qed simp

lemma distinct_remove_first: "distinct (map k xs) \<Longrightarrow> distinct (map k (remove_first p xs))"
  by (induction xs) (auto dest: set_remove_first_subset [THEN subsetD])

lemma set_replace_first_distinct:
  assumes "distinct (map k xs)"
  shows "set (replace_first (\<lambda>x. k x = k y) y xs)
    = (if k y \<in> k ` set xs then insert y {x \<in> set xs. k x \<noteq> k y} else set xs)"
  using assms by (induction xs) (auto simp: image_iff)

lemma mset_remove_first:
  "mset (remove_first p xs) = (case find_first p xs of None \<Rightarrow> mset xs | Some x \<Rightarrow> mset xs - {#x#})"
  by (induction xs) (auto split: option.splits dest!: find_first_SomeD)

text \<open>A sum over the elements of a list, when one element is overwritten.\<close>

lemma sum_mset_list_update:
  assumes "i < length ts"
  shows "(\<Sum>x\<in>#mset (ts[i := t]). f x) + f (ts ! i) = (\<Sum>x\<in>#mset ts. f x) + (f t :: 'a :: comm_monoid_add)"
proof -
  obtain R where "mset ts = add_mset (ts ! i) R" "mset (ts[i := t]) = add_mset t R"
    using assms by (metis mset_update nth_mem_mset insert_DiffM)
  then show ?thesis by (simp add: ac_simps)
qed

section \<open>Maps with Go's zero values\<close>

text \<open>\<open>m[k]\<close> on a missing key yields the zero value of the element type.\<close>

definition map_get :: "('k \<rightharpoonup> 'v) \<Rightarrow> 'v \<Rightarrow> 'k \<Rightarrow> 'v" where
  "map_get m z k = (case m k of None \<Rightarrow> z | Some v \<Rightarrow> v)"

lemma map_get_simps [simp]:
  "m k = None \<Longrightarrow> map_get m z k = z"
  "m k = Some v \<Longrightarrow> map_get m z k = v"
  by (simp_all add: map_get_def)

text \<open>
  A \<open>range\<close> over a Go map visits every key once, in an order the runtime picks. An order is
  a list of keys; \<open>map_order m ks\<close> says that \<open>ks\<close> is one of the possible ones.
\<close>

definition map_order :: "('k \<rightharpoonup> 'v) \<Rightarrow> 'k list \<Rightarrow> bool" where
  "map_order m ks \<longleftrightarrow> distinct ks \<and> set ks = dom m"

lemma map_orderD:
  "map_order m ks \<Longrightarrow> distinct ks"
  "map_order m ks \<Longrightarrow> set ks = dom m"
  by (simp_all add: map_order_def)

lemma map_order_length: "map_order m ks \<Longrightarrow> length ks = card (dom m)"
  by (metis distinct_card map_orderD)

lemma map_order_finite: "map_order m ks \<Longrightarrow> finite (dom m)"
  by (metis List.finite_set map_orderD(2))

section \<open>Conversion of a 64-bit float product to a duration\<close>

text \<open>
  Float64 values are modelled as the exact rationals they denote; \<open>float_round\<close> is the
  rounding of a real result to the nearest float64 (ties to even), with 53 significant bits.
  Infinities, NaN and subnormals do not arise from the counters and configuration values the
  code feeds to it. \<open>Duration(f)\<close> truncates towards zero; outside the 64-bit range the result
  is the one amd64 produces, the least int64.
\<close>

definition pow2 :: "int \<Rightarrow> rat" where
  "pow2 e = (if 0 \<le> e then 2 ^ nat e else 1 / 2 ^ nat (- e))"

fun nat_bit_len :: "nat \<Rightarrow> nat" where
  "nat_bit_len n = (if n = 0 then 0 else Suc (nat_bit_len (n div 2)))"

declare nat_bit_len.simps [simp del]

definition bit_len :: "int \<Rightarrow> int" where
  "bit_len n = int (nat_bit_len (nat n))"

definition float_exp :: "rat \<Rightarrow> int" where
  "float_exp x = (let (a, b) = quotient_of \<bar>x\<bar>; e = bit_len a - bit_len b
     in if \<bar>x\<bar> < pow2 e then e - 53 else e - 52)"

definition round_even :: "rat \<Rightarrow> int" where
  "round_even x = (let f = \<lfloor>x\<rfloor>; r = x - of_int f
     in if r < 1 / 2 then f else if 1 / 2 < r then f + 1 else if even f then f else f + 1)"

definition float_round :: "rat \<Rightarrow> rat" where
  "float_round x = (if x = 0 then 0
     else let u = pow2 (float_exp x) in of_int (round_even (x / u)) * u)"

definition Duration_of_float :: "rat \<Rightarrow> duration" where
  "Duration_of_float x = (let n = (if 0 \<le> x then \<lfloor>x\<rfloor> else \<lceil>x\<rceil>)
     in if min_int64 \<le> n \<and> n \<le> max_int64 then n else min_int64)"

definition float_div :: "int \<Rightarrow> int \<Rightarrow> rat" where
  "float_div a b = float_round (float_round (of_int a) / float_round (of_int b))"

text \<open>Go's integer division truncates; \<open>Seconds()\<close> is a float64 sum of whole seconds and the
  remaining nanoseconds divided by 1e9. \<open>atomic.AddInt64\<close> wraps around at 64 bits.\<close>

definition quot :: "int \<Rightarrow> int \<Rightarrow> int" where
  "quot a b = sgn a * sgn b * (\<bar>a\<bar> div \<bar>b\<bar>)"

definition Seconds :: "duration \<Rightarrow> rat" where
  "Seconds d = (let s = quot d Second; ns = d - s * Second
     in float_round (float_round (of_int s) + float_round (of_int ns / 1000000000)))"

definition wrap64 :: "int \<Rightarrow> int" where
  "wrap64 n = (n + 2 ^ 63) mod 2 ^ 64 - 2 ^ 63"

lemma wrap64_range: "min_int64 \<le> wrap64 n \<and> wrap64 n \<le> max_int64"
proof -
  have "0 \<le> (n + 2 ^ 63) mod 2 ^ 64" "(n + 2 ^ 63) mod 2 ^ 64 < 2 ^ 64" by simp_all
  then show ?thesis by (simp add: wrap64_def)
qed

lemma wrap64_id: "min_int64 \<le> n \<Longrightarrow> n \<le> max_int64 \<Longrightarrow> wrap64 n = n"
  by (simp add: wrap64_def)

lemma wrap64_0 [simp]: "wrap64 0 = 0"
  by (simp add: wrap64_id)

lemma wrap64_add [simp]: "wrap64 (wrap64 a + b) = wrap64 (a + b)" "wrap64 (a + wrap64 b) = wrap64 (a + b)"
proof -
  have "wrap64 (wrap64 a + b) = wrap64 (a + b)" for a b
  proof -
    have "((a + 2 ^ 63) mod 2 ^ 64 + b) mod 2 ^ 64 = (a + 2 ^ 63 + b) mod (2 ^ 64 :: int)" by (rule mod_add_left_eq)
    then show ?thesis by (simp add: wrap64_def algebra_simps)
  qed
  then show "wrap64 (wrap64 a + b) = wrap64 (a + b)" "wrap64 (a + wrap64 b) = wrap64 (a + b)"
    by (metis add.commute)+
qed

text \<open>\<open>float64(a)/float64(b) >= x\<close>: a zero divisor gives an infinity or NaN.\<close>

definition float_div_ge :: "int \<Rightarrow> int \<Rightarrow> rat \<Rightarrow> bool" where
  "float_div_ge a b x = (if b = 0 then a > 0 else float_div a b \<ge> x)"

lemma float_round_0 [simp]: "float_round 0 = 0"
  by (simp add: float_round_def)

lemma Duration_of_float_range:
  "min_int64 \<le> Duration_of_float x \<and> Duration_of_float x \<le> max_int64"
  by (simp add: Duration_of_float_def Let_def)

lemma Duration_of_float_0 [simp]: "Duration_of_float 0 = 0"
  by (simp add: Duration_of_float_def)

text \<open>Integers below \<open>2 ^ 53\<close> are float64 values.\<close>

lemma nat_bit_len_le: "n < 2 ^ k \<Longrightarrow> nat_bit_len n \<le> k"
proof (induction k arbitrary: n)
  case 0
  then show ?case by (simp add: nat_bit_len.simps)
next
  case (Suc k)
  then have "n div 2 < 2 ^ k" by auto
  then have "nat_bit_len (n div 2) \<le> k" by (rule Suc.IH)
  then show ?case by (subst nat_bit_len.simps) simp
qed

lemma round_even_int [simp]: "round_even (of_int n) = n"
  by (simp add: round_even_def)

lemma float_exp_int:
  assumes "\<bar>n\<bar> < 2 ^ 53"
  shows "float_exp (of_int n) \<le> 0"
proof -
  have "int (nat \<bar>n\<bar>) < int (2 ^ 53)" using assms by simp
  then have "nat \<bar>n\<bar> < 2 ^ 53" by (simp only: of_nat_less_iff)
  then have "bit_len \<bar>n\<bar> \<le> 53"
    unfolding bit_len_def using nat_bit_len_le by fastforce
  moreover have "bit_len 1 = 1" by (simp add: bit_len_def nat_bit_len.simps)
  moreover have "quotient_of \<bar>of_int n\<bar> = (\<bar>n\<bar>, 1)"
    using quotient_of_int [of "\<bar>n\<bar>"] by (simp add: Rat.of_int_def)
  ultimately show ?thesis unfolding float_exp_def Let_def by auto
qed

lemma float_round_int:
  assumes "\<bar>n\<bar> < 2 ^ 53"
  shows "float_round (of_int n) = of_int n"
proof (cases "n = 0")
  case False
  obtain k where "float_exp (of_int n) = - int k"
    using float_exp_int [OF assms] by (metis int_nat_eq minus_minus nat_0_le neg_0_le_iff_le)
  then have p: "pow2 (float_exp (of_int n)) = 1 / 2 ^ k"
    by (cases "k = 0") (simp_all add: pow2_def)
  have "(of_int n :: rat) / (1 / 2 ^ k) = of_int (n * 2 ^ k)" by simp
  then have "round_even (of_int n / (1 / 2 ^ k)) = n * 2 ^ k"
    by (metis round_even_int)
  with False show ?thesis by (simp add: float_round_def Let_def p)
qed simp

end
