(* ===== verification/State_Manager.thy ===== *)
theory State_Manager
  imports Prelude
begin

text \<open>
  The connection state machine of \<open>connection/state_manager.go\<close>: the states, the transition
  table and the classification predicates. The declared constants are the values of the
  Go type; the \<open>default\<close> branches for other integers have no counterpart.
\<close>

datatype ConnectionState = StateIdle | StateConnecting | StateAcquired | StateExecuting
  | StateChecking | StateClosing | StateClosed

fun ConnectionState_String :: "ConnectionState \<Rightarrow> string" where
  "ConnectionState_String StateIdle = ''Idle''"
| "ConnectionState_String StateConnecting = ''Connecting''"
| "ConnectionState_String StateAcquired = ''Acquired''"
| "ConnectionState_String StateExecuting = ''Executing''"
| "ConnectionState_String StateChecking = ''Checking''"
| "ConnectionState_String StateClosing = ''Closing''"
| "ConnectionState_String StateClosed = ''Closed''"

fun CanTransition :: "ConnectionState \<Rightarrow> ConnectionState \<Rightarrow> bool" where
  "CanTransition StateIdle t = (t = StateConnecting \<or> t = StateAcquired \<or> t = StateChecking
     \<or> t = StateClosing \<or> t = StateClosed)"
| "CanTransition StateConnecting t = (t = StateAcquired \<or> t = StateClosing \<or> t = StateClosed)"
| "CanTransition StateAcquired t = (t = StateExecuting \<or> t = StateIdle \<or> t = StateChecking
     \<or> t = StateClosing \<or> t = StateClosed)"
| "CanTransition StateExecuting t = (t = StateAcquired \<or> t = StateClosing \<or> t = StateClosed)"
| "CanTransition StateChecking t = (t = StateIdle \<or> t = StateAcquired \<or> t = StateClosing
     \<or> t = StateClosed)"
| "CanTransition StateClosing t = (t = StateClosed)"
| "CanTransition StateClosed t = False"

definition allStates :: "ConnectionState list" where
  "allStates = [StateIdle, StateConnecting, StateAcquired, StateExecuting,
     StateChecking, StateClosing, StateClosed]"

definition GetValidTransitions :: "ConnectionState \<Rightarrow> ConnectionState list" where
  "GetValidTransitions s = filter (CanTransition s) allStates"

definition IsTerminalState :: "ConnectionState \<Rightarrow> bool" where
  "IsTerminalState s = (s = StateClosed)"

definition IsOperationalState :: "ConnectionState \<Rightarrow> bool" where
  "IsOperationalState s = (s = StateIdle \<or> s = StateConnecting \<or> s = StateAcquired
     \<or> s = StateExecuting \<or> s = StateChecking)"

definition IsTransitionalState :: "ConnectionState \<Rightarrow> bool" where
  "IsTransitionalState s = (s = StateClosing)"

text \<open>Runs of the machine: the reflexive transitive closure of the table.\<close>

inductive state_run :: "ConnectionState \<Rightarrow> ConnectionState \<Rightarrow> bool" where
  run_refl: "state_run s s"
| run_step: "state_run s t \<Longrightarrow> CanTransition t u \<Longrightarrow> state_run s u"

inductive_cases state_runE: "state_run s u"

section \<open>Shape of the machine\<close>

lemma set_allStates: "set allStates = UNIV"
proof -
  have "s \<in> set allStates" for s
    by (cases s) (simp_all add: allStates_def)
  then show ?thesis by auto
qed

lemma set_GetValidTransitions: "set (GetValidTransitions s) = {t. CanTransition s t}"
  by (simp add: GetValidTransitions_def set_allStates)

lemma CanTransition_irrefl: "\<not> CanTransition s s"
  by (cases s) simp_all

lemma CanTransition_into_Connecting: "CanTransition s StateConnecting \<longleftrightarrow> s = StateIdle"
  by (cases s) simp_all

lemma CanTransition_into_Executing: "CanTransition s StateExecuting \<longleftrightarrow> s = StateAcquired"
  by (cases s) simp_all

lemma CanTransition_into_Idle:
  "CanTransition s StateIdle \<longleftrightarrow> s = StateAcquired \<or> s = StateChecking"
  by (cases s) simp_all


lemma not_operational: "\<not> IsOperationalState s \<longleftrightarrow> s = StateClosing \<or> s = StateClosed"
  by (cases s) (simp_all add: IsOperationalState_def)

lemma closing_step: "\<not> IsOperationalState s \<Longrightarrow> CanTransition s t \<Longrightarrow> t = StateClosed"
  by (cases s) (simp_all add: IsOperationalState_def)

lemma state_run_trans: "state_run t u \<Longrightarrow> state_run s t \<Longrightarrow> state_run s u"
  by (induction rule: state_run.induct) (auto intro: state_run.intros)

lemma run_non_operational:
  "state_run s t \<Longrightarrow> \<not> IsOperationalState s \<Longrightarrow> t = s \<or> t = StateClosed"
proof (induction rule: state_run.induct)
  case (run_step s t u)
  then have "\<not> IsOperationalState t"
    by (auto simp: not_operational)
  with run_step show ?case by (auto dest: closing_step)
qed simp

end
