(* ===== verification/Go_Strings.thy ===== *)
theory Go_Strings
  imports Prelude
begin

text \<open>
  The part of Go's \<open>strings\<close> and \<open>strconv\<close> packages the program uses, on byte strings.
  White space and letter case are those of ASCII, which is what the device output and the
  Zabbix macros contain.
\<close>

section \<open>Searching\<close>

fun HasPrefix :: "string \<Rightarrow> string \<Rightarrow> bool" where
  "HasPrefix s [] = True"
| "HasPrefix [] (c # p) = False"
| "HasPrefix (d # s) (c # p) = (d = c \<and> HasPrefix s p)"

fun Contains :: "string \<Rightarrow> string \<Rightarrow> bool" where
  "Contains [] p = (p = [])"
| "Contains (c # s) p = (HasPrefix (c # s) p \<or> Contains s p)"

definition HasSuffix :: "string \<Rightarrow> string \<Rightarrow> bool" where
  "HasSuffix s p = HasPrefix (rev s) (rev p)"

definition TrimSuffix :: "string \<Rightarrow> string \<Rightarrow> string" where
  "TrimSuffix s p = (if HasSuffix s p then take (length s - length p) s else s)"

lemma HasPrefix_iff: "HasPrefix s p \<longleftrightarrow> (\<exists>r. s = p @ r)"
  by (induction s p rule: HasPrefix.induct) auto

lemma Contains_iff: "Contains s p \<longleftrightarrow> (\<exists>a b. s = a @ p @ b)"
proof (induction s p rule: Contains.induct)
  case (1 p)
  then show ?case by auto
next
  case (2 c s p)
  have "(\<exists>a b. c # s = a @ p @ b) \<longleftrightarrow> (\<exists>b. c # s = p @ b) \<or> (\<exists>a b. s = a @ p @ b)"
    by (metis append_Cons append_Nil neq_Nil_conv list.inject)
  with "2.IH" show ?case by (simp add: HasPrefix_iff)
qed

lemma HasSuffix_iff: "HasSuffix s p \<longleftrightarrow> (\<exists>r. s = r @ p)"
proof -
  have "HasSuffix s p \<longleftrightarrow> (\<exists>r. rev s = rev p @ r)"
    by (simp add: HasSuffix_def HasPrefix_iff)
  also have "\<dots> \<longleftrightarrow> (\<exists>r. s = r @ p)"
    by (metis rev_append rev_rev_ident)
  finally show ?thesis .
qed

lemma Contains_appendI1: "Contains s p \<Longrightarrow> Contains (s @ t) p"
  by (metis Contains_iff append.assoc)

lemma Contains_appendI2: "Contains t p \<Longrightarrow> Contains (s @ t) p"
  by (metis Contains_iff append.assoc)

lemma Contains_trans: "Contains s p \<Longrightarrow> Contains p q \<Longrightarrow> Contains s q"
  by (metis Contains_iff append.assoc)

lemma TrimSuffix_append [simp]: "TrimSuffix (s @ p) p = s"
  by (auto simp: TrimSuffix_def HasSuffix_iff)

section \<open>White space, case, splitting and joining\<close>

definition is_space :: "char \<Rightarrow> bool" where
  "is_space c \<longleftrightarrow> c \<in> {CHR '' '', CHR 0x09, CHR 0x0A, CHR 0x0B, CHR 0x0C, CHR 0x0D}"

abbreviation newline :: string where "newline \<equiv> [CHR 0x0A]"

definition TrimSpace :: "string \<Rightarrow> string" where
  "TrimSpace s = rev (dropWhile is_space (rev (dropWhile is_space s)))"

definition lower_char :: "char \<Rightarrow> char" where
  "lower_char c = (let n = (of_char c :: nat) in if 65 \<le> n \<and> n \<le> 90 then char_of (n + 32) else c)"

definition ToLower :: "string \<Rightarrow> string" where
  "ToLower s = map lower_char s"

text \<open>\<open>strings.Split(s, "\n")\<close>: always at least one piece.\<close>

fun Split_lines :: "string \<Rightarrow> string list" where
  "Split_lines [] = [[]]"
| "Split_lines (c # s) = (if c = CHR 0x0A then [] # Split_lines s
     else (case Split_lines s of [] \<Rightarrow> [[c]] | l # ls \<Rightarrow> (c # l) # ls))"

text \<open>\<open>strings.Fields\<close>: the maximal runs of non-space bytes.\<close>

fun Fields_acc :: "string \<Rightarrow> string \<Rightarrow> string list" where
  "Fields_acc acc [] = (if acc = [] then [] else [rev acc])"
| "Fields_acc acc (c # s) = (if is_space c
     then (if acc = [] then Fields_acc [] s else rev acc # Fields_acc [] s)
     else Fields_acc (c # acc) s)"

definition Fields :: "string \<Rightarrow> string list" where
  "Fields s = Fields_acc [] s"

fun Join :: "string list \<Rightarrow> string \<Rightarrow> string" where
  "Join [] sep = []"
| "Join [x] sep = x"
| "Join (x # y # ys) sep = x @ sep @ Join (y # ys) sep"

lemma Split_lines_nonempty: "Split_lines s \<noteq> []"
  by (induction s) (auto split: list.splits)

lemma Split_lines_no_newline: "CHR 0x0A \<notin> set s \<Longrightarrow> Split_lines s = [s]"
  by (induction s) auto

lemma Split_lines_append:
  "CHR 0x0A \<notin> set s \<Longrightarrow> Split_lines (s @ newline @ t) = s # Split_lines t"
  by (induction s) auto

lemma Join_Cons_char: "Join ((c # l) # ls) sep = c # Join (l # ls) sep"
  by (cases ls) simp_all

lemma Join_Split_lines: "Join (Split_lines s) newline = s"
proof (induction s)
  case (Cons c s)
  obtain l ls where "Split_lines s = l # ls"
    using Split_lines_nonempty [of s] by (cases "Split_lines s") auto
  with Cons show ?case by (simp add: Join_Cons_char)
qed simp

lemma Fields_acc_word:
  "\<forall>c\<in>set w. \<not> is_space c \<Longrightarrow> Fields_acc acc (w @ s) = Fields_acc (rev w @ acc) s"
  by (induction w arbitrary: acc) auto

lemma Fields_Cons_word:
  assumes "\<forall>c\<in>set w. \<not> is_space c" "w \<noteq> []" "is_space d"
  shows "Fields (w @ d # s) = w # Fields s"
  using assms by (simp add: Fields_def Fields_acc_word)

lemma Fields_last_word:
  "\<forall>c\<in>set w. \<not> is_space c \<Longrightarrow> w \<noteq> [] \<Longrightarrow> Fields w = [w]"
  using Fields_acc_word [of w "[]" "[]"] by (simp add: Fields_def)

lemma TrimSpace_id:
  "s \<noteq> [] \<Longrightarrow> \<not> is_space (hd s) \<Longrightarrow> \<not> is_space (last s) \<Longrightarrow> TrimSpace s = s"
proof -
  assume "s \<noteq> []" "\<not> is_space (hd s)" "\<not> is_space (last s)"
  then have "dropWhile is_space s = s" "dropWhile is_space (rev s) = rev s"
    by (simp_all add: dropWhile_eq_self_iff hd_rev)
  then show ?thesis by (simp add: TrimSpace_def)
qed

section \<open>Decimal numbers\<close>

definition digit_char :: "nat \<Rightarrow> char" where
  "digit_char d = char_of (48 + d)"

definition is_digit :: "char \<Rightarrow> bool" where
  "is_digit c \<longleftrightarrow> 48 \<le> (of_char c :: nat) \<and> (of_char c :: nat) \<le> 57"

definition digit_val :: "char \<Rightarrow> nat" where
  "digit_val c = of_char c - 48"

fun nat_dec :: "nat \<Rightarrow> string" where
  "nat_dec n = (if n < 10 then [digit_char n] else nat_dec (n div 10) @ [digit_char (n mod 10)])"

declare nat_dec.simps [simp del]

definition Itoa :: "int \<Rightarrow> string" where
  "Itoa n = (if n < 0 then CHR ''-'' # nat_dec (nat (- n)) else nat_dec (nat n))"

definition dec_nat :: "string \<Rightarrow> nat" where
  "dec_nat s = foldl (\<lambda>a c. 10 * a + digit_val c) 0 s"

text \<open>
  \<open>strconv.Atoi\<close> and \<open>strconv.ParseInt(s, 10, 64)\<close>: an optional sign, then one or more
  decimal digits, within the 64-bit range. \<open>None\<close> is the error.
\<close>

definition Atoi :: "string \<Rightarrow> int option" where
  "Atoi s = (let neg = (case s of [] \<Rightarrow> False | c # _ \<Rightarrow> c = CHR ''-'');
       body = (case s of [] \<Rightarrow> [] | c # t \<Rightarrow> if c = CHR ''-'' \<or> c = CHR ''+'' then t else s)
     in if body = [] \<or> \<not> list_all is_digit body then None
        else let v = (if neg then - int (dec_nat body) else int (dec_nat body))
          in if min_int64 \<le> v \<and> v \<le> max_int64 then Some v else None)"

lemma of_char_digit: "d < 10 \<Longrightarrow> (of_char (digit_char d) :: nat) = 48 + d"
  by (simp add: digit_char_def)

lemma is_digit_char: "d < 10 \<Longrightarrow> is_digit (digit_char d)"
  by (simp add: is_digit_def of_char_digit)

lemma digit_val_char: "d < 10 \<Longrightarrow> digit_val (digit_char d) = d"
  by (simp add: digit_val_def of_char_digit)

lemma dec_nat_snoc: "dec_nat (s @ [c]) = 10 * dec_nat s + digit_val c"
  by (simp add: dec_nat_def)

lemma nat_dec_nonempty: "nat_dec n \<noteq> []"
  by (subst nat_dec.simps) simp

lemma nat_dec_digits: "list_all is_digit (nat_dec n)"
proof (induction n rule: nat_dec.induct)
  case (1 n)
  then show ?case
    by (subst nat_dec.simps) (simp add: is_digit_char)
qed

lemma dec_nat_dec: "dec_nat (nat_dec n) = n"
proof (induction n rule: nat_dec.induct)
  case (1 n)
  show ?case
  proof (cases "n < 10")
    case True
    then show ?thesis
      by (subst nat_dec.simps) (simp add: dec_nat_def digit_val_char)
  next
    case False
    with 1 show ?thesis
      by (subst nat_dec.simps) (simp add: dec_nat_snoc digit_val_char)
  qed
qed

lemma is_digit_not_sign: "is_digit c \<Longrightarrow> c \<noteq> CHR ''-'' \<and> c \<noteq> CHR ''+''"
  by (auto simp: is_digit_def)

lemma is_digit_not_space: "is_digit c \<Longrightarrow> \<not> is_space c"
  by (auto simp: is_digit_def is_space_def)

lemma Atoi_digits:
  assumes "s \<noteq> []" "list_all is_digit s" "int (dec_nat s) \<le> max_int64"
  shows "Atoi s = Some (int (dec_nat s))"
  using assms by (cases s) (auto simp: Atoi_def Let_def dest: is_digit_not_sign)

lemma Atoi_Itoa:
  assumes "min_int64 \<le> n" "n \<le> max_int64"
  shows "Atoi (Itoa n) = Some n"
proof (cases "n < 0")
  case True
  then show ?thesis
    using assms nat_dec_digits nat_dec_nonempty
    by (simp add: Atoi_def Itoa_def Let_def dec_nat_dec)
next
  case False
  then have "Atoi (nat_dec (nat n)) = Some (int (nat n))"
    using assms Atoi_digits [of "nat_dec (nat n)"] nat_dec_digits nat_dec_nonempty
    by (simp add: dec_nat_dec)
  with False show ?thesis by (simp add: Itoa_def)
qed

lemma Atoi_range: "Atoi s = Some v \<Longrightarrow> min_int64 \<le> v \<and> v \<le> max_int64"
  by (auto simp: Atoi_def Let_def split: if_splits)

section \<open>Formatting of durations and floats\<close>

text \<open>
  \<open>Duration.String\<close>: a fraction of \<open>prec\<close> digits with trailing zeros dropped; below one
  second the unit is ns, us (the bytes C2 B5 73) or ms. \<open>%.2f\<close> rounds to even at the second
  decimal.
\<close>

fun pad_zeros :: "nat \<Rightarrow> string \<Rightarrow> string" where
  "pad_zeros n s = replicate (n - length s) (CHR ''0'') @ s"

definition frac_str :: "nat \<Rightarrow> nat \<Rightarrow> string" where
  "frac_str v prec = (let q = v mod 10 ^ prec
     in if q = 0 then [] else CHR ''.'' # rev (dropWhile (\<lambda>c. c = CHR ''0'')
       (rev (pad_zeros prec (nat_dec q)))))"

definition Duration_String :: "duration \<Rightarrow> string" where
  "Duration_String d = (let u = nat \<bar>d\<bar>; sign = (if d < 0 then ''-'' else []) in
     if u = 0 then ''0s''
     else if u < 1000 then sign @ nat_dec u @ ''ns''
     else if u < 1000000 then sign @ nat_dec (u div 1000) @ frac_str u 3 @ [CHR 0xC2, CHR 0xB5, CHR 0x73]
     else if u < 1000000000 then sign @ nat_dec (u div 1000000) @ frac_str u 6 @ ''ms''
     else let sec = u div 1000000000;
          s = nat_dec (sec mod 60) @ frac_str u 9 @ ''s''
       in if sec < 60 then sign @ s
          else if sec < 3600 then sign @ nat_dec (sec div 60) @ ''m'' @ s
          else sign @ nat_dec (sec div 3600) @ ''h'' @ nat_dec (sec div 60 mod 60) @ ''m'' @ s)"

definition fmt_2f :: "rat \<Rightarrow> string" where
  "fmt_2f x = (let n = nat \<bar>round_even (x * 100)\<bar> in (if x < 0 then ''-'' else [])
     @ nat_dec (n div 100) @ ''.'' @ pad_zeros 2 (nat_dec (n mod 100)))"

section \<open>Dynamically typed values\<close>

text \<open>
  A value of type \<open>interface{}\<close> carries its dynamic type; a type assertion succeeds on
  exactly one constructor. \<open>VOther\<close> is any further type, with its name.
\<close>

datatype gvalue = VString string | VBytes string | VInt int | VBool bool | VDuration duration
  | VPlatform string | VProtocol string | VNil | VOther string

type_synonym gmap = "string \<rightharpoonup> gvalue"

definition as_string :: "gvalue option \<Rightarrow> string option" where
  "as_string v = (case v of Some (VString s) \<Rightarrow> Some s | _ \<Rightarrow> None)"

definition as_int :: "gvalue option \<Rightarrow> int option" where
  "as_int v = (case v of Some (VInt n) \<Rightarrow> Some n | _ \<Rightarrow> None)"

lemma as_string_simps [simp]: "as_string None = None" "as_string (Some (VString s)) = Some s"
  by (simp_all add: as_string_def)

lemma as_int_simps [simp]: "as_int None = None" "as_int (Some (VInt n)) = Some n"
  by (simp_all add: as_int_def)

end
