(* ===== verification/Conn_Config.thy ===== *)
theory Conn_Config
  imports Go_Strings
begin

text \<open>
  Connection types and configuration: \<open>connection/types.go\<close>, \<open>config.go\<close>, \<open>capability*.go\<close>
  and \<open>config_enhanced.go\<close>. An error result is the error's message, \<open>None\<close> is nil. Floating
  point configuration values are rationals; pointers to sub-configurations are options.
\<close>

section \<open>Platforms, protocols and capabilities\<close>

type_synonym Platform = string
type_synonym Protocol = string
type_synonym CommandType = string

abbreviation PlatformCiscoIOSXE :: Platform where "PlatformCiscoIOSXE \<equiv> ''cisco_iosxe''"
abbreviation PlatformCiscoIOSXR :: Platform where "PlatformCiscoIOSXR \<equiv> ''cisco_iosxr''"
abbreviation PlatformCiscoNXOS :: Platform where "PlatformCiscoNXOS \<equiv> ''cisco_nxos''"
abbreviation PlatformH3CComware :: Platform where "PlatformH3CComware \<equiv> ''h3c_comware''"
abbreviation PlatformHuaweiVRP :: Platform where "PlatformHuaweiVRP \<equiv> ''huawei_vrp''"
abbreviation ProtocolSSH :: Protocol where "ProtocolSSH \<equiv> ''ssh''"
abbreviation ProtocolScrapli :: Protocol where "ProtocolScrapli \<equiv> ''scrapli''"
abbreviation CommandTypeCommands :: CommandType where "CommandTypeCommands \<equiv> ''commands''"
abbreviation CommandTypeInteractiveEvent :: CommandType where
  "CommandTypeInteractiveEvent \<equiv> ''interactive_event''"

record ConfigModeCapability =
  cm_Mode :: string
  cm_Privilege :: nat
  cm_EnterCommands :: "string list"
  cm_ExitCommands :: "string list"

record ProtocolCapability =
  pc_Protocol :: Protocol
  pc_PlatformSupport :: "Platform list"
  pc_CommandTypesSupport :: "CommandType list"
  pc_ConfigModes :: "ConfigModeCapability list"
  pc_MaxConcurrent :: int
  pc_Timeout :: duration
  pc_SupportsAutoComplete :: bool

definition SSHCapability :: ProtocolCapability where
  "SSHCapability = \<lparr>pc_Protocol = ProtocolSSH,
     pc_PlatformSupport = [PlatformCiscoIOSXE, PlatformHuaweiVRP],
     pc_CommandTypesSupport = [CommandTypeCommands],
     pc_ConfigModes = [\<lparr>cm_Mode = ''basic'', cm_Privilege = 0,
       cm_EnterCommands = [''configure terminal''], cm_ExitCommands = [''end'']\<rparr>],
     pc_MaxConcurrent = 5, pc_Timeout = 30 * Second, pc_SupportsAutoComplete = False\<rparr>"

definition ScrapliCapability :: ProtocolCapability where
  "ScrapliCapability = \<lparr>pc_Protocol = ProtocolScrapli,
     pc_PlatformSupport = [PlatformCiscoIOSXE, PlatformCiscoIOSXR, PlatformCiscoNXOS,
       PlatformH3CComware, PlatformHuaweiVRP],
     pc_CommandTypesSupport = [CommandTypeCommands, CommandTypeInteractiveEvent],
     pc_ConfigModes = [\<lparr>cm_Mode = ''basic'', cm_Privilege = 0,
         cm_EnterCommands = [''config term''], cm_ExitCommands = []\<rparr>,
       \<lparr>cm_Mode = ''privileged'', cm_Privilege = 1,
         cm_EnterCommands = [''enable''], cm_ExitCommands = []\<rparr>],
     pc_MaxConcurrent = 10, pc_Timeout = 0, pc_SupportsAutoComplete = True\<rparr>"

definition SupportsCommandType :: "ProtocolCapability \<Rightarrow> CommandType \<Rightarrow> bool" where
  "SupportsCommandType pc t = (find_first (\<lambda>ct. ct = t) (pc_CommandTypesSupport pc) \<noteq> None)"

definition GetConfigMode :: "ProtocolCapability \<Rightarrow> string \<Rightarrow> ConfigModeCapability option" where
  "GetConfigMode pc mode = find_first (\<lambda>m. cm_Mode m = mode) (pc_ConfigModes pc)"

section \<open>The configuration record\<close>

text \<open>Of the protocol-specific sections the records keep the fields some operation reads.\<close>

record SSHConfig =
  AuthMethod :: string
  CompressionLevel :: int

record ScrapliConfig =
  TransportType :: string
  CommsReadDelay :: duration
  TimeoutOpsDefault :: duration

record SecurityConfig =
  TLSEnabled :: bool

record EnhancedConnectionConfig =
  Host :: string
  Port :: int
  Username :: string
  Password :: string
  CfgProtocol :: Protocol
  CfgPlatform :: Platform
  ConnectTimeout :: duration
  ReadTimeout :: duration
  WriteTimeout :: duration
  TaskTimeout :: duration
  ConnectionMaxRetries :: int
  ConnectionRetryInterval :: duration
  ConnectionBackoffFactor :: rat
  TaskMaxRetries :: int
  TaskRetryInterval :: duration
  TaskBackoffFactor :: rat
  MaxConnections :: int
  MinConnections :: int
  MaxIdleTime :: duration
  HealthCheckTime :: duration
  HealthCheckTimeout :: duration
  CfgSSH :: "SSHConfig option"
  CfgScrapli :: "ScrapliConfig option"
  CfgSecurity :: "SecurityConfig option"
  Extensions :: gmap
  Labels :: "string \<rightharpoonup> string"
  Metadata :: gmap
  SmartRebuildEnabled :: bool
  RebuildMaxUsageCount :: int
  RebuildMaxAge :: duration
  RebuildMaxErrorRate :: rat
  RebuildMinInterval :: duration
  RebuildMinRequestsForErrorRate :: int
  CfgRebuildStrategy :: string
  HealthCheckTriggerRebuild :: bool
  UnhealthyFailureThreshold :: int
  DegradedFailureThreshold :: int
  DegradedLatencyThreshold :: duration
  UnhealthyThreshold :: int
  DegradedThreshold :: duration
  RebuildOnDegraded :: bool
  RebuildCheckInterval :: duration
  RebuildBatchSize :: int
  RebuildConcurrency :: int
  StuckTimeoutClosing :: duration
  StuckTimeoutConnecting :: duration
  StuckTimeoutAcquired :: duration
  StuckTimeoutExecuting :: duration
  StuckTimeoutChecking :: duration
  StuckTimeoutRebuildIdle :: duration

text \<open>The builder holds one configuration; its methods return the builder, so each is an
  update of the configuration and a chain of calls is their composition.\<close>

definition NewConfigBuilder :: EnhancedConnectionConfig where
  "NewConfigBuilder = \<lparr>Host = [], Port = 22, Username = [], Password = [],
     CfgProtocol = [], CfgPlatform = [],
     ConnectTimeout = 30 * Second, ReadTimeout = 30 * Second, WriteTimeout = 10 * Second,
     TaskTimeout = 60 * Second, ConnectionMaxRetries = 2,
     ConnectionRetryInterval = 2 * Second, ConnectionBackoffFactor = 3 / 2,
     TaskMaxRetries = 1, TaskRetryInterval = 500 * Millisecond, TaskBackoffFactor = 3 / 2,
     MaxConnections = 5, MinConnections = 2, MaxIdleTime = 2 * Minute,
     HealthCheckTime = 30 * Second, HealthCheckTimeout = 5 * Second,
     CfgSSH = None, CfgScrapli = None, CfgSecurity = None,
     Extensions = Map.empty, Labels = Map.empty, Metadata = Map.empty,
     SmartRebuildEnabled = True, RebuildMaxUsageCount = 200, RebuildMaxAge = 30 * Minute,
     RebuildMaxErrorRate = float_round (1 / 5), RebuildMinInterval = 5 * Minute,
     RebuildMinRequestsForErrorRate = 10, CfgRebuildStrategy = ''any'',
     HealthCheckTriggerRebuild = True, UnhealthyFailureThreshold = 3,
     DegradedFailureThreshold = 1, DegradedLatencyThreshold = 10 * Second,
     UnhealthyThreshold = 3, DegradedThreshold = 10 * Second, RebuildOnDegraded = False,
     RebuildCheckInterval = 5 * Minute, RebuildBatchSize = 2, RebuildConcurrency = 2,
     StuckTimeoutClosing = 0, StuckTimeoutConnecting = 0, StuckTimeoutAcquired = 0,
     StuckTimeoutExecuting = 0, StuckTimeoutChecking = 0, StuckTimeoutRebuildIdle = 0\<rparr>"

type_synonym config = EnhancedConnectionConfig

definition WithBasicAuth :: "string \<Rightarrow> string \<Rightarrow> string \<Rightarrow> config \<Rightarrow> config" where
  "WithBasicAuth host user pwd c = c\<lparr>Host := host, Username := user, Password := pwd\<rparr>"

definition WithProtocol :: "Protocol \<Rightarrow> Platform \<Rightarrow> config \<Rightarrow> config" where
  "WithProtocol proto plat c = c\<lparr>CfgProtocol := proto, CfgPlatform := plat\<rparr>"

definition WithTimeouts ::
  "duration \<Rightarrow> duration \<Rightarrow> duration \<Rightarrow> duration \<Rightarrow> config \<Rightarrow> config" where
  "WithTimeouts connect read write task c =
     c\<lparr>ConnectTimeout := (if connect > 0 then connect else ConnectTimeout c),
       ReadTimeout := (if read > 0 then read else ReadTimeout c),
       WriteTimeout := (if write > 0 then write else WriteTimeout c),
       TaskTimeout := (if task > 0 then task else TaskTimeout c)\<rparr>"

definition WithConnectionRetryPolicy :: "int \<Rightarrow> duration \<Rightarrow> rat \<Rightarrow> config \<Rightarrow> config" where
  "WithConnectionRetryPolicy n d b c = c\<lparr>ConnectionMaxRetries := n,
     ConnectionRetryInterval := d, ConnectionBackoffFactor := b\<rparr>"

definition WithTaskRetryPolicy :: "int \<Rightarrow> duration \<Rightarrow> rat \<Rightarrow> config \<Rightarrow> config" where
  "WithTaskRetryPolicy n d b c = c\<lparr>TaskMaxRetries := n, TaskRetryInterval := d,
     TaskBackoffFactor := b\<rparr>"

definition WithConnectionPool :: "int \<Rightarrow> int \<Rightarrow> duration \<Rightarrow> duration \<Rightarrow> config \<Rightarrow> config" where
  "WithConnectionPool mx mn maxIdle healthCheck c = c\<lparr>MaxConnections := mx,
     MinConnections := mn, MaxIdleTime := maxIdle, HealthCheckTime := healthCheck\<rparr>"

definition WithHealthCheckTimeout :: "duration \<Rightarrow> config \<Rightarrow> config" where
  "WithHealthCheckTimeout d c = c\<lparr>HealthCheckTimeout := d\<rparr>"

definition WithSmartRebuild ::
  "bool \<Rightarrow> int \<Rightarrow> duration \<Rightarrow> rat \<Rightarrow> int \<Rightarrow> config \<Rightarrow> config" where
  "WithSmartRebuild enabled maxUsage maxAge maxErrorRate minRequests c =
     c\<lparr>SmartRebuildEnabled := enabled,
       RebuildMaxUsageCount := (if maxUsage > 0 then maxUsage else RebuildMaxUsageCount c),
       RebuildMaxAge := (if maxAge > 0 then maxAge else RebuildMaxAge c),
       RebuildMaxErrorRate := (if maxErrorRate > 0 then maxErrorRate else RebuildMaxErrorRate c),
       RebuildMinRequestsForErrorRate :=
         (if minRequests > 0 then minRequests else RebuildMinRequestsForErrorRate c)\<rparr>"

definition WithSSHConfig :: "SSHConfig option \<Rightarrow> config \<Rightarrow> config" where
  "WithSSHConfig s c = c\<lparr>CfgSSH := s\<rparr>"

definition WithScrapliConfig :: "ScrapliConfig option \<Rightarrow> config \<Rightarrow> config" where
  "WithScrapliConfig s c = c\<lparr>CfgScrapli := s\<rparr>"

definition WithSecurity :: "SecurityConfig option \<Rightarrow> config \<Rightarrow> config" where
  "WithSecurity s c = c\<lparr>CfgSecurity := s\<rparr>"

definition WithLabels :: "(string \<rightharpoonup> string) \<Rightarrow> config \<Rightarrow> config" where
  "WithLabels ls c = c\<lparr>Labels := Labels c ++ ls\<rparr>"

definition WithMetadata :: "string \<Rightarrow> gvalue \<Rightarrow> config \<Rightarrow> config" where
  "WithMetadata k v c = c\<lparr>Metadata := (Metadata c)(k \<mapsto> v)\<rparr>"

section \<open>Validation\<close>

definition SSHConfig_Validate :: "SSHConfig \<Rightarrow> string option" where
  "SSHConfig_Validate s =
     (if AuthMethod s \<noteq> [] \<and> AuthMethod s \<notin> set [''password'', ''publickey'', ''keyboard-interactive'']
      then Some (''invalid auth method: '' @ AuthMethod s)
      else if CompressionLevel s < 0 \<or> CompressionLevel s > 9
      then Some ''compression level must be between 0 and 9''
      else None)"

definition ScrapliConfig_Validate :: "ScrapliConfig \<Rightarrow> string option" where
  "ScrapliConfig_Validate s =
     (if TransportType s \<noteq> [] \<and> TransportType s \<notin> set [''system'', ''ssh2'', ''paramiko'']
      then Some (''invalid transport type: '' @ TransportType s)
      else if CommsReadDelay s < 0 then Some ''comms read delay cannot be negative''
      else if TimeoutOpsDefault s \<le> 0 then Some ''timeout ops default must be positive''
      else None)"

text \<open>The first failing check of a sequence decides; \<open>None\<close> when all pass.\<close>

fun first_error :: "(bool \<times> string) list \<Rightarrow> string option" where
  "first_error [] = None"
| "first_error ((bad, msg) # cs) = (if bad then Some msg else first_error cs)"

definition validate_basic :: "config \<Rightarrow> (bool \<times> string) list" where
  "validate_basic c =
    [(Host c = [], ''host is required''),
     (Username c = [], ''username is required''),
     (Password c = [], ''password is required''),
     (CfgProtocol c = [], ''protocol is required''),
     (CfgPlatform c = [], ''platform is required''),
     (Port c \<le> 0 \<or> Port c > 65535, ''port must be between 1 and 65535''),
     (ConnectTimeout c \<le> 0, ''connect timeout must be positive''),
     (MaxConnections c \<le> 0, ''max connections must be positive''),
     (MinConnections c < 0, ''min connections cannot be negative''),
     (MinConnections c > MaxConnections c, ''min connections cannot exceed max connections''),
     (ConnectionMaxRetries c < 0, ''connection max retries cannot be negative''),
     (ConnectionBackoffFactor c < 1, ''connection backoff factor must be >= 1.0''),
     (TaskMaxRetries c < 0, ''task max retries cannot be negative''),
     (TaskBackoffFactor c < 1, ''task backoff factor must be >= 1.0'')]"

definition validate_rebuild :: "config \<Rightarrow> (bool \<times> string) list" where
  "validate_rebuild c = (if SmartRebuildEnabled c then
    [(RebuildMaxUsageCount c \<le> 0,
       ''rebuild max usage count must be positive when smart rebuild is enabled''),
     (RebuildMaxAge c \<le> 0, ''rebuild max age must be positive when smart rebuild is enabled''),
     (RebuildMaxErrorRate c < 0 \<or> RebuildMaxErrorRate c > 1,
       ''rebuild max error rate must be between 0 and 1.0''),
     (RebuildMinInterval c \<le> 0, ''rebuild min interval must be positive''),
     (RebuildMinRequestsForErrorRate c < 0,
       ''rebuild min requests for error rate cannot be negative''),
     (CfgRebuildStrategy c \<notin> set [''any'', ''all'', ''usage'', ''age'', ''error''],
       ''invalid rebuild strategy: '' @ CfgRebuildStrategy c)] else [])"

definition validate_health :: "config \<Rightarrow> (bool \<times> string) list" where
  "validate_health c = (if HealthCheckTriggerRebuild c then
    [(UnhealthyFailureThreshold c \<le> 0, ''unhealthy failure threshold must be positive when health check trigger rebuild is enabled''),
     (DegradedFailureThreshold c < 0, ''degraded failure threshold must be non-negative when health check trigger rebuild is enabled''),
     (UnhealthyThreshold c \<le> 0 \<and> UnhealthyFailureThreshold c \<le> 0,
       ''either unhealthy_threshold or unhealthy_failure_threshold must be positive''),
     (DegradedLatencyThreshold c \<le> 0 \<and> DegradedThreshold c \<le> 0,
       ''either degraded_threshold or degraded_latency_threshold must be positive'')] else [])"

definition validate_exec :: "config \<Rightarrow> (bool \<times> string) list" where
  "validate_exec c =
    [(RebuildCheckInterval c \<le> 0, ''rebuild check interval must be positive''),
     (RebuildBatchSize c \<le> 0, ''rebuild batch size must be positive''),
     (RebuildConcurrency c \<le> 0, ''rebuild concurrency must be positive'')]"

definition validate_protocol :: "config \<Rightarrow> string option" where
  "validate_protocol c =
    (if CfgProtocol c = ProtocolSSH then
       (case CfgSSH c of None \<Rightarrow> None | Some s \<Rightarrow>
          map_option (\<lambda>e. ''SSH config validation failed: '' @ e) (SSHConfig_Validate s))
     else if CfgProtocol c = ProtocolScrapli then
       (case CfgScrapli c of None \<Rightarrow> None | Some s \<Rightarrow>
          map_option (\<lambda>e. ''Scrapli config validation failed: '' @ e) (ScrapliConfig_Validate s))
     else None)"

definition Config_Validate :: "config \<Rightarrow> string option" where
  "Config_Validate c =
    (case first_error (validate_basic c @ validate_rebuild c @ validate_health c @ validate_exec c)
     of Some e \<Rightarrow> Some e | None \<Rightarrow> validate_protocol c)"

definition Build :: "config \<Rightarrow> string + config" where
  "Build c = (case Config_Validate c of Some e \<Rightarrow> Inl e | None \<Rightarrow> Inr c)"

section \<open>Derived values\<close>

definition GetConnectionString :: "config \<Rightarrow> string" where
  "GetConnectionString c =
     CfgProtocol c @ ''://'' @ Username c @ ''@'' @ Host c @ '':'' @ Itoa (Port c)"

definition IsSecure :: "config \<Rightarrow> bool" where
  "IsSecure c = ((case CfgSecurity c of Some s \<Rightarrow> TLSEnabled s | None \<Rightarrow> False)
     \<or> CfgProtocol c = ProtocolSSH)"

definition GetEffectiveTimeout :: "config \<Rightarrow> string \<Rightarrow> duration" where
  "GetEffectiveTimeout c t = (if t = ''connect'' then ConnectTimeout c
     else if t = ''read'' then ReadTimeout c
     else if t = ''write'' then WriteTimeout c else 0)"

record ConnectionConfig =
  lc_IP :: string
  lc_Username :: string
  lc_Password :: string
  lc_Port :: int
  lc_Timeout :: duration
  lc_Metadata :: gmap

definition ToLegacyConfig :: "config \<Rightarrow> ConnectionConfig" where
  "ToLegacyConfig c = \<lparr>lc_IP = Host c, lc_Username = Username c, lc_Password = Password c,
     lc_Port = Port c, lc_Timeout = ConnectTimeout c,
     lc_Metadata = [''protocol'' \<mapsto> VString (CfgProtocol c),
       ''platform'' \<mapsto> VString (CfgPlatform c)] ++ Metadata c\<rparr>"

section \<open>Lemmas\<close>

lemma SupportsCommandType_iff: "SupportsCommandType pc t \<longleftrightarrow> t \<in> set (pc_CommandTypesSupport pc)"
  by (auto simp: SupportsCommandType_def)

lemma first_error_None: "first_error cs = None \<longleftrightarrow> (\<forall>(bad, m)\<in>set cs. \<not> bad)"
  by (induction cs rule: first_error.induct) auto

lemmas validate_defs = validate_basic_def validate_rebuild_def validate_health_def
  validate_exec_def first_error_None

lemma Config_Validate_None_iff:
  "Config_Validate c = None \<longleftrightarrow>
     (\<forall>(bad, m) \<in> set (validate_basic c @ validate_rebuild c @ validate_health c @ validate_exec c).
        \<not> bad) \<and> validate_protocol c = None"
  unfolding first_error_None [symmetric]
  by (simp add: Config_Validate_def split: option.splits)

lemma Config_Validate_pool_bounds:
  assumes "Config_Validate c = None"
  shows "0 < MaxConnections c" "0 \<le> MinConnections c" "MinConnections c \<le> MaxConnections c"
    "0 < ConnectTimeout c" "0 \<le> ConnectionMaxRetries c" "0 \<le> TaskMaxRetries c"
    "1 \<le> ConnectionBackoffFactor c" "1 \<le> Port c" "Port c \<le> 65535"
  using assms by (auto simp: Config_Validate_None_iff validate_basic_def)

lemma Config_Validate_rebuild:
  assumes "Config_Validate c = None" "SmartRebuildEnabled c"
  shows "0 < RebuildMaxUsageCount c" "0 < RebuildMaxAge c" "0 \<le> RebuildMaxErrorRate c"
    "RebuildMaxErrorRate c \<le> 1" "0 < RebuildMinInterval c"
    "0 \<le> RebuildMinRequestsForErrorRate c"
    "CfgRebuildStrategy c \<in> {''any'', ''all'', ''usage'', ''age'', ''error''}"
  using assms by (auto simp: Config_Validate_None_iff validate_rebuild_def)

end
