(* ===== verification/Health_Manager.thy ===== *)
theory Health_Manager
  imports Conn_Config
begin

text \<open>
  Health statuses and health-check error classes: \<open>connection/health_manager.go\<close> and the
  second classifier of \<open>connection/pool_enhanced.go\<close>. An error is \<open>Some\<close> of its message.
\<close>

datatype HealthStatus = HealthStatusUnknown | HealthStatusHealthy | HealthStatusDegraded
  | HealthStatusUnhealthy

fun HealthStatus_String :: "HealthStatus \<Rightarrow> string" where
  "HealthStatus_String HealthStatusHealthy = ''healthy''"
| "HealthStatus_String HealthStatusDegraded = ''degraded''"
| "HealthStatus_String HealthStatusUnhealthy = ''unhealthy''"
| "HealthStatus_String HealthStatusUnknown = ''unknown''"

datatype HealthCheckErrorType = HealthErrorUnknown | HealthErrorTimeout | HealthErrorNetwork
  | HealthErrorAuth | HealthErrorCommand | HealthErrorProtocol

fun HealthCheckErrorType_String :: "HealthCheckErrorType \<Rightarrow> string" where
  "HealthCheckErrorType_String HealthErrorTimeout = ''timeout''"
| "HealthCheckErrorType_String HealthErrorNetwork = ''network''"
| "HealthCheckErrorType_String HealthErrorAuth = ''authentication''"
| "HealthCheckErrorType_String HealthErrorCommand = ''command''"
| "HealthCheckErrorType_String HealthErrorProtocol = ''protocol''"
| "HealthCheckErrorType_String HealthErrorUnknown = ''unknown''"

definition ClassifyHealthCheckError :: "string option \<Rightarrow> HealthCheckErrorType" where
  "ClassifyHealthCheckError err = (case err of None \<Rightarrow> HealthErrorUnknown | Some e \<Rightarrow>
     if Contains e ''timeout'' \<or> Contains e ''deadline'' \<or> Contains e ''context deadline exceeded''
     then HealthErrorTimeout
     else if Contains e ''network'' \<or> Contains e ''connection'' \<or> Contains e ''reset by peer''
       \<or> Contains e ''broken pipe'' then HealthErrorNetwork
     else if Contains e ''authentication'' \<or> Contains e ''password'' \<or> Contains e ''login''
       \<or> Contains e ''auth'' then HealthErrorAuth
     else if Contains e ''command'' \<or> Contains e ''syntax'' \<or> Contains e ''invalid command''
     then HealthErrorCommand
     else if Contains e ''protocol'' \<or> Contains e ''unsupported'' then HealthErrorProtocol
     else HealthErrorUnknown)"

text \<open>The classifier the pool uses: the same, with end-of-file errors first.\<close>

definition classifyHealthCheckError :: "string option \<Rightarrow> HealthCheckErrorType" where
  "classifyHealthCheckError err = (case err of None \<Rightarrow> HealthErrorUnknown | Some e \<Rightarrow>
     if e = ''EOF'' \<or> Contains e ''EOF'' then HealthErrorNetwork
     else if Contains e ''timeout'' \<or> Contains e ''deadline'' \<or> Contains e ''context deadline exceeded''
     then HealthErrorTimeout
     else if Contains e ''network'' \<or> Contains e ''connection'' \<or> Contains e ''reset by peer''
       \<or> Contains e ''broken pipe'' then HealthErrorNetwork
     else if Contains e ''authentication'' \<or> Contains e ''password'' \<or> Contains e ''login''
       \<or> Contains e ''auth'' then HealthErrorAuth
     else if Contains e ''command'' \<or> Contains e ''syntax'' \<or> Contains e ''invalid command''
     then HealthErrorCommand
     else if Contains e ''protocol'' \<or> Contains e ''unsupported'' then HealthErrorProtocol
     else HealthErrorUnknown)"

lemma Contains_subsumed:
  "Contains e ''context deadline exceeded'' \<Longrightarrow> Contains e ''deadline''"
  "Contains e ''authentication'' \<Longrightarrow> Contains e ''auth''"
  "Contains e ''invalid command'' \<Longrightarrow> Contains e ''command''"
  by (erule Contains_trans, simp)+

lemma classifiers_agree:
  "\<not> Contains e ''EOF'' \<Longrightarrow> classifyHealthCheckError (Some e) = ClassifyHealthCheckError (Some e)"
  by (auto simp: classifyHealthCheckError_def ClassifyHealthCheckError_def)

end
