(* ===== verification/Pooled_Conn.thy ===== *)
theory Pooled_Conn
  imports State_Manager Health_Manager
begin

text \<open>
  One pooled connection: \<open>connection/pooled_connection.go\<close>. Every method holds the
  connection's lock for its whole body (or is a single atomic instruction), so a method is
  one state-passing function; \<open>now\<close> is the instant \<open>time.Now()\<close> returns inside it. A driver
  is a handle; its \<open>Close\<close> result is an argument of the operations that call it.
\<close>

section \<open>State\<close>

record pconn =
  c_driver :: "nat option"
  c_id :: string
  c_protocol :: Protocol
  c_createdAt :: gtime
  c_lastUsed :: gtime
  c_usageCount :: int
  c_state :: ConnectionState
  c_rebuilding :: bool
  c_lastRebuiltAt :: gtime
  c_markedForRebuild :: int
  c_rebuildReason :: string
  c_healthStatus :: HealthStatus
  c_lastHealthCheck :: gtime
  c_consecutiveFailures :: int
  c_avgResponseTime :: duration
  c_totalRequests :: int
  c_totalErrors :: int
  c_usingCount :: int
  c_config :: "config option"
  c_labels :: "string \<rightharpoonup> string"

section \<open>Operations\<close>

definition canTransitionTo :: "pconn \<Rightarrow> ConnectionState \<Rightarrow> bool" where
  "canTransitionTo c t = CanTransition (c_state c) t"

definition transitionStateLocked :: "ConnectionState \<Rightarrow> pconn \<Rightarrow> bool \<times> pconn" where
  [conn_simps]: "transitionStateLocked t c =
     (if \<not> canTransitionTo c t then (False, c) else (True, c\<lparr>c_state := t\<rparr>))"

definition transitionState :: "ConnectionState \<Rightarrow> pconn \<Rightarrow> bool \<times> pconn" where
  [conn_simps]: "transitionState t c = transitionStateLocked t c"

definition tryAcquireForTask :: "gtime \<Rightarrow> pconn \<Rightarrow> bool \<times> pconn" where
  [conn_simps]: "tryAcquireForTask now c =
     (if c_usingCount c > 0 then (False, c)
      else if c_state c \<noteq> StateIdle then (False, c)
      else if c_healthStatus c = HealthStatusUnhealthy then (False, c)
      else if c_rebuilding c then (False, c)
      else case transitionStateLocked StateAcquired c of
        (False, c') \<Rightarrow> (False, c')
      | (True, c') \<Rightarrow> (True, c'\<lparr>c_lastUsed := now, c_usageCount := c_usageCount c' + 1\<rparr>))"

definition release :: "gtime \<Rightarrow> pconn \<Rightarrow> pconn" where
  [conn_simps]: "release now c =
     (if c_state c \<noteq> StateAcquired then c
      else case transitionStateLocked StateIdle c of
        (False, c') \<Rightarrow> snd (transitionStateLocked StateClosing c')
      | (True, c') \<Rightarrow> c'\<lparr>c_lastUsed := now\<rparr>)"

definition getState :: "pconn \<Rightarrow> bool \<times> bool \<times> HealthStatus" where
  "getState c = (c_state c = StateAcquired,
     c_state c \<noteq> StateClosed \<and> c_state c \<noteq> StateClosing, c_healthStatus c)"

definition getStatus :: "pconn \<Rightarrow> ConnectionState \<times> HealthStatus" where
  "getStatus c = (c_state c, c_healthStatus c)"

definition setHealthLocked :: "HealthStatus \<Rightarrow> bool \<Rightarrow> pconn \<Rightarrow> pconn" where
  [conn_simps]: "setHealthLocked status valid c = c\<lparr>c_healthStatus := status\<rparr>"

definition setHealth :: "HealthStatus \<Rightarrow> bool \<Rightarrow> pconn \<Rightarrow> pconn" where
  [conn_simps]: "setHealth status valid c = setHealthLocked status valid c"

definition markForRebuild :: "pconn \<Rightarrow> bool \<times> pconn" where
  [conn_simps]: "markForRebuild c = (if c_markedForRebuild c = 0
     then (True, c\<lparr>c_markedForRebuild := 1\<rparr>) else (False, c))"

definition markForRebuildWithReason :: "string \<Rightarrow> pconn \<Rightarrow> bool \<times> pconn" where
  [conn_simps]: "markForRebuildWithReason reason c = (if c_markedForRebuild c = 0
     then (True, c\<lparr>c_markedForRebuild := 1, c_rebuildReason := reason\<rparr>) else (False, c))"

definition markForRebuildWithReasonLocked :: "string \<Rightarrow> pconn \<Rightarrow> bool \<times> pconn" where
  [conn_simps]: "markForRebuildWithReasonLocked reason c = (if c_markedForRebuild c = 0
     then (True, c\<lparr>c_markedForRebuild := 1, c_rebuildReason := reason\<rparr>) else (False, c))"

definition clearRebuildMark :: "pconn \<Rightarrow> pconn" where
  [conn_simps]: "clearRebuildMark c = c\<lparr>c_markedForRebuild := 0\<rparr>"

definition isMarkedForRebuild :: "pconn \<Rightarrow> bool" where
  "isMarkedForRebuild c = (c_markedForRebuild c = 1)"

text \<open>The failure branch of \<open>recordHealthCheck\<close>, on the already incremented failure count.\<close>

definition recordFailure :: "config \<Rightarrow> pconn \<Rightarrow> pconn" where
  [conn_simps]: "recordFailure cfg c =
     (if c_consecutiveFailures c \<ge> UnhealthyFailureThreshold cfg then
        let c1 = setHealthLocked HealthStatusUnhealthy False c in
        (if HealthCheckTriggerRebuild cfg
         then snd (markForRebuildWithReasonLocked
           (''health_check_failed_'' @ Itoa (c_consecutiveFailures c) @ ''_times'') c1) else c1)
      else if c_consecutiveFailures c \<ge> DegradedFailureThreshold cfg then
        let c1 = setHealthLocked HealthStatusDegraded False c in
        (if RebuildOnDegraded cfg
         then snd (markForRebuildWithReasonLocked
           (''health_check_degraded_'' @ Itoa (c_consecutiveFailures c) @ ''_times'') c1) else c1)
      else setHealthLocked HealthStatusHealthy False c)"

text \<open>\<open>None\<close> is the nil dereference of a connection without configuration.\<close>

definition recordHealthCheck :: "gtime \<Rightarrow> bool \<Rightarrow> string option \<Rightarrow> pconn \<Rightarrow> pconn option" where
  [conn_simps]: "recordHealthCheck now success err c =
     (let c1 = c\<lparr>c_lastHealthCheck := now\<rparr>;
          c2 = (if success
                then Some (setHealthLocked HealthStatusHealthy True (c1\<lparr>c_consecutiveFailures := 0\<rparr>))
                else map_option (\<lambda>cfg. recordFailure cfg
                  (c1\<lparr>c_consecutiveFailures := c_consecutiveFailures c1 + 1\<rparr>)) (c_config c1))
      in map_option (\<lambda>c3. if c_state c3 = StateChecking
           then snd (transitionStateLocked StateAcquired c3) else c3) c2)"

definition incrementUsage :: "pconn \<Rightarrow> pconn" where
  [conn_simps]: "incrementUsage c = c\<lparr>c_usageCount := c_usageCount c + 1\<rparr>"

definition setLastRebuiltAt :: "gtime \<Rightarrow> pconn \<Rightarrow> pconn" where
  [conn_simps]: "setLastRebuiltAt t c = c\<lparr>c_lastRebuiltAt := t\<rparr>"

definition setLastUsed :: "gtime \<Rightarrow> pconn \<Rightarrow> pconn" where
  [conn_simps]: "setLastUsed t c = c\<lparr>c_lastUsed := t\<rparr>"

definition recordRequest :: "bool \<Rightarrow> duration \<Rightarrow> pconn \<Rightarrow> pconn" where
  [conn_simps]: "recordRequest success d c =
     (let c1 = c\<lparr>c_totalRequests := c_totalRequests c + 1\<rparr>;
          c2 = (if \<not> success then c1\<lparr>c_totalErrors := c_totalErrors c1 + 1\<rparr> else c1)
      in if c_totalRequests c2 = 1 then c2\<lparr>c_avgResponseTime := d\<rparr>
         else c2\<lparr>c_avgResponseTime := Duration_of_float (float_round
           (float_round (float_round (of_int (c_avgResponseTime c2)) * float_round (7 / 10))
            + float_round (float_round (of_int d) * float_round (3 / 10))))\<rparr>)"

definition validateState :: "pconn \<Rightarrow> string option" where
  "validateState c = (if c_state c = StateClosed \<or> c_state c = StateClosing
     then Some (''connection is '' @ ConnectionState_String (c_state c))
     else if c_rebuilding c then Some ''connection is being rebuilt'' else None)"

definition beginHealthCheck :: "pconn \<Rightarrow> bool \<times> pconn" where
  [conn_simps]: "beginHealthCheck c = transitionStateLocked StateChecking c"

definition completeHealthCheck :: "bool \<Rightarrow> pconn \<Rightarrow> bool \<times> pconn" where
  [conn_simps]: "completeHealthCheck success c =
     (if c_state c \<noteq> StateChecking then (False, c)
      else transitionStateLocked (if success then StateIdle else StateClosing) c)"

definition beginRebuild :: "pconn \<Rightarrow> bool \<times> pconn" where
  [conn_simps]: "beginRebuild c =
     (if c_rebuilding c then (False, c)
      else if c_state c = StateClosing \<or> c_state c = StateClosed then (False, c)
      else (True, c\<lparr>c_rebuilding := True\<rparr>))"

definition completeRebuild :: "bool \<Rightarrow> pconn \<Rightarrow> pconn" where
  [conn_simps]: "completeRebuild success c =
     (if \<not> c_rebuilding c then c
      else let c1 = c\<lparr>c_rebuilding := False\<rparr>
        in if success then c1\<lparr>c_markedForRebuild := 0\<rparr> else c1)"

definition beginClose :: "pconn \<Rightarrow> bool \<times> pconn" where
  [conn_simps]: "beginClose c = transitionStateLocked StateClosing c"

definition completeClose :: "pconn \<Rightarrow> bool \<times> pconn" where
  [conn_simps]: "completeClose c =
     (if c_state c \<noteq> StateClosing then (False, c) else transitionStateLocked StateClosed c)"

definition isAvailable :: "pconn \<Rightarrow> bool" where
  "isAvailable c = (c_state c = StateIdle \<and> c_healthStatus c \<noteq> HealthStatusUnhealthy)"

definition isIdle :: "pconn \<Rightarrow> bool" where
  "isIdle c = (c_state c = StateIdle)"

definition isHealthy :: "pconn \<Rightarrow> bool" where
  "isHealthy c = (c_healthStatus c \<noteq> HealthStatusUnhealthy)"

definition acquireUse :: "pconn \<Rightarrow> pconn" where
  [conn_simps]: "acquireUse c = c\<lparr>c_usingCount := c_usingCount c + 1\<rparr>"

definition releaseUse :: "pconn \<Rightarrow> pconn" where
  [conn_simps]: "releaseUse c = c\<lparr>c_usingCount := c_usingCount c - 1\<rparr>"

text \<open>
  \<open>safeClose\<close> takes the use count it reads after the two-second wait and the result of the
  driver's \<open>Close\<close>. It returns \<open>None\<close> for the nil driver (a panic), else the error and
  whether the driver was closed. The use count it adds is taken back on return.
\<close>

definition safeClose :: "int \<Rightarrow> string option \<Rightarrow> pconn \<Rightarrow> (string option \<times> bool) option" where
  "safeClose finalUseCount closeErr c =
     (let useCount = c_usingCount (acquireUse c)
      in if useCount > 1 \<and> finalUseCount > 1
         then Some (Some (''connection still in use by others: useCount='' @ Itoa (finalUseCount - 1)), False)
         else case c_driver c of None \<Rightarrow> None | Some _ \<Rightarrow> Some (closeErr, True))"

text \<open>\<open>forceClose\<close> recovers a panic and then returns a nil error.\<close>

definition forceClose :: "string option \<Rightarrow> pconn \<Rightarrow> string option \<times> bool" where
  "forceClose closeErr c = (case c_driver c of None \<Rightarrow> (None, False) | Some _ \<Rightarrow> (closeErr, True))"

section \<open>Sequences of operations\<close>

text \<open>Every call the pool makes on a connection, in any order the goroutines produce.\<close>

datatype conn_op = OpTryAcquire gtime | OpRelease gtime | OpTransition ConnectionState
  | OpSetHealth HealthStatus | OpRecordHealth gtime bool "string option"
  | OpRecordRequest bool duration | OpMark string | OpClearMark | OpBeginCheck
  | OpCompleteCheck bool | OpBeginRebuild | OpCompleteRebuild bool | OpBeginClose
  | OpCompleteClose | OpAcquireUse | OpReleaseUse

fun conn_apply :: "conn_op \<Rightarrow> pconn \<Rightarrow> pconn" where
  "conn_apply (OpTryAcquire t) c = snd (tryAcquireForTask t c)"
| "conn_apply (OpRelease t) c = release t c"
| "conn_apply (OpTransition s) c = snd (transitionState s c)"
| "conn_apply (OpSetHealth h) c = setHealth h False c"
| "conn_apply (OpRecordHealth t s e) c = (case recordHealthCheck t s e c of None \<Rightarrow> c | Some c' \<Rightarrow> c')"
| "conn_apply (OpRecordRequest s d) c = recordRequest s d c"
| "conn_apply (OpMark r) c = snd (markForRebuildWithReason r c)"
| "conn_apply OpClearMark c = clearRebuildMark c"
| "conn_apply OpBeginCheck c = snd (beginHealthCheck c)"
| "conn_apply (OpCompleteCheck s) c = snd (completeHealthCheck s c)"
| "conn_apply OpBeginRebuild c = snd (beginRebuild c)"
| "conn_apply (OpCompleteRebuild s) c = completeRebuild s c"
| "conn_apply OpBeginClose c = snd (beginClose c)"
| "conn_apply OpCompleteClose c = snd (completeClose c)"
| "conn_apply OpAcquireUse c = acquireUse c"
| "conn_apply OpReleaseUse c = releaseUse c"

fun conn_run :: "conn_op list \<Rightarrow> pconn \<Rightarrow> pconn" where
  "conn_run [] c = c"
| "conn_run (o1 # os) c = conn_run os (conn_apply o1 c)"

text \<open>Counters and marks of a well-formed connection.\<close>

definition conn_wf :: "pconn \<Rightarrow> bool" where
  "conn_wf c \<longleftrightarrow> c_markedForRebuild c \<in> {0, 1} \<and> 0 \<le> c_usageCount c
     \<and> 0 \<le> c_totalErrors c \<and> c_totalErrors c \<le> c_totalRequests c
     \<and> 0 \<le> c_consecutiveFailures c"

section \<open>Operations follow the transition table\<close>

lemma transitionStateLocked_cases:
  "(fst (transitionStateLocked t c) \<and> CanTransition (c_state c) t
      \<and> snd (transitionStateLocked t c) = c\<lparr>c_state := t\<rparr>)
   \<or> (\<not> fst (transitionStateLocked t c) \<and> \<not> CanTransition (c_state c) t
      \<and> snd (transitionStateLocked t c) = c)"
  by (simp add: conn_simps canTransitionTo_def)

lemma recordFailure_state [simp]: "c_state (recordFailure cfg c) = c_state c"
  by (simp add: conn_simps Let_def)

text \<open>The three outcomes of a health check, as rewrite rules.\<close>

definition after_check :: "pconn \<Rightarrow> pconn" where
  "after_check c = (if c_state c = StateChecking then c\<lparr>c_state := StateAcquired\<rparr> else c)"

lemma recordHealthCheck_success:
  "recordHealthCheck now True e c = Some (after_check (c\<lparr>c_lastHealthCheck := now,
     c_consecutiveFailures := 0, c_healthStatus := HealthStatusHealthy\<rparr>))"
  by (simp add: recordHealthCheck_def Let_def setHealthLocked_def transitionStateLocked_def
      canTransitionTo_def after_check_def)

lemma recordHealthCheck_failure:
  "c_config c = Some cfg \<Longrightarrow> recordHealthCheck now False e c = Some (after_check (recordFailure cfg
     (c\<lparr>c_lastHealthCheck := now, c_consecutiveFailures := c_consecutiveFailures c + 1\<rparr>)))"
  by (simp add: recordHealthCheck_def Let_def transitionStateLocked_def canTransitionTo_def
      after_check_def)

lemma recordHealthCheck_nil_config:
  "c_config c = None \<Longrightarrow> recordHealthCheck now False e c = None"
  by (simp add: recordHealthCheck_def)

lemmas recordHealthCheck_rules = recordHealthCheck_success recordHealthCheck_failure
  recordHealthCheck_nil_config

lemma recordHealthCheck_shape:
  obtains (same) "conn_apply (OpRecordHealth t s e) c = c"
  | (good) "conn_apply (OpRecordHealth t s e) c = after_check (c\<lparr>c_lastHealthCheck := t,
      c_consecutiveFailures := 0, c_healthStatus := HealthStatusHealthy\<rparr>)"
  | (bad) cfg where "conn_apply (OpRecordHealth t s e) c = after_check (recordFailure cfg
      (c\<lparr>c_lastHealthCheck := t, c_consecutiveFailures := c_consecutiveFailures c + 1\<rparr>))"
proof (cases s)
  case True
  then show thesis using good by (simp add: recordHealthCheck_success)
next
  case False
  then show thesis
    using same bad by (cases "c_config c") (simp_all add: recordHealthCheck_rules)
qed

lemma conn_apply_state:
  "c_state (conn_apply o1 c) = c_state c \<or> CanTransition (c_state c) (c_state (conn_apply o1 c))"
proof (cases o1)
  case (OpRecordHealth t s e)
  then show ?thesis
    by (cases rule: recordHealthCheck_shape [of t s e c]) (auto simp: after_check_def)
next
  case (OpRecordRequest s d)
  then show ?thesis by (simp add: recordRequest_def Let_def)
qed (auto simp: conn_simps canTransitionTo_def Let_def)

lemma conn_run_state: "state_run (c_state c) (c_state (conn_run os c))"
proof (induction os arbitrary: c)
  case (Cons o1 os)
  have "state_run (c_state c) (c_state (conn_apply o1 c))"
    using conn_apply_state [of o1 c] by (metis run_refl run_step)
  with Cons show ?case by (auto intro: state_run_trans)
qed (simp add: run_refl)

section \<open>The well-formedness invariant\<close>

lemma conn_wf_recordFailure [conn_inv]:
  "conn_wf c \<Longrightarrow> conn_wf (recordFailure cfg c)"
  by (auto simp: conn_wf_def conn_simps Let_def)

lemma conn_apply_wf [conn_inv]: "conn_wf c \<Longrightarrow> conn_wf (conn_apply o1 c)"
proof (cases o1)
  case (OpRecordHealth t s e)
  assume wf: "conn_wf c"
  have "conn_wf (recordFailure cfg (c\<lparr>c_lastHealthCheck := t,
      c_consecutiveFailures := c_consecutiveFailures c + 1\<rparr>))" for cfg
    by (rule conn_wf_recordFailure) (use wf in \<open>auto simp: conn_wf_def\<close>)
  moreover have "conn_wf d \<Longrightarrow> conn_wf (after_check d)" for d
    by (simp add: after_check_def conn_wf_def)
  moreover have "conn_wf (c\<lparr>c_lastHealthCheck := t, c_consecutiveFailures := 0,
      c_healthStatus := HealthStatusHealthy\<rparr>)"
    using wf by (simp add: conn_wf_def)
  ultimately show ?thesis
    unfolding OpRecordHealth using wf
    by (cases rule: recordHealthCheck_shape [of t s e c]) simp_all
qed (auto simp: conn_wf_def conn_simps canTransitionTo_def Let_def)

lemma conn_run_wf [conn_inv]: "conn_wf c \<Longrightarrow> conn_wf (conn_run os c)"
  by (induction os arbitrary: c) (auto intro: conn_inv)

section \<open>Properties\<close>


definition sample_conn :: pconn where
  "sample_conn = \<lparr>c_driver = Some 0, c_id = ''r1|scrapli|1'', c_protocol = ProtocolScrapli,
     c_createdAt = 1, c_lastUsed = 1, c_usageCount = 0, c_state = StateIdle,
     c_rebuilding = False, c_lastRebuiltAt = 0, c_markedForRebuild = 0, c_rebuildReason = [],
     c_healthStatus = HealthStatusUnknown, c_lastHealthCheck = 0, c_consecutiveFailures = 0,
     c_avgResponseTime = 0, c_totalRequests = 0, c_totalErrors = 0, c_usingCount = 0,
     c_config = Some NewConfigBuilder, c_labels = Map.empty\<rparr>"


text \<open>Taking a connection for a task succeeds exactly when it is idle, not unhealthy, not
  being rebuilt and not used by anyone; success sets the state to acquired, stamps the use
  time and counts the use, failure changes nothing.\<close>

theorem tryAcquire_spec:
  "fst (tryAcquireForTask t c) = (isAvailable c \<and> \<not> c_rebuilding c \<and> c_usingCount c \<le> 0)
   \<and> snd (tryAcquireForTask t c) =
      (if isAvailable c \<and> \<not> c_rebuilding c \<and> c_usingCount c \<le> 0
       then c\<lparr>c_state := StateAcquired, c_lastUsed := t, c_usageCount := c_usageCount c + 1\<rparr>
       else c)"
  by (auto simp: conn_simps canTransitionTo_def isAvailable_def)

text \<open>Exclusive use: once a connection has left the idle state, no task can take it, for as
  long as nobody releases it, completes a health check on it with success, or moves it to the
  idle state explicitly.\<close>

theorem acquire_exclusive:
  assumes "c_state c \<noteq> StateIdle"
    and "\<forall>o1\<in>set os. (\<forall>t. o1 \<noteq> OpRelease t) \<and> o1 \<noteq> OpCompleteCheck True \<and> o1 \<noteq> OpTransition StateIdle"
  shows "c_state (conn_run os c) \<noteq> StateIdle \<and> \<not> fst (tryAcquireForTask t (conn_run os c))"
proof -
  have step: "c_state (conn_apply o1 c) \<noteq> StateIdle"
    if "c_state c \<noteq> StateIdle" "\<forall>t. o1 \<noteq> OpRelease t" "o1 \<noteq> OpCompleteCheck True"
      "o1 \<noteq> OpTransition StateIdle" for o1 c
  proof (cases o1)
    case (OpRecordHealth t s e)
    then show ?thesis
      using that by (cases rule: recordHealthCheck_shape [of t s e c]) (auto simp: after_check_def)
  next
    case (OpCompleteCheck s)
    then show ?thesis using that by (auto simp: conn_simps canTransitionTo_def)
  qed (use that in \<open>auto simp: conn_simps canTransitionTo_def Let_def\<close>)
  have "c_state (conn_run os c) \<noteq> StateIdle"
    using assms by (induction os arbitrary: c) (auto simp: step)
  then show ?thesis by (simp add: conn_simps)
qed

theorem acquire_exclusive_witness:
  "\<not> fst (tryAcquireForTask 9 (conn_run [OpBeginCheck, OpRecordHealth 8 True None]
      (snd (tryAcquireForTask 7 sample_conn))))"
  using acquire_exclusive [of "snd (tryAcquireForTask 7 sample_conn)"
      "[OpBeginCheck, OpRecordHealth 8 True None]" 9]
  by (simp add: sample_conn_def conn_simps canTransitionTo_def)

definition fail_checks :: "gtime \<Rightarrow> string option \<Rightarrow> nat \<Rightarrow> pconn \<Rightarrow> pconn" where
  "fail_checks t e n c = (conn_apply (OpRecordHealth t False e) ^^ n) c"

lemma recordFailure_fields [simp]:
  "c_consecutiveFailures (recordFailure cfg c) = c_consecutiveFailures c"
  "c_config (recordFailure cfg c) = c_config c"
  "c_healthStatus (recordFailure cfg c) =
     (if c_consecutiveFailures c \<ge> UnhealthyFailureThreshold cfg then HealthStatusUnhealthy
      else if c_consecutiveFailures c \<ge> DegradedFailureThreshold cfg then HealthStatusDegraded
      else HealthStatusHealthy)"
  "isMarkedForRebuild (recordFailure cfg c) =
     (isMarkedForRebuild c \<or> (c_markedForRebuild c = 0 \<and>
       (if c_consecutiveFailures c \<ge> UnhealthyFailureThreshold cfg then HealthCheckTriggerRebuild cfg
        else c_consecutiveFailures c \<ge> DegradedFailureThreshold cfg \<and> RebuildOnDegraded cfg)))"
  by (auto simp: conn_simps Let_def isMarkedForRebuild_def)

lemma after_check_fields [simp]:
  "c_consecutiveFailures (after_check c) = c_consecutiveFailures c"
  "c_config (after_check c) = c_config c" "c_healthStatus (after_check c) = c_healthStatus c"
  "isMarkedForRebuild (after_check c) = isMarkedForRebuild c" "conn_wf (after_check c) = conn_wf c"
  by (simp_all add: after_check_def isMarkedForRebuild_def conn_wf_def)

lemma fail_checks_counts:
  assumes "c_config c = Some cfg"
  shows "c_consecutiveFailures (fail_checks t e n c) = c_consecutiveFailures c + int n
    \<and> c_config (fail_checks t e n c) = Some cfg"
  using assms
  by (induction n) (simp_all add: fail_checks_def recordHealthCheck_failure)

lemma fail_checks_wf: "conn_wf c \<Longrightarrow> conn_wf (fail_checks t e n c)"
  by (induction n) (simp_all add: fail_checks_def conn_apply_wf del: conn_apply.simps)

lemma fail_checks_Suc:
  assumes "c_config c = Some cfg"
  shows "fail_checks t e (Suc n) c = after_check (recordFailure cfg
     ((fail_checks t e n c)\<lparr>c_lastHealthCheck := t,
       c_consecutiveFailures := c_consecutiveFailures c + int n + 1\<rparr>))"
proof -
  have "fail_checks t e (Suc n) c = conn_apply (OpRecordHealth t False e) (fail_checks t e n c)"
    by (simp add: fail_checks_def)
  with fail_checks_counts [OF assms, of t e n] show ?thesis
    by (simp add: recordHealthCheck_failure)
qed

text \<open>Health status by consecutive failures: after a success (no failures counted), n more
  failing checks leave the status unhealthy from the unhealthy threshold on, degraded from the
  degraded threshold on, and healthy below; reaching the unhealthy threshold with the rebuild
  trigger enabled leaves the connection marked for rebuild; one further success resets the
  count and the status, and keeps the mark.\<close>

theorem health_by_failures:
  assumes cfg: "c_config c = Some cfg" and zero: "c_consecutiveFailures c = 0" and wf: "conn_wf c"
    and n: "0 < n"
  shows "c_healthStatus (fail_checks t e n c) =
      (if int n \<ge> UnhealthyFailureThreshold cfg then HealthStatusUnhealthy
       else if int n \<ge> DegradedFailureThreshold cfg then HealthStatusDegraded
       else HealthStatusHealthy)
    \<and> (int n \<ge> UnhealthyFailureThreshold cfg \<and> HealthCheckTriggerRebuild cfg
        \<longrightarrow> isMarkedForRebuild (fail_checks t e n c))
    \<and> recordHealthCheck t' True None (fail_checks t e n c) = Some (after_check
        ((fail_checks t e n c)\<lparr>c_lastHealthCheck := t', c_consecutiveFailures := 0,
          c_healthStatus := HealthStatusHealthy\<rparr>))"
proof -
  obtain m where m: "n = Suc m" using n by (cases n) auto
  have "c_markedForRebuild (fail_checks t e m c) \<in> {0, 1}"
    using fail_checks_wf [OF wf] by (simp add: conn_wf_def)
  then show ?thesis
    unfolding m fail_checks_Suc [OF cfg] zero
    by (auto simp: recordHealthCheck_success isMarkedForRebuild_def simp del: recordFailure_fields(4))
       (auto simp: recordFailure_def markForRebuildWithReasonLocked_def setHealthLocked_def
         Let_def after_check_def)
qed

theorem health_by_failures_witness:
  "c_healthStatus (fail_checks 9 None 3 sample_conn) = HealthStatusUnhealthy
   \<and> isMarkedForRebuild (fail_checks 9 None 3 sample_conn)"
proof -
  have "conn_wf sample_conn" by (simp add: conn_wf_def sample_conn_def)
  with health_by_failures [of sample_conn NewConfigBuilder 3 9 None 10]
  show ?thesis by (simp add: sample_conn_def NewConfigBuilder_def)
qed

text \<open>The rebuild mark is taken once: of any number of attempts to mark an unmarked
  connection the first succeeds, its reason stays, and every later attempt reports failure.\<close>

theorem mark_once:
  assumes "c_markedForRebuild c = 0"
  shows "fst (markForRebuildWithReason r c)
    \<and> c_rebuildReason (conn_run (map OpMark (r # rs)) c) = r
    \<and> \<not> fst (markForRebuildWithReason r' (conn_run (map OpMark (r # rs)) c))"
proof -
  have "c_markedForRebuild d = 1 \<Longrightarrow> conn_run (map OpMark rs) d = d" for d
    by (induction rs) (simp_all add: conn_simps)
  with assms show ?thesis by (simp add: conn_simps)
qed

theorem mark_once_witness:
  "c_rebuildReason (conn_run (map OpMark [''age'', ''usage'']) sample_conn) = ''age''"
  using mark_once [of sample_conn "''age''" "[''usage'']"] by (simp add: sample_conn_def)

end
