(* ===== verification/Rebuild_Manager.thy ===== *)
theory Rebuild_Manager
  imports Pooled_Conn
begin

text \<open>
  The smart-rebuild decision: \<open>connection/rebuild_manager.go\<close>. Every evaluation returns the
  Go result (marked, reason), the connection after it, and the events the manager sends
  (each \<open>EventRebuildMarked\<close> comes with one increment of the marked and of the
  needing-rebuild metric). Reasons are the formatted strings of the code.
\<close>

datatype rebuild_event = RebuildMarked Protocol string string
  | RebuildStarted Protocol string
  | RebuildCompleted Protocol string bool

type_synonym evaluation = "(bool \<times> string) \<times> pconn \<times> rebuild_event list"

section \<open>Checks\<close>

definition checkRebuildEnabled :: "config \<Rightarrow> bool" where
  "checkRebuildEnabled cfg = SmartRebuildEnabled cfg"

definition checkRebuildInterval :: "config \<Rightarrow> pconn \<Rightarrow> gtime \<Rightarrow> bool" where
  "checkRebuildInterval cfg c now =
     (let start = (if c_lastRebuiltAt c \<noteq> 0 then c_lastRebuiltAt c else c_createdAt c)
      in \<not> time_sub now start < RebuildMinInterval cfg)"

definition checkConnectionState :: "pconn \<Rightarrow> bool" where
  "checkConnectionState c = (let (state, _) = getStatus c in
     \<not> (\<not> isIdle c \<or> c_rebuilding c \<or> state = StateClosing \<or> state = StateClosed))"

definition checkRebuildMark :: "pconn \<Rightarrow> bool" where
  "checkRebuildMark c = isMarkedForRebuild c"

section \<open>Strategies\<close>

text \<open>
  The block every strategy ends in: try to take the mark; on success report it, on a lost
  race answer \<open>already_marked_by_other\<close>.
\<close>

definition mark_and_report :: "string \<Rightarrow> pconn \<Rightarrow> evaluation" where
  "mark_and_report reason c = (case markForRebuildWithReason reason c of
     (True, c') \<Rightarrow> ((True, reason), c', [RebuildMarked (c_protocol c) (c_id c) reason])
   | (False, c') \<Rightarrow> ((False, ''already_marked_by_other''), c', []))"

definition usage_reason :: "config \<Rightarrow> pconn \<Rightarrow> string" where
  "usage_reason cfg c = ''usage_count_exceeded: usage='' @ Itoa (c_usageCount c)
     @ '', max='' @ Itoa (RebuildMaxUsageCount cfg)"

definition age_reason :: "config \<Rightarrow> gtime \<Rightarrow> pconn \<Rightarrow> string" where
  "age_reason cfg now c = ''age_exceeded: age='' @ Duration_String (time_sub now (c_createdAt c))
     @ '', max='' @ Duration_String (RebuildMaxAge cfg)"

definition error_detail :: "config \<Rightarrow> pconn \<Rightarrow> string" where
  "error_detail cfg c = ''requests='' @ Itoa (c_totalRequests c) @ '', errors=''
     @ Itoa (c_totalErrors c) @ '', rate='' @ fmt_2f (float_div (c_totalErrors c) (c_totalRequests c))
     @ '', max='' @ fmt_2f (RebuildMaxErrorRate cfg)"

definition evaluateUsageAndMark :: "config \<Rightarrow> pconn \<Rightarrow> evaluation" where
  "evaluateUsageAndMark cfg c = (if c_usageCount c \<ge> RebuildMaxUsageCount cfg
     then mark_and_report (usage_reason cfg c) c
     else ((False, ''usage_count_ok: usage='' @ Itoa (c_usageCount c) @ '', max=''
       @ Itoa (RebuildMaxUsageCount cfg)), c, []))"

definition evaluateAgeAndMark :: "config \<Rightarrow> pconn \<Rightarrow> gtime \<Rightarrow> evaluation" where
  "evaluateAgeAndMark cfg c now = (if time_sub now (c_createdAt c) \<ge> RebuildMaxAge cfg
     then mark_and_report (age_reason cfg now c) c
     else ((False, ''age_ok: age='' @ Duration_String (time_sub now (c_createdAt c)) @ '', max=''
       @ Duration_String (RebuildMaxAge cfg)), c, []))"

definition evaluateErrorAndMark :: "config \<Rightarrow> pconn \<Rightarrow> evaluation" where
  "evaluateErrorAndMark cfg c =
     (if c_totalRequests c < RebuildMinRequestsForErrorRate cfg
      then ((False, ''insufficient_requests: requests='' @ Itoa (c_totalRequests c) @ '', min=''
        @ Itoa (RebuildMinRequestsForErrorRate cfg)), c, [])
      else if c_totalRequests c > 0 then
        (if float_div (c_totalErrors c) (c_totalRequests c) \<ge> RebuildMaxErrorRate cfg
         then mark_and_report (''error_rate_exceeded: '' @ error_detail cfg c) c
         else ((False, ''error_rate_ok: '' @ error_detail cfg c), c, []))
      else ((False, ''no_requests''), c, []))"

text \<open>The three conditions as the \<open>all\<close> and \<open>any\<close> strategies test them.\<close>

definition usage_hit :: "config \<Rightarrow> pconn \<Rightarrow> bool" where
  "usage_hit cfg c = (c_usageCount c \<ge> RebuildMaxUsageCount cfg)"

definition age_hit :: "config \<Rightarrow> gtime \<Rightarrow> pconn \<Rightarrow> bool" where
  "age_hit cfg now c = (time_sub now (c_createdAt c) \<ge> RebuildMaxAge cfg)"

definition error_hit :: "config \<Rightarrow> pconn \<Rightarrow> bool" where
  "error_hit cfg c = (c_totalRequests c \<ge> RebuildMinRequestsForErrorRate cfg
     \<and> c_totalRequests c > 0
     \<and> float_div (c_totalErrors c) (c_totalRequests c) \<ge> RebuildMaxErrorRate cfg)"

definition evaluateAllAndMark :: "config \<Rightarrow> pconn \<Rightarrow> gtime \<Rightarrow> evaluation" where
  "evaluateAllAndMark cfg c now =
     (let reasons =
        (if usage_hit cfg c then [''usage='' @ Itoa (c_usageCount c) @ ''>=''
           @ Itoa (RebuildMaxUsageCount cfg)] else [])
        @ (if age_hit cfg now c then [''age='' @ Duration_String (time_sub now (c_createdAt c))
           @ ''>='' @ Duration_String (RebuildMaxAge cfg)] else [])
        @ (if error_hit cfg c then [''error_rate=''
           @ fmt_2f (float_div (c_totalErrors c) (c_totalRequests c)) @ ''>=''
           @ fmt_2f (RebuildMaxErrorRate cfg)] else []);
        conditions = length reasons
      in if conditions = 3
         then mark_and_report (''all_conditions_met: '' @ Join reasons '', '') c
         else ((False, ''not_all_conditions: conditions='' @ Itoa (int conditions) @ ''/3, ''
           @ Join reasons '', ''), c, []))"

definition evaluateAnyAndMark :: "config \<Rightarrow> pconn \<Rightarrow> gtime \<Rightarrow> evaluation" where
  "evaluateAnyAndMark cfg c now =
     (if usage_hit cfg c then mark_and_report (usage_reason cfg c) c
      else if age_hit cfg now c then mark_and_report (age_reason cfg now c) c
      else if error_hit cfg c then mark_and_report (''error_rate_exceeded: '' @ error_detail cfg c) c
      else ((False, ''no_conditions_met''), c, []))"

definition evaluateByStrategyAndMark :: "config \<Rightarrow> pconn \<Rightarrow> gtime \<Rightarrow> evaluation" where
  "evaluateByStrategyAndMark cfg c now =
     (if CfgRebuildStrategy cfg = ''usage'' then evaluateUsageAndMark cfg c
      else if CfgRebuildStrategy cfg = ''age'' then evaluateAgeAndMark cfg c now
      else if CfgRebuildStrategy cfg = ''error'' then evaluateErrorAndMark cfg c
      else if CfgRebuildStrategy cfg = ''all'' then evaluateAllAndMark cfg c now
      else evaluateAnyAndMark cfg c now)"

section \<open>Entry points\<close>

definition EvaluateAndMark :: "config \<Rightarrow> gtime \<Rightarrow> pconn \<Rightarrow> evaluation" where
  "EvaluateAndMark cfg now c =
     (if isMarkedForRebuild c then ((False, c_rebuildReason c), c, [])
      else if \<not> checkRebuildEnabled cfg then ((False, ''rebuild_disabled''), c, [])
      else if \<not> checkRebuildInterval cfg c now then ((False, ''interval_too_short''), c, [])
      else if \<not> checkConnectionState c then ((False, ''invalid_state''), c, [])
      else evaluateByStrategyAndMark cfg c now)"

definition ShouldRebuild :: "config \<Rightarrow> gtime \<Rightarrow> pconn \<Rightarrow> bool \<times> pconn \<times> rebuild_event list" where
  "ShouldRebuild cfg now c =
     (if isMarkedForRebuild c then (True, c, [])
      else case EvaluateAndMark cfg now c of ((marked, _), c', evs) \<Rightarrow> (marked, c', evs))"

definition GetRebuildReason :: "config \<Rightarrow> gtime \<Rightarrow> pconn \<Rightarrow> string" where
  "GetRebuildReason cfg now c =
     (let usage = c_usageCount c; age = time_sub now (c_createdAt c);
          req = c_totalRequests c; errs = c_totalErrors c; mx = RebuildMaxErrorRate cfg in
      if usage \<ge> RebuildMaxUsageCount cfg
      then ''usage_exceeded('' @ Itoa usage @ ''>='' @ Itoa (RebuildMaxUsageCount cfg) @ '')''
      else if age \<ge> RebuildMaxAge cfg
      then ''age_exceeded('' @ Duration_String age @ ''>='' @ Duration_String (RebuildMaxAge cfg) @ '')''
      else if req \<ge> RebuildMinRequestsForErrorRate cfg \<and> req > 0 \<and> float_div errs req \<ge> mx
      then ''error_rate_exceeded('' @ fmt_2f (float_div errs req) @ ''>='' @ fmt_2f mx @ '')''
      else let reasons =
          (if usage \<ge> RebuildMaxUsageCount cfg then [''usage('' @ Itoa usage @ '')''] else [])
          @ (if age \<ge> RebuildMaxAge cfg then [''age('' @ Duration_String age @ '')''] else [])
          @ (if req \<ge> RebuildMinRequestsForErrorRate cfg \<and> float_div_ge errs req mx
             then [''error_rate('' @ fmt_2f (float_div errs req) @ '')''] else [])
        in if reasons \<noteq> [] then Join reasons ''|'' else [])"

section \<open>Lemmas\<close>

lemma mark_and_report_unmarked:
  "c_markedForRebuild c = 0 \<Longrightarrow> mark_and_report r c =
     ((True, r), c\<lparr>c_markedForRebuild := 1, c_rebuildReason := r\<rparr>,
      [RebuildMarked (c_protocol c) (c_id c) r])"
  by (simp add: mark_and_report_def markForRebuildWithReason_def)

text \<open>The condition a strategy stands for.\<close>

definition strategy_hit :: "config \<Rightarrow> gtime \<Rightarrow> pconn \<Rightarrow> bool" where
  "strategy_hit cfg now c =
     (if CfgRebuildStrategy cfg = ''usage'' then usage_hit cfg c
      else if CfgRebuildStrategy cfg = ''age'' then age_hit cfg now c
      else if CfgRebuildStrategy cfg = ''error'' then error_hit cfg c
      else if CfgRebuildStrategy cfg = ''all''
        then usage_hit cfg c \<and> age_hit cfg now c \<and> error_hit cfg c
      else usage_hit cfg c \<or> age_hit cfg now c \<or> error_hit cfg c)"

lemmas evaluate_defs = evaluateUsageAndMark_def evaluateAgeAndMark_def evaluateErrorAndMark_def
  evaluateAllAndMark_def evaluateAnyAndMark_def evaluateByStrategyAndMark_def

lemma evaluate_hit:
  assumes "c_markedForRebuild c = 0" "strategy_hit cfg now c"
  shows "\<exists>r. evaluateByStrategyAndMark cfg c now = mark_and_report r c"
  using assms
  by (auto simp: evaluate_defs strategy_hit_def usage_hit_def age_hit_def error_hit_def Let_def)

lemma evaluate_miss:
  assumes "\<not> strategy_hit cfg now c"
  shows "\<exists>r. evaluateByStrategyAndMark cfg c now = ((False, r), c, [])"
  using assms
  by (auto simp: evaluate_defs strategy_hit_def usage_hit_def age_hit_def error_hit_def Let_def
      split: if_splits)

lemma EvaluateAndMark_cases:
  assumes "c_markedForRebuild c \<in> {0, 1}"
  obtains (marks) r where "c_markedForRebuild c = 0" "SmartRebuildEnabled cfg"
      "checkRebuildInterval cfg c now" "checkConnectionState c" "strategy_hit cfg now c"
      "EvaluateAndMark cfg now c = ((True, r), c\<lparr>c_markedForRebuild := 1, c_rebuildReason := r\<rparr>,
        [RebuildMarked (c_protocol c) (c_id c) r])"
  | (leaves) r where "\<not> (c_markedForRebuild c = 0 \<and> SmartRebuildEnabled cfg
        \<and> checkRebuildInterval cfg c now \<and> checkConnectionState c \<and> strategy_hit cfg now c)"
      "EvaluateAndMark cfg now c = ((False, r), c, [])"
proof (cases "c_markedForRebuild c = 0 \<and> SmartRebuildEnabled cfg
    \<and> checkRebuildInterval cfg c now \<and> checkConnectionState c \<and> strategy_hit cfg now c")
  case True
  then obtain r where "evaluateByStrategyAndMark cfg c now = mark_and_report r c"
    using evaluate_hit by blast
  with True show thesis
    by (intro marks [of r]) (simp_all add: EvaluateAndMark_def isMarkedForRebuild_def
        checkRebuildEnabled_def mark_and_report_unmarked)
next
  case False
  then have "\<exists>r. EvaluateAndMark cfg now c = ((False, r), c, [])"
    using assms evaluate_miss [of cfg now c]
    by (auto simp: EvaluateAndMark_def isMarkedForRebuild_def checkRebuildEnabled_def)
  with False leaves show thesis by blast
qed

section \<open>Properties\<close>


definition old_conn :: pconn where
  "old_conn = sample_conn\<lparr>c_usageCount := 250\<rparr>"


text \<open>The answer of \<open>ShouldRebuild\<close> and the mark it leaves behind agree, and asking again
  at any later instant gives the same answer once it was yes.\<close>

theorem shouldRebuild_agrees_with_mark:
  assumes "conn_wf c"
  shows "fst (ShouldRebuild cfg now c) = isMarkedForRebuild (fst (snd (ShouldRebuild cfg now c)))
    \<and> (fst (ShouldRebuild cfg now c)
        \<longrightarrow> ShouldRebuild cfg later (fst (snd (ShouldRebuild cfg now c)))
          = (True, fst (snd (ShouldRebuild cfg now c)), []))"
proof -
  have m: "c_markedForRebuild c \<in> {0, 1}" using assms by (simp add: conn_wf_def)
  show ?thesis
    by (cases rule: EvaluateAndMark_cases [OF m, of cfg now])
      (auto simp: ShouldRebuild_def isMarkedForRebuild_def)
qed

theorem shouldRebuild_agrees_with_mark_witness:
  "fst (ShouldRebuild NewConfigBuilder 7 (sample_conn\<lparr>c_markedForRebuild := 1\<rparr>))
   \<and> ShouldRebuild NewConfigBuilder 8 (sample_conn\<lparr>c_markedForRebuild := 1\<rparr>)
     = (True, sample_conn\<lparr>c_markedForRebuild := 1\<rparr>, [])"
proof -
  let ?c = "sample_conn\<lparr>c_markedForRebuild := 1\<rparr>"
  have "conn_wf ?c" by (simp add: conn_wf_def sample_conn_def)
  from shouldRebuild_agrees_with_mark [OF this, of NewConfigBuilder 7 8]
  show ?thesis by (simp add: ShouldRebuild_def isMarkedForRebuild_def)
qed

text \<open>The reported rebuild reason is empty exactly when none of the three conditions holds:
  the final listing of reasons in \<open>GetRebuildReason\<close> contributes nothing beyond the first
  three tests.\<close>

theorem rebuild_reason_empty_iff:
  assumes "conn_wf c"
  shows "GetRebuildReason cfg now c = [] \<longleftrightarrow>
    \<not> usage_hit cfg c \<and> \<not> age_hit cfg now c \<and> \<not> error_hit cfg c"
  using assms
  by (auto simp: GetRebuildReason_def Let_def usage_hit_def age_hit_def error_hit_def conn_wf_def
      float_div_ge_def)

theorem rebuild_reason_empty_iff_witness:
  "GetRebuildReason NewConfigBuilder 5 sample_conn = []"
proof -
  have "conn_wf sample_conn" by (simp add: conn_wf_def sample_conn_def)
  from rebuild_reason_empty_iff [OF this, of NewConfigBuilder 5] show ?thesis
    by (simp add: usage_hit_def age_hit_def error_hit_def sample_conn_def NewConfigBuilder_def
        time_sub_def)
qed

end
