(* ===== verification/Conn_Pool.thy ===== *)
theory Conn_Pool
  imports Rebuild_Manager "HOL-Library.AList"
begin

text \<open>
  The connection pool (\<open>connection/pool_enhanced.go\<close>): one driver pool with its map of
  connections, and the goroutines that work on it: clients that get, use and release a
  connection, health checks, rebuilds, the cleaner, warm-ups, the metrics task and \<open>Close\<close>.
  Connections are objects that goroutines share by reference, also after they have left the map;
  a reference is an index into the list of objects, and the driver of object \<open>r\<close> is the handle
  \<open>r\<close>. One step is what a goroutine does under a lock, in an atomic instruction or in a call of
  the driver, so goroutines interleave at every point where the code releases its locks.
\<close>

section \<open>State\<close>

record DriverPoolStats =
  st_TotalConnections :: int
  st_ActiveConnections :: int
  st_IdleConnections :: int
  st_CreatedConnections :: int
  st_DestroyedConnections :: int
  st_ReuseCount :: int

text \<open>\<open>dp_closed\<close> lists the drivers whose \<open>Close\<close> was called. The pool keeps a copy of its
  configuration, which holds the limits (\<open>maxConnections\<close>, \<open>idleTimeout\<close>).\<close>

record EnhancedDriverPool =
  dp_config :: config
  dp_protocol :: Protocol
  dp_connections :: "(string \<times> nat) list"
  dp_stats :: DriverPoolStats
  dp_objects :: "pconn list"
  dp_closed :: "nat list"
  dp_isShuttingDown :: bool

type_synonym dpool = EnhancedDriverPool

definition NewDriverPool :: "config \<Rightarrow> dpool" where
  "NewDriverPool cfg = \<lparr>dp_config = cfg, dp_protocol = CfgProtocol cfg, dp_connections = [],
     dp_stats = \<lparr>st_TotalConnections = 0, st_ActiveConnections = 0, st_IdleConnections = 0,
       st_CreatedConnections = 0, st_DestroyedConnections = 0, st_ReuseCount = 0\<rparr>,
     dp_objects = [], dp_closed = [], dp_isShuttingDown = False\<rparr>"

abbreviation obj :: "dpool \<Rightarrow> nat \<Rightarrow> pconn" where
  "obj p r \<equiv> dp_objects p ! r"

definition upd_obj :: "nat \<Rightarrow> (pconn \<Rightarrow> pconn) \<Rightarrow> dpool \<Rightarrow> dpool" where
  "upd_obj r f p = p\<lparr>dp_objects := (dp_objects p)[r := f (obj p r)]\<rparr>"

definition count_active :: "int \<Rightarrow> dpool \<Rightarrow> dpool" where
  "count_active d p = p\<lparr>dp_stats := (dp_stats p)\<lparr>
     st_ActiveConnections := st_ActiveConnections (dp_stats p) + d,
     st_IdleConnections := st_IdleConnections (dp_stats p) - d\<rparr>\<rparr>"

definition close_driver :: "nat \<Rightarrow> dpool \<Rightarrow> dpool" where
  "close_driver r p = (case c_driver (obj p r) of
     None \<Rightarrow> p | Some d \<Rightarrow> p\<lparr>dp_closed := d # dp_closed p\<rparr>)"

section \<open>Getting a connection\<close>

text \<open>\<open>tryGetAvailableConnection\<close>: the attempt on one connection and the statistics after it.\<close>

definition try_available :: "gtime \<Rightarrow> nat \<Rightarrow> dpool \<Rightarrow> bool \<times> dpool" where
  "try_available now r p = (case tryAcquireForTask now (obj p r) of
     (ok, c) \<Rightarrow> (ok, upd_obj r (\<lambda>_. c) p))"

text \<open>\<open>createConnection\<close>, once the factory has returned a driver at instant \<open>now\<close>.\<close>

definition connection_id :: "config \<Rightarrow> Protocol \<Rightarrow> gtime \<Rightarrow> string" where
  "connection_id cfg proto now = Host cfg @ ''|'' @ proto @ ''|'' @ Itoa now"

definition createConnection :: "gtime \<Rightarrow> dpool \<Rightarrow> nat \<times> dpool" where
  "createConnection now p = (let r = length (dp_objects p) in
     (r, p\<lparr>dp_objects := dp_objects p @ [\<lparr>c_driver = Some r,
        c_id = connection_id (dp_config p) (dp_protocol p) now, c_protocol = dp_protocol p,
        c_createdAt = now, c_lastUsed = now, c_usageCount = 0, c_state = StateIdle,
        c_rebuilding = False, c_lastRebuiltAt = 0, c_markedForRebuild = 0, c_rebuildReason = [],
        c_healthStatus = HealthStatusUnknown, c_lastHealthCheck = 0, c_consecutiveFailures = 0,
        c_avgResponseTime = 0, c_totalRequests = 0, c_totalErrors = 0, c_usingCount = 0,
        c_config = Some (dp_config p), c_labels = Labels (dp_config p)\<rparr>]\<rparr>))"

definition createReplacementConnection :: "gtime \<Rightarrow> dpool \<Rightarrow> nat \<times> dpool" where
  "createReplacementConnection now p = (case createConnection now p of
     (r, p1) \<Rightarrow> (r, upd_obj r (setLastRebuiltAt now) p1))"

definition add_connection :: "nat \<Rightarrow> dpool \<Rightarrow> dpool" where
  "add_connection r p = p\<lparr>dp_connections := AList.update (c_id (obj p r)) r (dp_connections p),
     dp_stats := (dp_stats p)\<lparr>st_CreatedConnections := st_CreatedConnections (dp_stats p) + 1,
       st_IdleConnections := st_IdleConnections (dp_stats p) + 1\<rparr>\<rparr>"

definition pool_full :: "dpool \<Rightarrow> bool" where
  "pool_full p \<longleftrightarrow> int (length (dp_connections p)) \<ge> MaxConnections (dp_config p)"

text \<open>The critical section of \<open>tryCreateNewConnection\<close> after the dial. \<open>None\<close> is its error,
  \<open>Some False\<close> its \<open>nil, nil\<close>.\<close>

definition insert_new :: "gtime \<Rightarrow> nat \<Rightarrow> dpool \<Rightarrow> bool option \<times> dpool" where
  "insert_new now r p =
    (if pool_full p then (Some False, close_driver r p)
     else if \<exists>(k, x) \<in> set (dp_connections p). c_id (obj p x) = c_id (obj p r)
       then (Some False, close_driver r p)
     else case try_available now r (add_connection r p) of
         (True, p1) \<Rightarrow> (Some True, count_active 1 p1)
       | (False, p1) \<Rightarrow> (None, p1))"

text \<open>\<open>activateConnection\<close> counts the connection as active again.\<close>

definition activateConnection :: "dpool \<Rightarrow> dpool" where
  "activateConnection p = (let p1 = count_active 1 p in p1\<lparr>dp_stats := (dp_stats p1)\<lparr>
     st_ReuseCount := st_ReuseCount (dp_stats p1) + 1\<rparr>\<rparr>)"

section \<open>Using and releasing it\<close>

text \<open>\<open>RoundRobinBalancer.UpdateConnectionMetrics\<close>, with Go's truncating division.\<close>

definition UpdateConnectionMetrics :: "duration \<Rightarrow> bool \<Rightarrow> pconn \<Rightarrow> pconn" where
  "UpdateConnectionMetrics d success c =
    (let c1 = c\<lparr>c_totalRequests := c_totalRequests c + 1\<rparr>;
         c2 = (if \<not> success then c1\<lparr>c_totalErrors := c_totalErrors c1 + 1\<rparr> else c1);
         n = c_totalRequests c2; s = c_avgResponseTime c2 * (n - 1) + d
     in if n > 0 then c2\<lparr>c_avgResponseTime := sgn s * (\<bar>s\<bar> div n)\<rparr> else c2)"

definition Release :: "gtime \<Rightarrow> gtime \<Rightarrow> bool \<Rightarrow> nat \<Rightarrow> dpool \<Rightarrow> dpool" where
  "Release now startTime success r p =
     count_active (- 1) (upd_obj r (\<lambda>c. UpdateConnectionMetrics (time_sub now startTime) success (release now c)) p)"

text \<open>\<open>MonitoredDriver.Execute\<close>: the state it enters (and whether it will restore it), then the
  counters after the driver returned.\<close>

definition execute_enter :: "nat \<Rightarrow> dpool \<Rightarrow> bool \<times> dpool" where
  "execute_enter r p = (if c_state (obj p r) = StateAcquired
     then case transitionState StateExecuting (obj p r) of (ok, c) \<Rightarrow> (ok, upd_obj r (\<lambda>_. c) p)
     else (False, p))"

definition count_request :: "bool \<Rightarrow> pconn \<Rightarrow> pconn" where
  "count_request success c = (let c1 = c\<lparr>c_totalRequests := c_totalRequests c + 1\<rparr>
     in if \<not> success then c1\<lparr>c_totalErrors := c_totalErrors c1 + 1\<rparr> else c1)"

text \<open>\<open>checkConnectionHealthWithContext\<close>: connections younger than 15 seconds are not checked.\<close>

definition check_begin :: "gtime \<Rightarrow> nat \<Rightarrow> dpool \<Rightarrow> bool \<times> dpool" where
  "check_begin now r p = (if time_sub now (c_createdAt (obj p r)) < 15 * Second then (False, p)
     else case beginHealthCheck (obj p r) of (ok, c) \<Rightarrow> (ok, upd_obj r (\<lambda>_. c) p))"

definition check_record :: "gtime \<Rightarrow> string option \<Rightarrow> nat \<Rightarrow> dpool \<Rightarrow> dpool option" where
  "check_record now checkErr r p = (case recordHealthCheck now (checkErr = None) checkErr (obj p r) of
     None \<Rightarrow> None | Some c \<Rightarrow> Some (upd_obj r (\<lambda>_. c) p))"

section \<open>Rebuilding\<close>

definition findConnectionByID :: "string \<Rightarrow> dpool \<Rightarrow> nat option" where
  "findConnectionByID connID p =
     find_first (\<lambda>r. c_id (obj p r) = connID) (map snd (dp_connections p))"

text \<open>Stage 2 of \<open>performCoreRebuild\<close>.\<close>

definition rebuild_begin :: "nat \<Rightarrow> dpool \<Rightarrow> bool \<times> dpool" where
  "rebuild_begin r p = (case beginRebuild (obj p r) of (ok, c) \<Rightarrow> (ok, upd_obj r (\<lambda>_. c) p))"

text \<open>Stage 3.1: closing goes on when it succeeds or someone else is closing.\<close>

definition rebuild_close :: "nat \<Rightarrow> dpool \<Rightarrow> bool \<times> dpool" where
  "rebuild_close r p = (case beginClose (obj p r) of (ok, c) \<Rightarrow>
     (ok \<or> c_state c \<in> {StateClosed, StateClosing}, upd_obj r (\<lambda>_. c) p))"

definition rebuild_driver :: "nat \<Rightarrow> dpool \<Rightarrow> dpool" where
  "rebuild_driver r p = upd_obj r (\<lambda>c. c\<lparr>c_driver := None\<rparr>) (close_driver r p)"

definition rebuild_remove :: "nat \<Rightarrow> dpool \<Rightarrow> dpool" where
  "rebuild_remove r p = p\<lparr>dp_connections := AList.delete (c_id (obj p r)) (dp_connections p),
     dp_stats := (dp_stats p)\<lparr>st_IdleConnections := st_IdleConnections (dp_stats p) - 1\<rparr>\<rparr>"

section \<open>Cleaning up\<close>

definition or_default :: "duration \<Rightarrow> duration \<Rightarrow> duration" where
  "or_default d def = (if d = 0 then def else d)"

definition stuck_timeout :: "config \<Rightarrow> ConnectionState \<Rightarrow> duration" where
  "stuck_timeout cfg s = (case s of
     StateClosing \<Rightarrow> or_default (StuckTimeoutClosing cfg) (1 * Minute)
   | StateConnecting \<Rightarrow> or_default (StuckTimeoutConnecting cfg) (30 * Second)
   | StateAcquired \<Rightarrow> or_default (StuckTimeoutAcquired cfg) (10 * Minute)
   | StateExecuting \<Rightarrow> or_default (StuckTimeoutExecuting cfg) (10 * Minute)
   | StateChecking \<Rightarrow> or_default (StuckTimeoutChecking cfg) (2 * Minute)
   | _ \<Rightarrow> 6 * Minute)"

definition shouldCleanupConnection :: "config \<Rightarrow> pconn \<Rightarrow> gtime \<Rightarrow> bool" where
  "shouldCleanupConnection cfg c now =
    (if c_usingCount c > 0 then False
     else let (state, health) = getStatus c; idleTime = time_sub now (c_lastUsed c) in
       if health = HealthStatusUnhealthy then True
       else if state \<noteq> StateIdle then
         (if state = StateClosed then True else idleTime > stuck_timeout cfg state)
       else if c_rebuilding c then
         idleTime > or_default (StuckTimeoutRebuildIdle cfg) (2 * Minute)
       else idleTime > MaxIdleTime cfg)"

definition cleanup_delete :: "string \<Rightarrow> ConnectionState \<Rightarrow> dpool \<Rightarrow> bool \<times> dpool" where
  "cleanup_delete k connState p =
    (if map_of (dp_connections p) k = None then (False, p)
     else let s = dp_stats p;
         s1 = (if connState = StateIdle
           then if st_IdleConnections s > 0 then s\<lparr>st_IdleConnections := st_IdleConnections s - 1\<rparr> else s
           else if st_ActiveConnections s > 0 then s\<lparr>st_ActiveConnections := st_ActiveConnections s - 1\<rparr> else s)
       in (True, p\<lparr>dp_connections := AList.delete k (dp_connections p), dp_stats := s1\<rparr>))"

definition count_destroyed :: "dpool \<Rightarrow> dpool" where
  "count_destroyed p = p\<lparr>dp_stats := (dp_stats p)\<lparr>
     st_DestroyedConnections := st_DestroyedConnections (dp_stats p) + 1\<rparr>\<rparr>"

definition updateMetrics :: "dpool \<Rightarrow> dpool" where
  "updateMetrics p = (let rs = map snd (dp_connections p);
       idle = int (length (filter (\<lambda>r. isIdle (obj p r)) rs)); total = int (length rs)
     in p\<lparr>dp_stats := (dp_stats p)\<lparr>st_TotalConnections := total,
          st_ActiveConnections := total - idle, st_IdleConnections := idle\<rparr>\<rparr>)"

section \<open>Closing the pool\<close>

definition getActiveConnectionCount :: "dpool \<Rightarrow> nat" where
  "getActiveConnectionCount p =
     length (filter (\<lambda>r. fst (getState (obj p r))) (map snd (dp_connections p)))"

text \<open>The critical section of \<open>Close\<close>: connections in use are released, the map is emptied.\<close>

definition close_drain :: "gtime \<Rightarrow> dpool \<Rightarrow> nat list \<times> dpool" where
  "close_drain now p = (let rs = map snd (dp_connections p) in
     (rs, (fold (\<lambda>r. upd_obj r (\<lambda>c. if fst (getState c) then release now c else c)) rs p)
       \<lparr>dp_connections := []\<rparr>))"

text \<open>One closing goroutine: a connection still in use after the wait of \<open>safeClose\<close> stays open.\<close>

definition close_one :: "nat \<Rightarrow> dpool \<Rightarrow> dpool" where
  "close_one r p = (let p1 = upd_obj r (setHealth HealthStatusUnhealthy False) p; c = obj p1 r in
     case safeClose (c_usingCount (acquireUse c)) None c of
       None \<Rightarrow> p1
     | Some (err, b) \<Rightarrow> count_destroyed (if b then close_driver r p1 else p1))"

section \<open>Goroutines\<close>

text \<open>
  The points at which a goroutine can be interrupted. In the order of the code:
  \<^item> \<open>Get\<close>: collect the ids (\<open>Snapshot\<close>), look one up (\<open>Scan\<close>), try it (\<open>Try\<close>), count it
    (\<open>Took\<close>); check the size (\<open>Room\<close>), dial (\<open>Dial\<close>), insert (\<open>Dialled\<close>), wait for the next of
    three attempts (\<open>Pause\<close>), activate (\<open>Got\<close>); after an error the retrier of the pool tries
    again or gives up (\<open>Failed\<close>).
  \<^item> A client with a connection (\<open>Hold\<close>, with whether the last call succeeded) executes
    (\<open>Using\<close>, \<open>Running\<close>, \<open>Ran\<close>, \<open>Unused\<close>), checks it (\<open>Probing\<close>) or releases it.
  \<^item> A rebuild: the two quick checks (\<open>RIdle\<close>, \<open>RUse\<close>) and the stages of \<open>performCoreRebuild\<close>.
  \<^item> The cleaner: \<open>CSnapshot\<close>, \<open>CSweep\<close>, \<open>CJudge\<close>, \<open>CDelete\<close>, and one \<open>CForce\<close> goroutine per
    connection removed. A warm-up goroutine: \<open>WDial\<close> (up to three attempts) and \<open>WInsert\<close>.
    \<open>Close\<close>: \<open>XDrain\<close> and \<open>XClose\<close>.
\<close>

datatype get_pc = Snapshot nat | Scan nat "string list" | Try nat nat "string list" | Took nat
  | Room nat | Dial nat | Dialled nat nat | Pause nat | Got nat | Failed

datatype use_pc = Hold bool | Using | Running bool | Ran bool bool | Unused bool | Probing bool

datatype rebuild_pc = RIdle | RUse | RBegin | RClose | RDriver | RRemove | RClosed | RDial
  | RInsert nat | RFinish bool

datatype task_pc = CSnapshot gtime | CSweep gtime "string list" | CJudge gtime string nat "string list"
  | CDelete gtime string nat ConnectionState "string list" | CForce nat
  | WDial nat | WInsert nat | XDrain | XClose "nat list"

text \<open>\<open>Client r t0 u\<close> uses connection \<open>r\<close> since \<open>t0\<close>; \<open>Rebuild r q\<close> rebuilds connection \<open>r\<close>.\<close>

datatype ppc = Outside | Getting get_pc | Client nat gtime use_pc | Rebuild nat rebuild_pc | Task task_pc

text \<open>What the environment decides in a step: the instant, whether a dial, a driver call or a
  context fails, the order in which a map is ranged over, what a goroutine does next.\<close>

datatype task = TaskGet | TaskExecute | TaskCheck | TaskRelease | TaskRebuild string
  | TaskCleanup | TaskWarmUp | TaskMetrics | TaskClose

record choice =
  ch_now :: gtime
  ch_fails :: bool
  ch_order :: "string list"
  ch_task :: task

type_synonym stepped = "(ppc \<times> ppc list \<times> dpool) option"

abbreviation goto :: "ppc \<Rightarrow> dpool \<Rightarrow> stepped" where
  "goto t p \<equiv> Some (t, [], p)"

definition ranges :: "string list \<Rightarrow> dpool \<Rightarrow> bool" where
  "ranges ks p \<longleftrightarrow> mset ks = mset (map fst (dp_connections p))"

fun get_step :: "choice \<Rightarrow> get_pc \<Rightarrow> dpool \<Rightarrow> stepped" where
  "get_step ch (Snapshot a) p = (if ch_fails ch then goto (Getting Failed) p
     else if ranges (ch_order ch) p then goto (Getting (Scan a (ch_order ch))) p else None)"
| "get_step ch (Scan a []) p = goto (Getting (Room a)) p"
| "get_step ch (Scan a (k # ks)) p = (if ch_fails ch then goto (Getting Failed) p
     else case map_of (dp_connections p) k of
         None \<Rightarrow> goto (Getting (Scan a ks)) p
       | Some r \<Rightarrow> goto (Getting (Try a r ks)) p)"
| "get_step ch (Try a r ks) p = (case try_available (ch_now ch) r p of
     (ok, p1) \<Rightarrow> goto (Getting (if ok then Took r else Scan a ks)) p1)"
| "get_step ch (Took r) p = goto (Getting (Got r)) (count_active 1 p)"
| "get_step ch (Room a) p = goto (Getting (if pool_full p then Pause a else Dial a)) p"
| "get_step ch (Dial a) p = (if ch_fails ch then goto (Getting Failed) p
     else case createConnection (ch_now ch) p of (r, p1) \<Rightarrow> goto (Getting (Dialled a r)) p1)"
| "get_step ch (Dialled a r) p = (case insert_new (ch_now ch) r p of
     (None, p1) \<Rightarrow> goto (Getting Failed) p1
   | (Some ok, p1) \<Rightarrow> goto (Getting (if ok then Got r else Pause a)) p1)"
| "get_step ch (Pause a) p =
     goto (Getting (if a < 2 \<and> \<not> ch_fails ch then Snapshot (Suc a) else Failed)) p"
| "get_step ch (Got r) p = goto (Client r (ch_now ch) (Hold True)) (activateConnection p)"
| "get_step ch Failed p = goto (if ch_fails ch then Outside else Getting (Snapshot 0)) p"

definition hold_step :: "choice \<Rightarrow> nat \<Rightarrow> gtime \<Rightarrow> bool \<Rightarrow> dpool \<Rightarrow> stepped" where
  "hold_step ch r t0 ok p = (case ch_task ch of
     TaskExecute \<Rightarrow> goto (Client r t0 Using) (upd_obj r acquireUse p)
   | TaskCheck \<Rightarrow> (case check_begin (ch_now ch) r p of (b, p1) \<Rightarrow>
        goto (Client r t0 (if b then Probing ok else Hold ok)) p1)
   | TaskRelease \<Rightarrow> goto Outside (Release (ch_now ch) t0 ok r p)
   | _ \<Rightarrow> None)"

fun use_step :: "choice \<Rightarrow> nat \<Rightarrow> gtime \<Rightarrow> use_pc \<Rightarrow> dpool \<Rightarrow> stepped" where
  "use_step ch r t0 (Hold ok) p = hold_step ch r t0 ok p"
| "use_step ch r t0 Using p = (case execute_enter r p of (b, p1) \<Rightarrow> goto (Client r t0 (Running b)) p1)"
| "use_step ch r t0 (Running b) p = goto (Client r t0 (Ran b (\<not> ch_fails ch)))
     (upd_obj r (count_request (\<not> ch_fails ch)) p)"
| "use_step ch r t0 (Ran b ok) p = goto (Client r t0 (Unused ok))
     (if b then upd_obj r (\<lambda>c. snd (transitionState StateAcquired c)) p else p)"
| "use_step ch r t0 (Unused ok) p = goto (Client r t0 (Hold ok)) (upd_obj r releaseUse p)"
| "use_step ch r t0 (Probing ok) p = map_option (\<lambda>p1. (Client r t0 (Hold ok), [], p1))
     (check_record (ch_now ch) (if ch_fails ch then Some ''EOF'' else None) r p)"

text \<open>An early return between \<open>beginRebuild\<close> and the dial leaves \<open>err\<close> nil, so the deferred
  \<open>completeRebuild\<close> counts it as a success.\<close>

fun rebuild_step :: "choice \<Rightarrow> nat \<Rightarrow> rebuild_pc \<Rightarrow> dpool \<Rightarrow> stepped" where
  "rebuild_step ch r RIdle p = goto (if isIdle (obj p r) then Rebuild r RUse else Outside) p"
| "rebuild_step ch r RUse p = goto (if c_usingCount (obj p r) > 0 then Outside else Rebuild r RBegin) p"
| "rebuild_step ch r RBegin p = (case rebuild_begin r p of
     (ok, p1) \<Rightarrow> goto (if ok then Rebuild r RClose else Outside) p1)"
| "rebuild_step ch r RClose p = (case rebuild_close r p of
     (ok, p1) \<Rightarrow> goto (Rebuild r (if ok then RDriver else RFinish True)) p1)"
| "rebuild_step ch r RDriver p = goto (Rebuild r RRemove) (rebuild_driver r p)"
| "rebuild_step ch r RRemove p = goto (Rebuild r RClosed) (rebuild_remove r p)"
| "rebuild_step ch r RClosed p = goto (Rebuild r RDial) (upd_obj r (\<lambda>c. snd (completeClose c)) p)"
| "rebuild_step ch r RDial p = (if ch_fails ch then goto (Rebuild r (RFinish False)) p
     else case createReplacementConnection (ch_now ch) p of
         (r', p1) \<Rightarrow> goto (Rebuild r (RInsert r')) p1)"
| "rebuild_step ch r (RInsert r') p = goto (Rebuild r (RFinish True)) (add_connection r' p)"
| "rebuild_step ch r (RFinish ok) p = goto Outside (upd_obj r (completeRebuild ok) p)"

fun task_step :: "choice \<Rightarrow> task_pc \<Rightarrow> dpool \<Rightarrow> stepped" where
  "task_step ch (CSnapshot now) p = (if ranges (ch_order ch) p
     then goto (Task (CSweep now (ch_order ch))) p else None)"
| "task_step ch (CSweep now []) p = goto Outside p"
| "task_step ch (CSweep now (k # ks)) p = (case map_of (dp_connections p) k of
     None \<Rightarrow> goto (Task (CSweep now ks)) p
   | Some r \<Rightarrow> goto (Task (CJudge now k r ks)) p)"
| "task_step ch (CJudge now k r ks) p = goto
     (Task (if shouldCleanupConnection (dp_config p) (obj p r) now
      then CDelete now k r (fst (getStatus (obj p r))) ks else CSweep now ks)) p"
| "task_step ch (CDelete now k r s ks) p = (case cleanup_delete k s p of
     (removed, p1) \<Rightarrow> Some (Task (CSweep now ks), if removed then [Task (CForce r)] else [], p1))"
| "task_step ch (CForce r) p = goto Outside (count_destroyed
     (if snd (forceClose None (obj p r)) then close_driver r p else p))"
| "task_step ch (WDial a) p = (if ch_fails ch
     then goto (if a < 2 then Task (WDial (Suc a)) else Outside) p
     else case createConnection (ch_now ch) p of (r, p1) \<Rightarrow> goto (Task (WInsert r)) p1)"
| "task_step ch (WInsert r) p = goto Outside (add_connection r p)"
| "task_step ch XDrain p = (case close_drain (ch_now ch) p of (rs, p1) \<Rightarrow> goto (Task (XClose rs)) p1)"
| "task_step ch (XClose []) p = goto Outside p"
| "task_step ch (XClose (r # rs)) p = goto (Task (XClose rs)) (close_one r p)"

definition start_step :: "choice \<Rightarrow> dpool \<Rightarrow> stepped" where
  "start_step ch p = (case ch_task ch of
     TaskGet \<Rightarrow> goto (if dp_isShuttingDown p then Outside else Getting (Snapshot 0)) p
   | TaskRebuild k \<Rightarrow> (case findConnectionByID k p of
       None \<Rightarrow> goto Outside p | Some r \<Rightarrow> goto (Rebuild r RIdle) p)
   | TaskCleanup \<Rightarrow> goto (Task (CSnapshot (ch_now ch))) p
   | TaskWarmUp \<Rightarrow> goto (Task (WDial 0)) p
   | TaskMetrics \<Rightarrow> goto Outside (updateMetrics p)
   | TaskClose \<Rightarrow> goto (Task XDrain) (p\<lparr>dp_isShuttingDown := True\<rparr>)
   | _ \<Rightarrow> None)"

fun local_step :: "choice \<Rightarrow> ppc \<Rightarrow> dpool \<Rightarrow> stepped" where
  "local_step ch Outside p = start_step ch p"
| "local_step ch (Getting g) p = get_step ch g p"
| "local_step ch (Client r t0 u) p = use_step ch r t0 u p"
| "local_step ch (Rebuild r q) p = rebuild_step ch r q p"
| "local_step ch (Task k) p = task_step ch k p"

text \<open>The system: the shared pool and the points of its goroutines. A step moves goroutine \<open>i\<close>.\<close>

type_synonym psys = "dpool \<times> ppc list"

definition pool_step :: "nat \<Rightarrow> choice \<Rightarrow> psys \<Rightarrow> psys option" where
  "pool_step i ch s = (case s of (p, ts) \<Rightarrow>
     if i < length ts then map_option (\<lambda>(t, new, p'). (p', ts[i := t] @ new)) (local_step ch (ts ! i) p)
     else None)"

text \<open>The states reachable with \<open>n\<close> goroutines that only start tasks in \<open>A\<close>.\<close>

inductive pool_reach :: "task set \<Rightarrow> config \<Rightarrow> nat \<Rightarrow> psys \<Rightarrow> bool" for A cfg n where
  pool_init: "pool_reach A cfg n (NewDriverPool cfg, replicate n Outside)"
| pool_next: "pool_reach A cfg n s \<Longrightarrow> ch_task ch \<in> A \<Longrightarrow> pool_step i ch s = Some s' \<Longrightarrow> pool_reach A cfg n s'"

fun pool_exec :: "(nat \<times> choice) list \<Rightarrow> psys \<Rightarrow> psys option" where
  "pool_exec [] s = Some s"
| "pool_exec ((i, ch) # acts) s = (case pool_step i ch s of None \<Rightarrow> None | Some s' \<Rightarrow> pool_exec acts s')"

lemma pool_exec_reach:
  "pool_exec acts s = Some s' \<Longrightarrow> ch_task ` snd ` set acts \<subseteq> A \<Longrightarrow> pool_reach A cfg n s \<Longrightarrow> pool_reach A cfg n s'"
  by (induction acts s rule: pool_exec.induct) (auto split: option.splits intro: pool_next)

end
