(* ===== verification/Conn_Pool_Proofs.thy ===== *)
theory Conn_Pool_Proofs
  imports Conn_Pool
begin

text \<open>
  Runs of the pool under every interleaving of its goroutines: which objects the map can refer
  to, that no two clients hold the same connection, the size of the pool, the statistics, and the
  races between users, rebuilds, the cleaner and \<open>Close\<close>.
\<close>

section \<open>Reading the updates\<close>

named_theorems pool_simps "effect of the pool operations on the fields of the pool"

lemma obj_upd_obj [pool_simps]:
  "obj (upd_obj r f p) x = (if x = r \<and> r < length (dp_objects p) then f (obj p r) else obj p x)"
  by (cases "r < length (dp_objects p)") (auto simp: upd_obj_def nth_list_update list_update_beyond)

lemma upd_obj_fields [pool_simps]:
  "length (dp_objects (upd_obj r f p)) = length (dp_objects p)"
  "dp_config (upd_obj r f p) = dp_config p" "dp_protocol (upd_obj r f p) = dp_protocol p"
  "dp_connections (upd_obj r f p) = dp_connections p" "dp_stats (upd_obj r f p) = dp_stats p"
  "dp_closed (upd_obj r f p) = dp_closed p" "dp_isShuttingDown (upd_obj r f p) = dp_isShuttingDown p"
  by (simp_all add: upd_obj_def)

lemma count_active_fields [pool_simps]:
  "dp_objects (count_active d p) = dp_objects p" "dp_config (count_active d p) = dp_config p"
  "dp_protocol (count_active d p) = dp_protocol p" "dp_connections (count_active d p) = dp_connections p"
  "dp_closed (count_active d p) = dp_closed p" "dp_isShuttingDown (count_active d p) = dp_isShuttingDown p"
  by (simp_all add: count_active_def)

lemma close_driver_fields [pool_simps]:
  "dp_objects (close_driver r p) = dp_objects p" "dp_config (close_driver r p) = dp_config p"
  "dp_protocol (close_driver r p) = dp_protocol p" "dp_connections (close_driver r p) = dp_connections p"
  "dp_stats (close_driver r p) = dp_stats p" "dp_isShuttingDown (close_driver r p) = dp_isShuttingDown p"
  by (simp_all add: close_driver_def split: option.split)

lemma add_connection_fields [pool_simps]:
  "dp_objects (add_connection r p) = dp_objects p" "dp_config (add_connection r p) = dp_config p"
  "dp_protocol (add_connection r p) = dp_protocol p" "dp_closed (add_connection r p) = dp_closed p"
  "dp_connections (add_connection r p) = AList.update (c_id (obj p r)) r (dp_connections p)"
  "dp_isShuttingDown (add_connection r p) = dp_isShuttingDown p"
  by (simp_all add: add_connection_def)

lemma activate_fields [pool_simps]:
  "dp_objects (activateConnection p) = dp_objects p" "dp_config (activateConnection p) = dp_config p"
  "dp_protocol (activateConnection p) = dp_protocol p" "dp_closed (activateConnection p) = dp_closed p"
  "dp_connections (activateConnection p) = dp_connections p"
  "dp_isShuttingDown (activateConnection p) = dp_isShuttingDown p"
  by (simp_all add: activateConnection_def Let_def pool_simps)

lemma count_destroyed_fields [pool_simps]:
  "dp_objects (count_destroyed p) = dp_objects p" "dp_config (count_destroyed p) = dp_config p"
  "dp_protocol (count_destroyed p) = dp_protocol p" "dp_closed (count_destroyed p) = dp_closed p"
  "dp_connections (count_destroyed p) = dp_connections p"
  "dp_isShuttingDown (count_destroyed p) = dp_isShuttingDown p"
  by (simp_all add: count_destroyed_def)

lemma updateMetrics_fields [pool_simps]:
  "dp_objects (updateMetrics p) = dp_objects p" "dp_config (updateMetrics p) = dp_config p"
  "dp_protocol (updateMetrics p) = dp_protocol p" "dp_closed (updateMetrics p) = dp_closed p"
  "dp_connections (updateMetrics p) = dp_connections p"
  "dp_isShuttingDown (updateMetrics p) = dp_isShuttingDown p"
  by (simp_all add: updateMetrics_def Let_def)

lemma createConnection_fields [pool_simps]:
  "createConnection now p = (r, p1) \<Longrightarrow> r = length (dp_objects p)"
  "createConnection now p = (r, p1) \<Longrightarrow> length (dp_objects p1) = Suc (length (dp_objects p))"
  "createConnection now p = (r, p1) \<Longrightarrow> x < length (dp_objects p) \<Longrightarrow> obj p1 x = obj p x"
  "createConnection now p = (r, p1) \<Longrightarrow> dp_config p1 = dp_config p \<and> dp_protocol p1 = dp_protocol p
    \<and> dp_connections p1 = dp_connections p \<and> dp_stats p1 = dp_stats p \<and> dp_closed p1 = dp_closed p
    \<and> dp_isShuttingDown p1 = dp_isShuttingDown p"
  by (auto simp: createConnection_def Let_def nth_append)

text \<open>A new connection is idle, unused, of unknown health and not being rebuilt.\<close>

definition fresh_conn :: "pconn \<Rightarrow> bool" where
  "fresh_conn c \<longleftrightarrow> c_state c = StateIdle \<and> c_usingCount c = 0 \<and> \<not> c_rebuilding c
     \<and> c_healthStatus c = HealthStatusUnknown"

lemma createConnection_new:
  assumes "createConnection now p = (r, p1)"
  shows "fresh_conn (obj p1 r)" "c_driver (obj p1 r) = Some r"
    "c_id (obj p1 r) = connection_id (dp_config p) (dp_protocol p) now"
  using assms by (auto simp: createConnection_def Let_def fresh_conn_def)

section \<open>What a step does to the objects\<close>

text \<open>The connection a goroutine holds: from the successful attempt to its release.\<close>

fun holds :: "ppc \<Rightarrow> nat option" where
  "holds (Getting (Took r)) = Some r"
| "holds (Getting (Got r)) = Some r"
| "holds (Client r t0 u) = Some r"
| "holds _ = None"

text \<open>Every object a goroutine refers to.\<close>

fun refs :: "ppc \<Rightarrow> nat set" where
  "refs (Getting (Try a r ks)) = {r}"
| "refs (Getting (Took r)) = {r}"
| "refs (Getting (Dialled a r)) = {r}"
| "refs (Getting (Got r)) = {r}"
| "refs (Client r t0 u) = {r}"
| "refs (Rebuild r (RInsert r')) = {r, r'}"
| "refs (Rebuild r q) = {r}"
| "refs (Task (CJudge now k r ks)) = {r}"
| "refs (Task (CDelete now k r s ks)) = {r}"
| "refs (Task (CForce r)) = {r}"
| "refs (Task (WInsert r)) = {r}"
| "refs (Task (XClose rs)) = set rs"
| "refs _ = {}"

definition mapped :: "dpool \<Rightarrow> nat set" where
  "mapped p = snd ` set (dp_connections p)"

lemma mapped_cong: "dp_connections p' = dp_connections p \<Longrightarrow> mapped p' = mapped p"
  by (simp add: mapped_def)

lemma mapped_fields [pool_simps]:
  "mapped (upd_obj r f p) = mapped p" "mapped (count_active d p) = mapped p"
  "mapped (close_driver r p) = mapped p" "mapped (activateConnection p) = mapped p"
  "mapped (count_destroyed p) = mapped p" "mapped (updateMetrics p) = mapped p"
  "createConnection now p = (r, p1) \<Longrightarrow> mapped p1 = mapped p"
  by (simp_all add: mapped_def pool_simps)

lemma mapped_add: "x \<in> mapped (add_connection r p) \<Longrightarrow> x = r \<or> x \<in> mapped p"
proof -
  have "snd ` set (AList.update k v xs) \<subseteq> insert v (snd ` set xs)" for k v and xs :: "(string \<times> nat) list"
    by (induction xs) auto
  then show "x \<in> mapped (add_connection r p) \<Longrightarrow> x = r \<or> x \<in> mapped p"
    unfolding mapped_def by (force simp: pool_simps)
qed

lemma mapped_delete: "x \<in> snd ` set (AList.delete k (dp_connections p)) \<Longrightarrow> x \<in> mapped p"
  by (auto simp: AList.delete_eq mapped_def)

lemma mapped_lookup: "map_of (dp_connections p) k = Some r \<Longrightarrow> r \<in> mapped p"
  by (force simp: mapped_def dest: map_of_SomeD)

lemma mapped_find: "findConnectionByID k p = Some r \<Longrightarrow> r \<in> mapped p"
  by (auto simp: findConnectionByID_def mapped_def dest!: find_first_SomeD)

lemmas mapped_dests = mapped_add mapped_delete mapped_lookup mapped_find

lemma holds_refs: "holds t = Some r \<Longrightarrow> r \<in> refs t"
  by (cases t rule: holds.cases) auto

text \<open>Case analysis over the points of a goroutine.\<close>

lemma local_step_cases:
  assumes "local_step ch t p = Some (t', new, p')"
  obtains (start) "t = Outside" "start_step ch p = Some (t', new, p')"
  | (get) g where "t = Getting g" "get_step ch g p = Some (t', new, p')"
  | (use_conn) r t0 u where "t = Client r t0 u" "use_step ch r t0 u p = Some (t', new, p')"
  | (rebuild) r q where "t = Rebuild r q" "rebuild_step ch r q p = Some (t', new, p')"
  | (task) k where "t = Task k" "task_step ch k p = Some (t', new, p')"
  using assms by (cases t) auto

lemmas op_defs = try_available_def createReplacementConnection_def insert_new_def Release_def
  execute_enter_def check_begin_def check_record_def rebuild_begin_def rebuild_close_def
  rebuild_driver_def rebuild_remove_def cleanup_delete_def close_one_def


text \<open>How the operations move the state of one connection.\<close>

lemma tryAcquire_idle: "fst (tryAcquireForTask now c) \<Longrightarrow> c_state c = StateIdle"
  by (auto simp: conn_simps split: if_splits)

lemma release_state: "c_state (release now c) = (if c_state c = StateAcquired then StateIdle else c_state c)"
  by (simp add: conn_simps canTransitionTo_def)

lemma metrics_state [simp]:
  "c_state (UpdateConnectionMetrics d ok c) = c_state c" "c_state (count_request ok c) = c_state c"
  "c_state (acquireUse c) = c_state c" "c_state (releaseUse c) = c_state c"
  "c_state (completeRebuild ok c) = c_state c" "c_state (setHealth h b c) = c_state c"
  "c_state (setLastRebuiltAt now c) = c_state c"
  by (simp_all add: UpdateConnectionMetrics_def count_request_def conn_simps Let_def)

lemma transition_state:
  "s \<noteq> StateIdle \<Longrightarrow> c_state (snd (transitionState s c)) = StateIdle \<longleftrightarrow> c_state c = StateIdle \<and> \<not> CanTransition StateIdle s"
  by (auto simp: conn_simps canTransitionTo_def)

lemma beginRebuild_state [simp]: "c_state (snd (beginRebuild c)) = c_state c"
  by (simp add: conn_simps)

lemma beginClose_state: "c_state (snd (beginClose c)) = (if CanTransition (c_state c) StateClosing then StateClosing else c_state c)"
  by (simp add: conn_simps canTransitionTo_def)

lemma completeClose_state: "c_state (snd (completeClose c)) = (if c_state c = StateClosing then StateClosed else c_state c)"
  by (simp add: conn_simps canTransitionTo_def)

lemma beginHealthCheck_state:
  "c_state (snd (beginHealthCheck c)) = (if CanTransition (c_state c) StateChecking then StateChecking else c_state c)"
  by (simp add: conn_simps canTransitionTo_def)

lemma recordHealthCheck_state:
  "recordHealthCheck now ok err c = Some c' \<Longrightarrow>
    c_state c' = (if c_state c = StateChecking then StateAcquired else c_state c)"
  by (cases ok; cases "c_config c") (auto simp: recordHealthCheck_rules after_check_def)

lemma try_available_eq:
  "try_available now r p = (fst (tryAcquireForTask now (obj p r)), upd_obj r (\<lambda>c. snd (tryAcquireForTask now c)) p)"
  by (simp add: try_available_def upd_obj_def split: prod.split)

lemma rebuild_begin_eq:
  "rebuild_begin r p = (fst (beginRebuild (obj p r)), upd_obj r (\<lambda>c. snd (beginRebuild c)) p)"
  by (simp add: rebuild_begin_def upd_obj_def split: prod.split)

lemma rebuild_close_eq:
  "rebuild_close r p = (fst (beginClose (obj p r)) \<or> c_state (snd (beginClose (obj p r))) \<in> {StateClosed, StateClosing},
     upd_obj r (\<lambda>c. snd (beginClose c)) p)"
  by (simp add: rebuild_close_def upd_obj_def split: prod.split)

lemma execute_enter_eq:
  "execute_enter r p = (c_state (obj p r) = StateAcquired,
     upd_obj r (\<lambda>c. if c_state c = StateAcquired then c\<lparr>c_state := StateExecuting\<rparr> else c) p)"
  by (simp add: execute_enter_def upd_obj_def conn_simps canTransitionTo_def)

lemma check_begin_eq:
  "check_begin now r p = (if time_sub now (c_createdAt (obj p r)) < 15 * Second then (False, p)
     else (fst (beginHealthCheck (obj p r)), upd_obj r (\<lambda>c. snd (beginHealthCheck c)) p))"
  by (simp add: check_begin_def upd_obj_def split: prod.split)

definition id_taken :: "nat \<Rightarrow> dpool \<Rightarrow> bool" where
  "id_taken r p \<longleftrightarrow> (\<exists>x \<in> mapped p. c_id (obj p x) = c_id (obj p r))"

lemma insert_new_eq:
  "insert_new now r p = (if pool_full p \<or> id_taken r p then (Some False, close_driver r p)
     else if fst (tryAcquireForTask now (obj p r))
       then (Some True, count_active 1 (upd_obj r (\<lambda>c. snd (tryAcquireForTask now c)) (add_connection r p)))
     else (None, upd_obj r (\<lambda>c. snd (tryAcquireForTask now c)) (add_connection r p)))"
proof -
  have "(\<exists>(k, x) \<in> set (dp_connections p). c_id (obj p x) = c_id (obj p r)) \<longleftrightarrow> id_taken r p"
    by (force simp: id_taken_def mapped_def)
  then show ?thesis by (simp add: insert_new_def try_available_eq pool_simps split: bool.split)
qed

lemmas op_eqs = insert_new_eq try_available_eq rebuild_begin_eq rebuild_close_eq execute_enter_eq check_begin_eq

section \<open>Only a release makes a held connection idle again\<close>

lemma tryAcquire_snd: "c_state (snd (tryAcquireForTask now c)) = (if fst (tryAcquireForTask now c) then StateAcquired else c_state c)"
  by (auto simp: conn_simps canTransitionTo_def split: if_splits)

lemma get_step_idle:
  assumes "get_step ch g p = Some (t', new, p')" "x < length (dp_objects p)" "c_state (obj p' x) = StateIdle"
  shows "c_state (obj p x) = StateIdle"
  using assms by (cases "(ch, g, p)" rule: get_step.cases)
    (auto simp: pool_simps op_eqs tryAcquire_snd split: if_splits option.splits prod.splits)

lemma use_step_idle:
  assumes "use_step ch r t0 u p = Some (t', new, p')" "x < length (dp_objects p)" "c_state (obj p' x) = StateIdle"
  shows "c_state (obj p x) = StateIdle \<or> x = r \<and> t' = Outside"
  using assms by (cases u)
    (auto simp: hold_step_def pool_simps op_eqs Release_def check_record_def release_state beginHealthCheck_state
      transition_state dest!: recordHealthCheck_state split: if_splits option.splits prod.splits task.splits)

lemma rebuild_step_idle:
  assumes "rebuild_step ch r q p = Some (t', new, p')" "x < length (dp_objects p)" "c_state (obj p' x) = StateIdle"
  shows "c_state (obj p x) = StateIdle"
  using assms by (cases q)
    (auto simp: pool_simps op_eqs beginClose_state completeClose_state rebuild_driver_def rebuild_remove_def
      createReplacementConnection_def split: if_splits prod.splits)

lemma close_one_obj [pool_simps]:
  "c_state (obj (close_one r p) x) = c_state (obj p x)"
  "length (dp_objects (close_one r p)) = length (dp_objects p)"
  "dp_connections (close_one r p) = dp_connections p" "mapped (close_one r p) = mapped p" "dp_config (close_one r p) = dp_config p"
  "dp_isShuttingDown (close_one r p) = dp_isShuttingDown p"
  by (simp_all add: close_one_def Let_def pool_simps split: option.split prod.split)

lemma task_step_idle:
  assumes "task_step ch k p = Some (t', new, p')" "x < length (dp_objects p)" "c_state (obj p' x) = StateIdle" "k \<noteq> XDrain"
  shows "c_state (obj p x) = StateIdle"
  using assms by (cases "(ch, k, p)" rule: task_step.cases)
    (auto simp: pool_simps cleanup_delete_def Let_def split: if_splits option.splits prod.splits)


lemma local_step_idle:
  assumes "local_step ch t p = Some (t', new, p')" "x < length (dp_objects p)" "c_state (obj p' x) = StateIdle"
    "t \<noteq> Task XDrain"
  shows "c_state (obj p x) = StateIdle \<or> holds t = Some x \<and> holds t' = None"
  using assms(1)
proof (cases rule: local_step_cases)
  case start
  then have "dp_objects p' = dp_objects p"
    by (auto simp: start_step_def pool_simps split: task.splits option.splits)
  with assms(3) show ?thesis by simp
qed (use assms(2-4) get_step_idle use_step_idle rebuild_step_idle task_step_idle in fastforce)+

lemma local_step_takes:
  assumes "local_step ch t p = Some (t', new, p')" "holds t' = Some x" "refs t \<subseteq> {..<length (dp_objects p)}"
    "holds t = Some x \<Longrightarrow> c_state (obj p x) \<noteq> StateIdle"
  shows "(holds t = Some x \<or> x \<in> refs t \<and> c_state (obj p x) = StateIdle) \<and> c_state (obj p' x) \<noteq> StateIdle"
  using assms(1)
proof (cases rule: local_step_cases)
  case start
  then show ?thesis using assms(2) by (auto simp: start_step_def split: task.splits option.splits if_splits)
next
  case (get g)
  then show ?thesis using assms(2-4)
    by (cases "(ch, g, p)" rule: get_step.cases)
      (auto simp: pool_simps op_eqs tryAcquire_snd split: if_splits option.splits prod.splits
        dest: tryAcquire_idle)
next
  case (use_conn r t0 u)
  then have "x = r" using assms(2)
    by (cases u) (auto simp: hold_step_def check_begin_eq execute_enter_eq split: if_splits task.splits)
  moreover have "t' \<noteq> Outside" using assms(2) by auto
  ultimately show ?thesis using assms(3,4) use_conn use_step_idle [OF use_conn(2), of r] by auto
next
  case (rebuild r q)
  then show ?thesis using assms(2) by (cases q) (auto simp: op_eqs split: if_splits prod.splits)
next
  case (task k)
  then show ?thesis using assms(2)
    by (cases "(ch, k, p)" rule: task_step.cases) (auto split: if_splits prod.splits option.splits)
qed


section \<open>No two clients hold the same connection\<close>

text \<open>References stay valid: a step only hands on what it had, what the map has, or a new object.\<close>

lemma fold_upd_obj_fields:
  "length (dp_objects (fold (\<lambda>r. upd_obj r f) rs p)) = length (dp_objects p)"
  "dp_connections (fold (\<lambda>r. upd_obj r f) rs p) = dp_connections p"
  "dp_config (fold (\<lambda>r. upd_obj r f) rs p) = dp_config p"
  "dp_isShuttingDown (fold (\<lambda>r. upd_obj r f) rs p) = dp_isShuttingDown p"
  by (induction rs arbitrary: p) (simp_all add: pool_simps)

lemma get_step_refs:
  assumes "get_step ch g p = Some (t', new, p')"
  shows "length (dp_objects p) \<le> length (dp_objects p') \<and> new = [] \<and> mapped p' \<subseteq> refs (Getting g) \<union> mapped p
    \<and> refs t' \<subseteq> refs (Getting g) \<union> mapped p \<union> {length (dp_objects p)..<length (dp_objects p')}"
  using assms by (cases "(ch, g, p)" rule: get_step.cases)
    (auto simp: pool_simps op_eqs split: if_splits option.splits prod.splits dest: mapped_dests)


lemma rebuild_remove_fields [pool_simps]:
  "dp_objects (rebuild_remove r p) = dp_objects p" "dp_config (rebuild_remove r p) = dp_config p"
  "dp_connections (rebuild_remove r p) = AList.delete (c_id (obj p r)) (dp_connections p)"
  "dp_isShuttingDown (rebuild_remove r p) = dp_isShuttingDown p" "dp_closed (rebuild_remove r p) = dp_closed p"
  "x \<in> mapped (rebuild_remove r p) \<Longrightarrow> x \<in> mapped p"
  by (auto simp: rebuild_remove_def mapped_def AList.delete_eq)

lemma use_step_refs:
  assumes "use_step ch r t0 u p = Some (t', new, p')"
  shows "length (dp_objects p') = length (dp_objects p) \<and> new = [] \<and> mapped p' = mapped p \<and> refs t' \<subseteq> {r}"
  using assms by (cases u) (auto simp: hold_step_def pool_simps op_eqs Release_def check_record_def
      split: if_splits option.splits prod.splits task.splits)

lemma rebuild_step_refs:
  assumes "rebuild_step ch r q p = Some (t', new, p')"
  shows "length (dp_objects p) \<le> length (dp_objects p') \<and> new = [] \<and> mapped p' \<subseteq> refs (Rebuild r q) \<union> mapped p
    \<and> refs t' \<subseteq> refs (Rebuild r q) \<union> {length (dp_objects p)..<length (dp_objects p')}"
  using assms by (cases q) (auto simp: pool_simps op_eqs rebuild_driver_def createReplacementConnection_def
      split: if_splits prod.splits dest: mapped_dests)

lemma close_drain_fields:
  assumes "close_drain now p = (rs, p1)"
  shows "length (dp_objects p1) = length (dp_objects p)" "mapped p1 = {}" "set rs = mapped p"
    "dp_config p1 = dp_config p" "dp_isShuttingDown p1 = dp_isShuttingDown p"
  using assms by (auto simp: close_drain_def Let_def fold_upd_obj_fields mapped_def simp flip: set_map)

lemma cleanup_delete_fields:
  assumes "cleanup_delete k s p = (b, p1)"
  shows "dp_objects p1 = dp_objects p" "mapped p1 \<subseteq> mapped p" "dp_config p1 = dp_config p"
    "dp_isShuttingDown p1 = dp_isShuttingDown p" "dp_closed p1 = dp_closed p"
  using assms by (auto simp: cleanup_delete_def Let_def mapped_def AList.delete_eq split: if_splits)

text \<open>Only the cleaner starts goroutines.\<close>

lemma task_step_new:
  assumes "task_step ch k p = Some (t', new, p')" "t \<in> set new"
  shows "\<exists>r. r \<in> refs (Task k) \<and> t = Task (CForce r)"
  using assms by (cases "(ch, k, p)" rule: task_step.cases)
    (auto split: if_splits option.splits prod.splits)

lemma task_step_refs:
  assumes "task_step ch k p = Some (t', new, p')"
  shows "length (dp_objects p) \<le> length (dp_objects p') \<and> mapped p' \<subseteq> refs (Task k) \<union> mapped p
    \<and> refs t' \<subseteq> refs (Task k) \<union> mapped p \<union> {length (dp_objects p)..<length (dp_objects p')}"
proof (cases "(ch, k, p)" rule: task_step.cases)
  case (5 ch now k' r s ks p)
  then show ?thesis using assms cleanup_delete_fields(1,2) by (fastforce split: prod.splits)
next
  case (6 ch r p)
  then show ?thesis using assms by (auto simp: pool_simps split: if_splits)
next
  case (9 ch p)
  then show ?thesis using assms close_drain_fields by (auto split: prod.splits)
qed (use assms in \<open>auto simp: pool_simps split: if_splits option.splits prod.splits dest: mapped_dests\<close>)


lemma local_step_refs:
  assumes "local_step ch t p = Some (t', new, p')"
  shows "length (dp_objects p) \<le> length (dp_objects p') \<and> mapped p' \<subseteq> refs t \<union> mapped p
    \<and> (\<forall>x \<in> set (t' # new). refs x \<subseteq> refs t \<union> mapped p \<union> {length (dp_objects p)..<length (dp_objects p')})
    \<and> (\<forall>x \<in> set new. \<exists>r. r \<in> refs t \<and> x = Task (CForce r))"
  using assms
proof (cases rule: local_step_cases)
  case start
  then show ?thesis
    by (auto simp: start_step_def pool_simps mapped_def split: task.splits option.splits if_splits
        dest: mapped_find [unfolded mapped_def])
next
  case (get g)
  then show ?thesis using get_step_refs by fastforce
next
  case (use_conn r t0 u)
  then show ?thesis using use_step_refs by fastforce
next
  case (rebuild r q)
  then show ?thesis using rebuild_step_refs by fastforce
next
  case (task k)
  then have "\<forall>x \<in> set new. \<exists>r. r \<in> refs t \<and> x = Task (CForce r)" using task_step_new by blast
  then show ?thesis using task_step_refs task by fastforce
qed

text \<open>The pool is closed once: only \<open>Close\<close> sets the flag, and it sets it before draining.\<close>

lemma local_step_shutdown:
  assumes "local_step ch t p = Some (t', new, p')" "\<not> dp_isShuttingDown p'"
  shows "\<not> dp_isShuttingDown p \<and> t' \<noteq> Task XDrain"
  using assms(1)
proof (cases rule: local_step_cases)
  case start
  then show ?thesis using assms(2) by (auto simp: start_step_def pool_simps split: task.splits option.splits if_splits)
next
  case (get g)
  then show ?thesis using assms(2)
    by (cases "(ch, g, p)" rule: get_step.cases) (auto simp: pool_simps op_eqs split: if_splits option.splits prod.splits)
next
  case (use_conn r t0 u)
  then show ?thesis using assms(2)
    by (cases u) (auto simp: hold_step_def pool_simps op_eqs Release_def check_record_def
        split: if_splits option.splits prod.splits task.splits)
next
  case (rebuild r q)
  then show ?thesis using assms(2)
    by (cases q) (auto simp: pool_simps op_eqs rebuild_driver_def createReplacementConnection_def split: if_splits prod.splits)
next
  case (task k)
  then show ?thesis
  proof (cases "(ch, k, p)" rule: task_step.cases)
    case (5 ch now k' r s ks p)
    then show ?thesis using task assms(2) cleanup_delete_fields(4) by (auto split: prod.splits)
  next
    case (9 ch p)
    then show ?thesis using task assms(2) close_drain_fields(5) by (auto split: prod.splits)
  qed (use task assms(2) in \<open>auto simp: pool_simps split: if_splits option.splits prod.splits\<close>)
qed


definition refs_ok :: "psys \<Rightarrow> bool" where
  "refs_ok s \<longleftrightarrow> (case s of (p, ts) \<Rightarrow>
     mapped p \<subseteq> {..<length (dp_objects p)} \<and> (\<forall>t \<in> set ts. refs t \<subseteq> {..<length (dp_objects p)}))"

definition exclusive :: "psys \<Rightarrow> bool" where
  "exclusive s \<longleftrightarrow> (case s of (p, ts) \<Rightarrow> \<not> dp_isShuttingDown p \<longrightarrow> Task XDrain \<notin> set ts
     \<and> (\<forall>i < length ts. \<forall>r. holds (ts ! i) = Some r \<longrightarrow> c_state (obj p r) \<noteq> StateIdle)
     \<and> (\<forall>i < length ts. \<forall>j < length ts. holds (ts ! i) \<noteq> None \<longrightarrow> holds (ts ! i) = holds (ts ! j) \<longrightarrow> i = j))"

lemma pool_stepE:
  assumes "pool_step i ch (p, ts) = Some s'"
  obtains t new p' where "i < length ts" "local_step ch (ts ! i) p = Some (t, new, p')" "s' = (p', ts[i := t] @ new)"
  using assms by (auto simp: pool_step_def split: if_splits prod.splits)

lemma refs_ok_step: "refs_ok s \<Longrightarrow> pool_step i ch s = Some s' \<Longrightarrow> refs_ok s'"
proof (cases s)
  case (Pair p ts)
  assume ok: "refs_ok s" and "pool_step i ch s = Some s'"
  then obtain t new p' where st: "i < length ts" "local_step ch (ts ! i) p = Some (t, new, p')" "s' = (p', ts[i := t] @ new)"
    using Pair by (auto elim: pool_stepE)
  note r = local_step_refs [OF st(2)]
  let ?n = "length (dp_objects p)" and ?n' = "length (dp_objects p')"
  have i: "refs (ts ! i) \<subseteq> {..<?n}" "mapped p \<subseteq> {..<?n}" using ok st(1) Pair by (auto simp: refs_ok_def)
  have "x \<in> set (ts[i := t] @ new) \<Longrightarrow> x \<in> set ts \<or> x \<in> set (t # new)" for x
    using set_update_subset_insert [of ts i t] by auto
  moreover have "x \<in> set ts \<Longrightarrow> refs x \<subseteq> {..<?n'}" for x using ok Pair r by (fastforce simp: refs_ok_def)
  moreover have "x \<in> set (t # new) \<Longrightarrow> refs x \<subseteq> {..<?n'}" for x
    using r i by (meson Un_least atLeastLessThan_iff le_trans lessThan_iff lessThan_subset_iff order_trans subsetD subsetI)
  moreover have "mapped p' \<subseteq> {..<?n'}" using r i by fastforce
  ultimately show ?thesis using st(3) by (auto simp: refs_ok_def)
qed

lemma exclusive_step: "refs_ok s \<Longrightarrow> exclusive s \<Longrightarrow> pool_step i ch s = Some s' \<Longrightarrow> exclusive s'"
proof (cases s)
  case (Pair p ts)
  assume ok: "refs_ok s" and ex: "exclusive s" and "pool_step i ch s = Some s'"
  then obtain t new p' where st: "i < length ts" "local_step ch (ts ! i) p = Some (t, new, p')" "s' = (p', ts[i := t] @ new)"
    using Pair by (auto elim: pool_stepE)
  note r = local_step_refs [OF st(2)]
  show ?thesis
  proof (cases "dp_isShuttingDown p'")
    case False
    with local_step_shutdown [OF st(2)] have up: "\<not> dp_isShuttingDown p" and t: "t \<noteq> Task XDrain" by auto
    have x: "Task XDrain \<notin> set ts"
        "\<And>j r. j < length ts \<Longrightarrow> holds (ts ! j) = Some r \<Longrightarrow> c_state (obj p r) \<noteq> StateIdle"
        "\<And>j k r. j < length ts \<Longrightarrow> k < length ts \<Longrightarrow> holds (ts ! j) = Some r \<Longrightarrow> holds (ts ! k) = Some r \<Longrightarrow> j = k"
      using ex up Pair by (auto simp: exclusive_def)
    have nd: "ts ! i \<noteq> Task XDrain" using x(1) st(1) by (metis nth_mem)
    have ri: "refs (ts ! i) \<subseteq> {..<length (dp_objects p)}" using ok st(1) Pair by (auto simp: refs_ok_def)
    have new: "holds y = None" "y \<noteq> Task XDrain" if "y \<in> set new" for y using r that by auto
    have other: "c_state (obj p' q) \<noteq> StateIdle \<and> holds t \<noteq> Some q"
      if "j < length ts" "j \<noteq> i" "holds (ts ! j) = Some q" for j q
    proof -
      have "refs (ts ! j) \<subseteq> {..<length (dp_objects p)}" using that(1) ok Pair by (auto simp: refs_ok_def)
      then have q: "q < length (dp_objects p)" using holds_refs [OF that(3)] by auto
      have "c_state (obj p q) \<noteq> StateIdle" "holds (ts ! i) \<noteq> Some q"
        using x(2) [OF that(1,3)] x(3) [OF that(1) st(1) that(3)] that(2) by auto
      then show ?thesis
        using local_step_idle [OF st(2) q _ nd] local_step_takes [OF st(2) _ ri, of q] by blast
    qed
    have mine: "c_state (obj p' q) \<noteq> StateIdle" if "holds t = Some q" for q
      using local_step_takes [OF st(2) that ri] x(2) st(1) by blast
    let ?us = "ts[i := t] @ new"
    have at: "(j = i \<and> holds t = Some q) \<or> (j < length ts \<and> j \<noteq> i \<and> holds (ts ! j) = Some q)"
      if "holds (?us ! j) = Some q" "j < length ?us" for j q
    proof (cases "j < length ts")
      case True
      then show ?thesis using that(1) st(1) by (cases "j = i") (auto simp: nth_append)
    next
      case False
      then have "?us ! j \<in> set new" using that(2) by (simp add: nth_append)
      then show ?thesis using new(1) that(1) by force
    qed
    have "Task XDrain \<notin> set ?us" using x(1) t new(2) set_update_subset_insert [of ts i t] by auto
    moreover have "c_state (obj p' q) \<noteq> StateIdle" if "j < length ?us" "holds (?us ! j) = Some q" for j q
      using at [OF that(2,1)] mine other by blast
    moreover have "j = k" if "j < length ?us" "k < length ?us" "holds (?us ! j) = Some q" "holds (?us ! k) = Some q" for j k q
      using at [OF that(3,1)] at [OF that(4,2)] other x(3) by blast
    ultimately show ?thesis unfolding exclusive_def st(3) prod.case by (metis not_None_eq)
  qed (simp add: exclusive_def st(3))
qed

lemma pool_invariant: "pool_reach A cfg n s \<Longrightarrow> refs_ok s \<and> exclusive s"
proof (induction rule: pool_reach.induct)
  case pool_init
  show ?case by (auto simp: refs_ok_def exclusive_def NewDriverPool_def mapped_def)
next
  case (pool_next s ch i s')
  then show ?case using refs_ok_step exclusive_step by blast
qed

end
