(* ===== verification/Conn_Pool_Runs.thy ===== *)
theory Conn_Pool_Runs
  imports Conn_Pool_Proofs
begin

text \<open>
  What the runs of the pool show beyond exclusive use: the bound of its size and how a rebuild
  exceeds it, how the reported number of active connections drifts, and three races between a
  client and a rebuild, the cleaner and \<open>Close\<close>, as schedules that the kernel evaluates.
\<close>

section \<open>Schedules\<close>

text \<open>Schedules: \<open>does i what\<close> is a step of goroutine \<open>i\<close>.\<close>

definition turn :: "gtime \<Rightarrow> string list \<Rightarrow> task \<Rightarrow> choice" where
  "turn now ks what = \<lparr>ch_now = now, ch_fails = False, ch_order = ks, ch_task = what\<rparr>"

definition does :: "nat \<Rightarrow> gtime \<Rightarrow> task \<Rightarrow> nat \<times> choice" where
  "does i now what = (i, turn now [] what)"

text \<open>A \<open>Get\<close> on an empty pool, on a pool with the one connection \<open>||5\<close>, and a rebuild of it.\<close>

definition get_new :: "nat \<Rightarrow> gtime \<Rightarrow> (nat \<times> choice) list" where
  "get_new i now = replicate 7 (does i now TaskGet)"

definition get_old :: "nat \<Rightarrow> gtime \<Rightarrow> (nat \<times> choice) list" where
  "get_old i now = [does i now TaskGet, (i, turn now [''||5''] TaskGet)] @ replicate 4 (does i now TaskGet)"

definition rebuild_old :: "nat \<Rightarrow> nat \<Rightarrow> gtime \<Rightarrow> (nat \<times> choice) list" where
  "rebuild_old i k now = replicate k (does i now (TaskRebuild ''||5''))"

definition two_goroutines :: "config \<Rightarrow> psys" where
  "two_goroutines cfg = (NewDriverPool cfg, [Outside, Outside])"

lemma schedule_reaches:
  assumes "case pool_exec acts (two_goroutines cfg) of None \<Rightarrow> False | Some (p, ts) \<Rightarrow> P p ts"
    "ch_task ` snd ` set acts \<subseteq> A"
  shows "\<exists>p ts. pool_reach A cfg 2 (p, ts) \<and> P p ts"
proof -
  have "pool_reach A cfg 2 (two_goroutines cfg)"
    using pool_init [of A cfg 2] by (simp add: two_goroutines_def numeral_2_eq_2)
  then have "pool_exec acts (two_goroutines cfg) = Some s \<Longrightarrow> pool_reach A cfg 2 s" for s
    using pool_exec_reach assms(2) by blast
  then show ?thesis using assms(1) by (cases "pool_exec acts (two_goroutines cfg)") auto
qed

section \<open>Exclusive use\<close>

text \<open>C5: Until the pool is closed, whatever its goroutines do and however they interleave, no two
  of them hold the same connection, and a connection that is held is never idle: health checks,
  rebuilds, the cleaner and other clients cannot make it available again.\<close>

theorem pool_exclusive:
  assumes "pool_reach A cfg n (p, ts)" "\<not> dp_isShuttingDown p" "i < length ts" "holds (ts ! i) = Some r"
  shows "c_state (obj p r) \<noteq> StateIdle \<and> (\<forall>j < length ts. holds (ts ! j) = Some r \<longrightarrow> j = i)"
  using pool_invariant [OF assms(1)] assms(2-4) by (auto simp: exclusive_def)

theorem pool_exclusive_witness:
  "\<exists>p ts. pool_reach {TaskGet} NewConfigBuilder 2 (p, ts) \<and> ts ! 0 = Client 0 5 (Hold True)
     \<and> c_state (obj p 0) \<noteq> StateIdle \<and> holds (ts ! 1) \<noteq> Some 0"
proof -
  have 1: "case pool_exec (get_new 0 5) (two_goroutines NewConfigBuilder) of None \<Rightarrow> False
    | Some (p, ts) \<Rightarrow> \<not> dp_isShuttingDown p \<and> length ts = 2 \<and> ts ! 0 = Client 0 5 (Hold True)" by code_simp
  have 2: "ch_task ` snd ` set (get_new 0 5) \<subseteq> {TaskGet}" by code_simp
  obtain p ts where r: "pool_reach {TaskGet} NewConfigBuilder 2 (p, ts)" "\<not> dp_isShuttingDown p" "length ts = 2"
      "ts ! 0 = Client 0 5 (Hold True)"
    using schedule_reaches [OF 1 2] by blast
  then have "c_state (obj p 0) \<noteq> StateIdle \<and> (\<forall>j < length ts. holds (ts ! j) = Some 0 \<longrightarrow> j = 0)"
    using pool_exclusive [OF r(1,2), of 0 0] by simp
  then have "c_state (obj p 0) \<noteq> StateIdle" "holds (ts ! 1) \<noteq> Some 0"
    using r(3) by (auto dest: spec [of _ 1])
  with r show ?thesis by blast
qed

section \<open>The size of the pool\<close>

text \<open>Without rebuilds and warm-ups every insertion goes through the second check of the size.\<close>

fun inserts_unchecked :: "ppc \<Rightarrow> bool" where
  "inserts_unchecked (Rebuild r q) = True"
| "inserts_unchecked (Task (WDial a)) = True"
| "inserts_unchecked (Task (WInsert r)) = True"
| "inserts_unchecked _ = False"

lemma local_step_config:
  assumes "local_step ch t p = Some (t', new, p')"
  shows "dp_config p' = dp_config p"
  using assms
proof (cases rule: local_step_cases)
  case start
  then show ?thesis by (auto simp: start_step_def pool_simps split: task.splits option.splits)
next
  case (get g)
  then show ?thesis
    by (cases "(ch, g, p)" rule: get_step.cases) (auto simp: pool_simps op_eqs split: if_splits option.splits prod.splits)
next
  case (use_conn r t0 u)
  then show ?thesis
    by (cases u) (auto simp: hold_step_def pool_simps op_eqs Release_def check_record_def
        split: if_splits option.splits prod.splits task.splits)
next
  case (rebuild r q)
  then show ?thesis
    by (cases q) (auto simp: pool_simps op_eqs rebuild_driver_def createReplacementConnection_def split: if_splits prod.splits)
next
  case (task k)
  then show ?thesis
    by (cases "(ch, k, p)" rule: task_step.cases)
      (auto simp: pool_simps split: if_splits option.splits prod.splits dest: cleanup_delete_fields(3) close_drain_fields(4))
qed

lemma length_update: "length (AList.update k v xs) \<le> Suc (length xs)"
  by (induction xs) auto

lemma length_delete: "length (AList.delete k xs) \<le> length xs"
  by (simp add: AList.delete_eq)

lemma local_step_length:
  assumes "local_step ch t p = Some (t', new, p')" "ch_task ch \<notin> range TaskRebuild \<union> {TaskWarmUp}"
    "\<not> inserts_unchecked t"
  shows "(length (dp_connections p') \<le> length (dp_connections p) \<or> int (length (dp_connections p')) \<le> MaxConnections (dp_config p))
    \<and> (\<forall>x \<in> set (t' # new). \<not> inserts_unchecked x)"
  using assms(1)
proof (cases rule: local_step_cases)
  case start
  then show ?thesis using assms(2) by (auto simp: start_step_def pool_simps split: task.splits option.splits if_splits)
next
  case (get g)
  then show ?thesis
  proof (cases "(ch, g, p)" rule: get_step.cases)
    case (8 ch a r p)
    have "\<not> pool_full p \<Longrightarrow> int (length (AList.update (c_id (obj p r)) r (dp_connections p))) \<le> MaxConnections (dp_config p)"
      using length_update [of "c_id (obj p r)" r "dp_connections p"] by (simp add: pool_full_def)
    then show ?thesis using get 8 by (auto simp: pool_simps op_eqs split: if_splits option.splits prod.splits)
  qed (use get in \<open>auto simp: pool_simps op_eqs split: if_splits option.splits prod.splits\<close>)
next
  case (use_conn r t0 u)
  then show ?thesis
    by (cases u) (auto simp: hold_step_def pool_simps op_eqs Release_def check_record_def
        split: if_splits option.splits prod.splits task.splits)
next
  case (rebuild r q)
  then show ?thesis using assms(3) by simp
next
  case (task k)
  have "close_drain now p = (rs, p1) \<Longrightarrow> dp_connections p1 = []" for now rs p1
    by (auto simp: close_drain_def Let_def)
  moreover have "cleanup_delete k s p = (b, p1) \<Longrightarrow> length (dp_connections p1) \<le> length (dp_connections p)" for k s b p1
    using length_delete by (auto simp: cleanup_delete_def Let_def split: if_splits)
  ultimately show ?thesis using task assms(3)
    by (cases "(ch, k, p)" rule: task_step.cases)
      (fastforce simp: pool_simps split: if_splits option.splits prod.splits)+
qed

lemma pool_size_invariant:
  assumes "pool_reach A cfg n s" "A \<inter> (range TaskRebuild \<union> {TaskWarmUp}) = {}"
  shows "dp_config (fst s) = cfg \<and> int (length (dp_connections (fst s))) \<le> max 0 (MaxConnections cfg)
    \<and> (\<forall>t \<in> set (snd s). \<not> inserts_unchecked t)"
  using assms(1)
proof (induction rule: pool_reach.induct)
  case pool_init
  then show ?case by (simp add: NewDriverPool_def)
next
  case (pool_next s ch i s')
  obtain p ts where s: "s = (p, ts)" by (cases s)
  with pool_next obtain t new p' where st: "i < length ts" "local_step ch (ts ! i) p = Some (t, new, p')" "s' = (p', ts[i := t] @ new)"
    by (auto elim: pool_stepE)
  have "ch_task ch \<notin> range TaskRebuild \<union> {TaskWarmUp}" using pool_next.hyps(2) assms(2) by blast
  then show ?case
    using local_step_length [OF st(2)] local_step_config [OF st(2)] pool_next.IH st s set_update_subset_insert [of ts i t]
    by (auto simp: subset_iff)
qed

text \<open>C21: Without rebuilds and warm-ups the pool never holds more connections than its maximum, although
  goroutines check the size, dial and insert in separate steps.\<close>

theorem pool_size_bound:
  assumes "pool_reach A cfg n (p, ts)" "A \<inter> (range TaskRebuild \<union> {TaskWarmUp}) = {}"
  shows "int (length (dp_connections p)) \<le> max 0 (MaxConnections cfg)"
  using pool_size_invariant [OF assms] by simp

theorem pool_size_bound_witness:
  "\<exists>p ts. pool_reach {TaskGet} (NewConfigBuilder\<lparr>MaxConnections := 1\<rparr>) 2 (p, ts)
     \<and> length (dp_connections p) = 1 \<and> int (length (dp_connections p)) \<le> max 0 1"
proof -
  have 1: "case pool_exec (get_new 0 5) (two_goroutines (NewConfigBuilder\<lparr>MaxConnections := 1\<rparr>)) of None \<Rightarrow> False
    | Some (p, ts) \<Rightarrow> length (dp_connections p) = 1" by code_simp
  have 2: "ch_task ` snd ` set (get_new 0 5) \<subseteq> {TaskGet}" by code_simp
  obtain p ts where r: "pool_reach {TaskGet} (NewConfigBuilder\<lparr>MaxConnections := 1\<rparr>) 2 (p, ts)" "length (dp_connections p) = 1"
    using schedule_reaches [OF 1 2] by blast
  have "{TaskGet} \<inter> (range TaskRebuild \<union> {TaskWarmUp}) = {}" by auto
  from pool_size_bound [OF r(1) this] r show ?thesis by auto
qed

section \<open>The statistics\<close>

fun handed_out :: "ppc \<Rightarrow> bool" where
  "handed_out (Getting (Got r)) = True"
| "handed_out (Client r t0 u) = True"
| "handed_out _ = False"

fun cleaning :: "ppc \<Rightarrow> bool" where
  "cleaning (Task (CSnapshot now)) = True"
| "cleaning (Task (CSweep now ks)) = True"
| "cleaning (Task (CJudge now k r ks)) = True"
| "cleaning (Task (CDelete now k r s ks)) = True"
| "cleaning _ = False"

definition active_surplus :: "dpool \<Rightarrow> int" where
  "active_surplus p = st_ActiveConnections (dp_stats p) - st_ReuseCount (dp_stats p)"

lemma active_surplus_fields [pool_simps]:
  "active_surplus (upd_obj r f p) = active_surplus p" "active_surplus (close_driver r p) = active_surplus p"
  "active_surplus (add_connection r p) = active_surplus p" "active_surplus (count_destroyed p) = active_surplus p"
  "active_surplus (rebuild_remove r p) = active_surplus p" "active_surplus (activateConnection p) = active_surplus p"
  "active_surplus (count_active d p) = active_surplus p + d" "active_surplus (close_one r p) = active_surplus p"
  "active_surplus (p\<lparr>dp_isShuttingDown := b\<rparr>) = active_surplus p"
  "createConnection now p = (r, p1) \<Longrightarrow> active_surplus p1 = active_surplus p"
  by (simp_all add: active_surplus_def pool_simps add_connection_def count_destroyed_def rebuild_remove_def
      activateConnection_def count_active_def close_one_def Let_def split: option.split prod.split)

lemma close_drain_surplus: "close_drain now p = (rs, p1) \<Longrightarrow> active_surplus p1 = active_surplus p"
proof -
  have "dp_stats (fold (\<lambda>r. upd_obj r f) rs p) = dp_stats p" for f rs
    by (induction rs arbitrary: p) (simp_all add: pool_simps)
  then show "close_drain now p = (rs, p1) \<Longrightarrow> active_surplus p1 = active_surplus p"
    by (auto simp: close_drain_def Let_def active_surplus_def)
qed

lemma local_step_surplus:
  assumes "local_step ch t p = Some (t', new, p')" "ch_task ch \<notin> {TaskCleanup, TaskMetrics}" "\<not> cleaning t"
  shows "active_surplus p' - of_bool (handed_out t') = active_surplus p - of_bool (handed_out t)
    \<and> new = [] \<and> \<not> cleaning t'"
  using assms(1)
proof (cases rule: local_step_cases)
  case start
  then show ?thesis using assms(2) by (auto simp: start_step_def pool_simps split: task.splits option.splits if_splits)
next
  case (get g)
  then show ?thesis
    by (cases "(ch, g, p)" rule: get_step.cases) (auto simp: pool_simps op_eqs split: if_splits option.splits prod.splits)
next
  case (use_conn r t0 u)
  then show ?thesis
    by (cases u) (auto simp: hold_step_def pool_simps op_eqs Release_def check_record_def
        split: if_splits option.splits prod.splits task.splits)
next
  case (rebuild r q)
  then show ?thesis
    by (cases q) (auto simp: pool_simps op_eqs rebuild_driver_def createReplacementConnection_def split: if_splits prod.splits)
next
  case (task k)
  then show ?thesis using assms(3)
    by (cases "(ch, k, p)" rule: task_step.cases)
      (auto simp: pool_simps split: if_splits option.splits prod.splits dest: close_drain_surplus)
qed

lemma length_filter_update:
  "i < length ts \<Longrightarrow> int (length (filter P (ts[i := t]))) - of_bool (P t) = int (length (filter P ts)) - of_bool (P (ts ! i))"
proof (induction ts arbitrary: i)
  case (Cons a ts)
  show ?case
  proof (cases i)
    case (Suc j)
    then show ?thesis using Cons.IH [of j] Cons.prems by simp
  qed simp
qed simp

text \<open>As long as neither the cleaner nor the metrics task has run, the number of active
  connections that the pool reports is the number of connections handed out plus the number of
  all connections it ever handed out: every \<open>Get\<close> counts its connection twice.\<close>

theorem active_count_drifts:
  assumes "pool_reach A cfg n (p, ts)" "TaskCleanup \<notin> A" "TaskMetrics \<notin> A"
  shows "st_ActiveConnections (dp_stats p) = int (length (filter handed_out ts)) + st_ReuseCount (dp_stats p)"
proof -
  have "active_surplus (fst s) = int (length (filter handed_out (snd s))) \<and> (\<forall>t \<in> set (snd s). \<not> cleaning t)"
    if "pool_reach A cfg n s" for s
    using that
  proof (induction rule: pool_reach.induct)
    case pool_init
    then show ?case by (simp add: NewDriverPool_def active_surplus_def filter_replicate)
  next
    case (pool_next s ch i s')
    obtain p ts where s: "s = (p, ts)" by (cases s)
    with pool_next obtain t new p' where st: "i < length ts" "local_step ch (ts ! i) p = Some (t, new, p')" "s' = (p', ts[i := t] @ new)"
      by (auto elim: pool_stepE)
    have "ch_task ch \<notin> {TaskCleanup, TaskMetrics}" using pool_next.hyps(2) assms(2,3) by auto
    then show ?case
      using local_step_surplus [OF st(2)] pool_next.IH st s set_update_subset_insert [of ts i t]
        length_filter_update [OF st(1), of handed_out t] by (auto simp: subset_iff)
  qed
  from this [OF assms(1)] show ?thesis by (simp add: active_surplus_def)
qed

theorem active_count_drifts_witness:
  "\<exists>p. pool_reach {TaskGet, TaskRelease} NewConfigBuilder 2 (p, [Outside, Outside])
     \<and> st_ReuseCount (dp_stats p) = 2 \<and> st_ActiveConnections (dp_stats p) = 2"
proof -
  let ?acts = "get_new 0 5 @ [does 0 6 TaskRelease] @ get_old 1 7 @ [does 1 8 TaskRelease]"
  have 1: "case pool_exec ?acts (two_goroutines NewConfigBuilder) of None \<Rightarrow> False
    | Some (p, ts) \<Rightarrow> ts = [Outside, Outside] \<and> st_ReuseCount (dp_stats p) = 2" by code_simp
  have 2: "ch_task ` snd ` set ?acts \<subseteq> {TaskGet, TaskRelease}" by code_simp
  obtain p where r: "pool_reach {TaskGet, TaskRelease} NewConfigBuilder 2 (p, [Outside, Outside])"
      "st_ReuseCount (dp_stats p) = 2"
    using schedule_reaches [OF 1 2] by blast
  then show ?thesis using active_count_drifts [OF r(1)] by auto
qed

section \<open>Races\<close>

definition race_with_rebuild :: "(nat \<times> choice) list" where
  "race_with_rebuild = get_new 0 5 @ [does 0 6 TaskRelease] @ rebuild_old 1 3 7 @ get_old 0 7
     @ [does 0 8 TaskExecute, does 0 8 TaskExecute] @ rebuild_old 1 3 8"


definition race_with_cleaner :: "(nat \<times> choice) list" where
  "race_with_cleaner = get_new 0 5 @ [does 0 6 TaskRelease, does 1 (3 * Minute) TaskCleanup,
     (1, turn 0 [''||5''] TaskCleanup), does 1 0 TaskCleanup, does 1 0 TaskCleanup] @ take 3 (get_old 0 7)
     @ [does 1 0 TaskCleanup, does 2 0 TaskCleanup] @ drop 3 (get_old 0 7)"

text \<open>A client that looked a connection up before the cleaner removed it can still take it: it is
  handed a connection that is closed and no longer in the pool.\<close>

theorem cleaned_connection_handed_out:
  "\<exists>p ts r. pool_reach {TaskGet, TaskRelease, TaskCleanup} NewConfigBuilder 2 (p, ts)
     \<and> \<not> dp_isShuttingDown p \<and> ts ! 0 = Client r 7 (Hold True) \<and> c_state (obj p r) = StateAcquired
     \<and> r \<in> set (dp_closed p) \<and> dp_connections p = []"
proof -
  have 1: "case pool_exec race_with_cleaner (two_goroutines NewConfigBuilder) of None \<Rightarrow> False
    | Some (p, ts) \<Rightarrow> \<not> dp_isShuttingDown p \<and> ts ! 0 = Client 0 7 (Hold True) \<and> c_state (obj p 0) = StateAcquired
       \<and> 0 \<in> set (dp_closed p) \<and> dp_connections p = []"
    by code_simp
  have 2: "ch_task ` snd ` set race_with_cleaner \<subseteq> {TaskGet, TaskRelease, TaskCleanup}" by code_simp
  show ?thesis using schedule_reaches [OF 1 2] by blast
qed

definition race_with_close :: "(nat \<times> choice) list" where
  "race_with_close = take 5 (get_new 0 5) @ replicate 3 (does 1 6 TaskClose) @ drop 5 (get_new 0 5) @ [does 0 7 TaskRelease]"

text \<open>A \<open>Get\<close> that is dialling when the pool is closed adds its connection to the closed pool, where
  nothing closes it any more.\<close>

theorem closed_pool_keeps_connection:
  "\<exists>p ts. pool_reach {TaskGet, TaskRelease, TaskClose} NewConfigBuilder 2 (p, ts)
     \<and> dp_isShuttingDown p \<and> ts = [Outside, Outside] \<and> dp_connections p = [(''||5'', 0)] \<and> dp_closed p = []"
proof -
  have 1: "case pool_exec race_with_close (two_goroutines NewConfigBuilder) of None \<Rightarrow> False
    | Some (p, ts) \<Rightarrow> dp_isShuttingDown p \<and> ts = [Outside, Outside] \<and> dp_connections p = [(''||5'', 0)] \<and> dp_closed p = []"
    by code_simp
  have 2: "ch_task ` snd ` set race_with_close \<subseteq> {TaskGet, TaskRelease, TaskClose}" by code_simp
  show ?thesis using schedule_reaches [OF 1 2] by blast
qed

definition rebuild_overshoot :: "(nat \<times> choice) list" where
  "rebuild_overshoot = get_new 0 5 @ [does 0 6 TaskRelease] @ rebuild_old 1 7 7 @ get_new 0 8 @ rebuild_old 1 3 9"

text \<open>A rebuild adds its new connection without checking the size, so that the pool can exceed its maximum.\<close>

theorem rebuild_exceeds_maximum:
  "\<exists>p ts. pool_reach {TaskGet, TaskRelease, TaskRebuild ''||5''} (NewConfigBuilder\<lparr>MaxConnections := 1\<rparr>) 2 (p, ts)
     \<and> length (dp_connections p) = 2"
proof -
  have 1: "case pool_exec rebuild_overshoot (two_goroutines (NewConfigBuilder\<lparr>MaxConnections := 1\<rparr>)) of None \<Rightarrow> False
    | Some (p, ts) \<Rightarrow> length (dp_connections p) = 2"
    by code_simp
  have 2: "ch_task ` snd ` set rebuild_overshoot \<subseteq> {TaskGet, TaskRelease, TaskRebuild ''||5''}" by code_simp
  show ?thesis using schedule_reaches [OF 1 2] by blast
qed

end
