(* ===== verification/Conn_Pool_Open.thy ===== *)
theory Conn_Pool_Open
  imports Conn_Pool_Runs
begin

text \<open>
  Which connections of the pool are open: an invariant over the map, over the connections that a
  goroutine has dialled but not yet inserted, and over the points at which goroutines rebuild,
  judge, delete or force-close a connection.
\<close>

section \<open>What a step leaves alone\<close>

fun pending :: "ppc \<Rightarrow> nat option" where
  "pending (Getting (Dialled a r)) = Some r"
| "pending (Rebuild r (RInsert r')) = Some r'"
| "pending (Task (WInsert r)) = Some r"
| "pending _ = None"

fun closer :: "ppc \<Rightarrow> bool" where
  "closer (Task XDrain) = True"
| "closer (Task (XClose rs)) = True"
| "closer _ = False"

definition closing :: "pconn \<Rightarrow> bool" where
  "closing c \<longleftrightarrow> c_state c \<in> {StateClosing, StateClosed}"

lemma closing_ops:
  "closing c \<Longrightarrow> closing (snd (tryAcquireForTask now c))" "closing c \<Longrightarrow> closing (release now c)"
  "closing (UpdateConnectionMetrics d ok c) = closing c" "closing (count_request ok c) = closing c"
  "closing (acquireUse c) = closing c" "closing (releaseUse c) = closing c"
  "closing (completeRebuild ok c) = closing c" "closing c \<Longrightarrow> closing (snd (transitionState s c))"
  "closing (snd (beginRebuild c)) = closing c" "closing c \<Longrightarrow> closing (snd (beginClose c))"
  "closing c \<Longrightarrow> closing (snd (completeClose c))" "closing c \<Longrightarrow> closing (snd (beginHealthCheck c))"
  "closing (c\<lparr>c_driver := drv\<rparr>) = closing c"
  "c_state c = StateAcquired \<Longrightarrow> \<not> closing c"
  by (auto simp: closing_def tryAcquire_snd release_state beginClose_state completeClose_state beginHealthCheck_state
      conn_simps canTransitionTo_def Let_def dest: tryAcquire_idle)

lemma closing_check: "recordHealthCheck now ok err c = Some c' \<Longrightarrow> closing c \<Longrightarrow> closing c'"
  using recordHealthCheck_state by (auto simp: closing_def)

lemma id_driver_ops [simp]:
  "c_id (snd (tryAcquireForTask now c)) = c_id c" "c_id (release now c) = c_id c"
  "c_id (UpdateConnectionMetrics d ok c) = c_id c" "c_id (count_request ok c) = c_id c"
  "c_id (acquireUse c) = c_id c" "c_id (releaseUse c) = c_id c" "c_id (completeRebuild ok c) = c_id c"
  "c_id (snd (transitionState s c)) = c_id c" "c_id (snd (beginRebuild c)) = c_id c"
  "c_id (snd (beginClose c)) = c_id c" "c_id (snd (completeClose c)) = c_id c" "c_id (snd (beginHealthCheck c)) = c_id c"
  "c_driver (snd (tryAcquireForTask now c)) = c_driver c" "c_driver (release now c) = c_driver c"
  "c_driver (UpdateConnectionMetrics d ok c) = c_driver c" "c_driver (count_request ok c) = c_driver c"
  "c_driver (acquireUse c) = c_driver c" "c_driver (releaseUse c) = c_driver c" "c_driver (completeRebuild ok c) = c_driver c"
  "c_driver (snd (transitionState s c)) = c_driver c" "c_driver (snd (beginRebuild c)) = c_driver c"
  "c_driver (snd (beginClose c)) = c_driver c" "c_driver (snd (completeClose c)) = c_driver c"
  "c_driver (snd (beginHealthCheck c)) = c_driver c"
  by (auto simp: conn_simps UpdateConnectionMetrics_def count_request_def Let_def split: if_splits)

lemma id_driver_check:
  "recordHealthCheck now ok err c = Some c' \<Longrightarrow> c_id c' = c_id c \<and> c_driver c' = c_driver c"
proof -
  have "c_id (recordFailure cfg c) = c_id c \<and> c_driver (recordFailure cfg c) = c_driver c" for cfg c
    by (simp add: conn_simps Let_def)
  then show "recordHealthCheck now ok err c = Some c' \<Longrightarrow> c_id c' = c_id c \<and> c_driver c' = c_driver c"
    by (cases ok; cases "c_config c") (auto simp: recordHealthCheck_rules after_check_def)
qed

lemma close_driver_closed: "x \<in> set (dp_closed (close_driver r p)) \<Longrightarrow> x \<in> set (dp_closed p) \<or> c_driver (obj p r) = Some x"
  by (auto simp: close_driver_def split: option.splits)

lemma close_driver_set:
  "c_driver (obj p r) \<in> {None, Some r} \<Longrightarrow> set (dp_closed (close_driver r p)) \<subseteq> insert r (set (dp_closed p))"
  by (auto simp: close_driver_def)

text \<open>Ids are fixed, closing is final, and an object the goroutine does not refer to stays as it is.\<close>

definition object_frame :: "ppc \<Rightarrow> dpool \<Rightarrow> dpool \<Rightarrow> bool" where
  "object_frame t p p' \<longleftrightarrow> (\<forall>x < length (dp_objects p). c_id (obj p' x) = c_id (obj p x)
     \<and> (closing (obj p x) \<longrightarrow> closing (obj p' x)) \<and> (x \<notin> refs t \<longrightarrow> obj p' x = obj p x)
     \<and> (c_driver (obj p' x) = c_driver (obj p x) \<or> t = Rebuild x RDriver))"

lemma local_step_frame:
  assumes "local_step ch t p = Some (t', new, p')" "\<not> closer t"
  shows "object_frame t p p'"
  using assms(1)
proof (cases rule: local_step_cases)
  case start
  then show ?thesis by (auto simp: object_frame_def start_step_def pool_simps split: task.splits option.splits)
next
  case (get g)
  then show ?thesis
    by (cases "(ch, g, p)" rule: get_step.cases)
      (auto simp: object_frame_def pool_simps op_eqs closing_ops split: if_splits option.splits prod.splits)
next
  case (use_conn r t0 u)
  show ?thesis
  proof (cases u)
    case (Probing b)
    then show ?thesis using use_conn id_driver_check closing_check
      by (auto simp: object_frame_def check_record_def pool_simps split: option.splits)
  qed (use use_conn in \<open>auto simp: object_frame_def hold_step_def pool_simps op_eqs Release_def closing_ops
        split: if_splits task.splits\<close>)
next
  case (rebuild r q)
  then show ?thesis
    by (cases q) (auto simp: object_frame_def pool_simps op_eqs closing_ops rebuild_driver_def createReplacementConnection_def
        split: if_splits prod.splits dest: createConnection_fields(1))
next
  case (task k)
  then show ?thesis using assms(2)
    by (cases "(ch, k, p)" rule: task_step.cases)
      (auto simp: object_frame_def pool_simps split: if_splits option.splits prod.splits dest: cleanup_delete_fields(1))
qed


section \<open>An invariant of the map and of the connections in flight\<close>

definition open_conn :: "dpool \<Rightarrow> nat \<Rightarrow> bool" where
  "open_conn p x \<longleftrightarrow> c_driver (obj p x) = Some x \<and> x \<notin> set (dp_closed p)"

definition pool_ok :: "dpool \<Rightarrow> bool" where
  "pool_ok p \<longleftrightarrow> (\<forall>(k, x) \<in> set (dp_connections p). c_id (obj p x) = k)
     \<and> (\<forall>x < length (dp_objects p). c_driver (obj p x) \<in> {None, Some x})
     \<and> (\<forall>x \<in> mapped p. open_conn p x \<or> closing (obj p x))"

fun point_ok :: "dpool \<Rightarrow> ppc \<Rightarrow> bool" where
  "point_ok p (Getting (Dialled a r)) = (r \<notin> mapped p \<and> fresh_conn (obj p r) \<and> open_conn p r)"
| "point_ok p (Task (WInsert r)) = (r \<notin> mapped p \<and> fresh_conn (obj p r) \<and> open_conn p r)"
| "point_ok p (Rebuild r (RInsert r')) = (r' \<notin> mapped p \<and> fresh_conn (obj p r') \<and> open_conn p r' \<and> closing (obj p r))"
| "point_ok p (Rebuild r q) = (q \<in> {RDriver, RRemove, RClosed, RDial} \<longrightarrow> closing (obj p r))"
| "point_ok p (Task (CJudge now k r ks)) = (c_id (obj p r) = k)"
| "point_ok p (Task (CDelete now k r s ks)) = (c_id (obj p r) = k)"
| "point_ok p (Task (CForce r)) = (r \<notin> mapped p)"
| "point_ok p t = (\<not> closer t)"

lemma open_conn_fields [pool_simps]:
  "c_driver (f (obj p r)) = c_driver (obj p r) \<Longrightarrow> open_conn (upd_obj r f p) x = open_conn p x"
  "open_conn (count_active d p) x = open_conn p x" "open_conn (add_connection r p) x = open_conn p x"
  "open_conn (activateConnection p) x = open_conn p x" "open_conn (count_destroyed p) x = open_conn p x"
  "open_conn (rebuild_remove r p) x = open_conn p x" "open_conn (updateMetrics p) x = open_conn p x"
  by (auto simp: open_conn_def pool_simps)

lemma open_conn_close: "open_conn p x \<Longrightarrow> c_driver (obj p r) \<in> {None, Some r} \<Longrightarrow> x \<noteq> r \<Longrightarrow> open_conn (close_driver r p) x"
  by (auto simp: open_conn_def pool_simps dest: close_driver_closed)

lemma AList_update_set: "set (AList.update k v xs) \<subseteq> insert (k, v) (set xs)"
  by (induction xs) auto

lemma pool_ok_upd:
  assumes "pool_ok p" "c_id (f (obj p r)) = c_id (obj p r)" "c_driver (f (obj p r)) = c_driver (obj p r)"
    "closing (obj p r) \<Longrightarrow> closing (f (obj p r))"
  shows "pool_ok (upd_obj r f p)"
  using assms by (auto simp: pool_ok_def pool_simps)

lemma pool_ok_add:
  assumes "pool_ok p" "open_conn p r"
  shows "pool_ok (add_connection r p)"
  using assms AList_update_set [of "c_id (obj p r)" r "dp_connections p"]
  by (fastforce simp: pool_ok_def pool_simps dest: mapped_add)

lemma pool_ok_delete:
  assumes "pool_ok p"
  shows "pool_ok (p\<lparr>dp_connections := AList.delete k (dp_connections p), dp_stats := s\<rparr>)"
  using assms by (auto simp: pool_ok_def mapped_def AList.delete_eq open_conn_def)

lemma pool_ok_close:
  assumes "pool_ok p" "r < length (dp_objects p)" "r \<notin> mapped p \<or> closing (obj p r)"
  shows "pool_ok (close_driver r p)"
  using assms open_conn_close [of p _ r] by (auto simp: pool_ok_def pool_simps)

lemma pool_ok_same [pool_simps]:
  "pool_ok (count_active d p) = pool_ok p" "pool_ok (activateConnection p) = pool_ok p"
  "pool_ok (count_destroyed p) = pool_ok p" "pool_ok (updateMetrics p) = pool_ok p"
  by (simp_all add: pool_ok_def pool_simps)

lemma pool_ok_create:
  assumes "pool_ok p" "createConnection now p = (r, p1)" "mapped p \<subseteq> {..<length (dp_objects p)}"
  shows "pool_ok p1"
proof -
  have "c_driver (obj p1 x) \<in> {None, Some x}" if "x < length (dp_objects p1)" for x
    using assms(1) that createConnection_fields [OF assms(2)] createConnection_new(2) [OF assms(2)]
    by (cases "x = r") (auto simp: pool_ok_def)
  moreover have "obj p1 x = obj p x" if "x \<in> mapped p" for x
    using createConnection_fields(3) [OF assms(2)] assms(3) that by auto
  ultimately show ?thesis
    using assms(1) createConnection_fields(4) [OF assms(2)]
    unfolding pool_ok_def open_conn_def mapped_def by fastforce
qed


text \<open>A step keeps the pool and its own point well-formed; it maps only its pending connection,
  closes only drivers of connections it refers to, and a connection becomes pending only when it
  is created.\<close>

definition step_ok :: "ppc \<Rightarrow> dpool \<Rightarrow> ppc \<Rightarrow> ppc list \<Rightarrow> dpool \<Rightarrow> bool" where
  "step_ok t p t' new p' \<longleftrightarrow> pool_ok p' \<and> (\<forall>x \<in> set (t' # new). point_ok p' x)
     \<and> mapped p' \<subseteq> mapped p \<union> set_option (pending t) \<and> set (dp_closed p') \<subseteq> set (dp_closed p) \<union> refs t
     \<and> pending t' \<in> {None, Some (length (dp_objects p))}"

lemma create_ok:
  assumes "createConnection now p = (r, p1)" "mapped p \<subseteq> {..<length (dp_objects p)}"
    "set (dp_closed p) \<subseteq> {..<length (dp_objects p)}"
  shows "r \<notin> mapped p1 \<and> fresh_conn (obj p1 r) \<and> open_conn p1 r"
  using assms createConnection_fields [OF assms(1)] createConnection_new [OF assms(1)]
  by (auto simp: open_conn_def pool_simps)

lemma start_step_ok:
  assumes "start_step ch p = Some (t', new, p')" "\<not> dp_isShuttingDown p'" "pool_ok p"
  shows "step_ok Outside p t' new p'"
  using assms by (auto simp: step_ok_def start_step_def pool_simps split: task.splits option.splits if_splits)

lemma dialled_step_ok:
  assumes "get_step ch (Dialled a r) p = Some (t', new, p')" "r < length (dp_objects p)"
    "pool_ok p" "point_ok p (Getting (Dialled a r))"
  shows "step_ok (Getting (Dialled a r)) p t' new p'"
proof -
  let ?q = "upd_obj r (\<lambda>c. snd (tryAcquireForTask (ch_now ch) c)) (add_connection r p)"
  have r: "r \<notin> mapped p" "open_conn p r" using assms by auto
  have q: "pool_ok ?q"
    by (rule pool_ok_upd) (use pool_ok_add assms r in \<open>auto simp: closing_ops\<close>)
  have c: "pool_ok (close_driver r p)" using assms r pool_ok_close by blast
  have d: "set (dp_closed (close_driver r p)) \<subseteq> insert r (set (dp_closed p))"
    using r(2) close_driver_closed [of _ r p] by (auto simp: open_conn_def)
  have m: "mapped (add_connection r p) \<subseteq> insert r (mapped p)" using mapped_add by blast
  have "(t', new, p') \<in> {(Getting (Pause a), [], close_driver r p), (Getting (Got r), [], count_active 1 ?q), (Getting Failed, [], ?q)}"
    using assms(1) by (simp add: insert_new_eq split: if_splits)
  then show ?thesis using q c d m by (elim insertE) (simp_all add: step_ok_def pool_simps subset_insertI)
qed

lemma get_step_ok:
  assumes "get_step ch g p = Some (t', new, p')" "refs (Getting g) \<union> mapped p \<union> set (dp_closed p) \<subseteq> {..<length (dp_objects p)}"
    "pool_ok p" "point_ok p (Getting g)"
  shows "step_ok (Getting g) p t' new p'"
proof (cases "(ch, g, p)" rule: get_step.cases)
  case (4 ch a r ks p)
  have "pool_ok (upd_obj r (\<lambda>c. snd (tryAcquireForTask (ch_now ch) c)) p)"
    by (rule pool_ok_upd) (use assms(3) 4 in \<open>auto simp: closing_ops\<close>)
  then show ?thesis using assms 4 by (auto simp: step_ok_def op_eqs pool_simps)
next
  case (7 ch a p)
  then show ?thesis using assms create_ok [of _ p] pool_ok_create [of p]
    by (auto simp: step_ok_def pool_simps split: if_splits prod.splits dest: createConnection_fields(1))
next
  case (8 ch a r p)
  then show ?thesis using assms dialled_step_ok by auto
qed (use assms in \<open>auto simp: step_ok_def pool_simps split: if_splits option.splits\<close>)


lemma use_step_ok:
  assumes "use_step ch r t0 u p = Some (t', new, p')" "pool_ok p"
  shows "step_ok (Client r t0 u) p t' new p'"
proof -
  have "\<exists>f d. p' \<in> {p, upd_obj r f p, count_active d (upd_obj r f p)} \<and> c_id (f (obj p r)) = c_id (obj p r)
      \<and> c_driver (f (obj p r)) = c_driver (obj p r) \<and> (closing (obj p r) \<longrightarrow> closing (f (obj p r)))"
    and t: "new = [] \<and> (\<forall>q. point_ok q t') \<and> pending t' = None"
  proof -
    show "new = [] \<and> (\<forall>q. point_ok q t') \<and> pending t' = None"
      using assms(1) by (cases u) (auto simp: hold_step_def op_eqs split: if_splits task.splits)
    show "\<exists>f d. p' \<in> {p, upd_obj r f p, count_active d (upd_obj r f p)} \<and> c_id (f (obj p r)) = c_id (obj p r)
      \<and> c_driver (f (obj p r)) = c_driver (obj p r) \<and> (closing (obj p r) \<longrightarrow> closing (f (obj p r)))"
    proof (cases u)
      case (Hold ok)
      then show ?thesis using assms(1)
        by (auto simp: hold_step_def op_eqs Release_def closing_ops split: task.splits if_splits intro!: exI)
    next
      case (Probing ok)
      then show ?thesis using assms(1) id_driver_check closing_check
        by (fastforce simp: check_record_def split: option.splits)
    qed (use assms(1) in \<open>auto simp: op_eqs closing_ops split: if_splits intro!: exI\<close>)
  qed
  then obtain f d where f: "p' \<in> {p, upd_obj r f p, count_active d (upd_obj r f p)}" "c_id (f (obj p r)) = c_id (obj p r)"
      "c_driver (f (obj p r)) = c_driver (obj p r)" "closing (obj p r) \<longrightarrow> closing (f (obj p r))" by blast
  then have "pool_ok (upd_obj r f p)" using pool_ok_upd assms(2) by blast
  then show ?thesis using f(1) t assms(2) by (elim insertE) (auto simp: step_ok_def pool_simps)
qed

lemma rebuild_step_ok:
  assumes "rebuild_step ch r q p = Some (t', new, p')" "pool_ok p" "point_ok p (Rebuild r q)"
    "refs (Rebuild r q) \<union> mapped p \<union> set (dp_closed p) \<subseteq> {..<length (dp_objects p)}"
  shows "step_ok (Rebuild r q) p t' new p'"
proof (cases q)
  case RClose
  have "pool_ok (upd_obj r (\<lambda>c. snd (beginClose c)) p)"
    by (rule pool_ok_upd) (use assms(2) in \<open>auto simp: closing_ops\<close>)
  then show ?thesis using assms RClose
    by (auto simp: step_ok_def op_eqs pool_simps closing_def beginClose_state split: if_splits)
      (auto simp: conn_simps canTransitionTo_def)
next
  case RDriver
  have r: "r < length (dp_objects p)" "closing (obj p r)" using assms RDriver by auto
  have "pool_ok (upd_obj r (\<lambda>c. c\<lparr>c_driver := None\<rparr>) (close_driver r p))"
    using pool_ok_close [OF assms(2) r(1)] r by (auto simp: pool_ok_def open_conn_def pool_simps closing_ops)
  moreover have "c_driver (obj p r) \<in> {None, Some r}" using assms(2) r by (auto simp: pool_ok_def)
  ultimately show ?thesis using assms r RDriver close_driver_set [of p r]
    by (auto simp: step_ok_def rebuild_driver_def pool_simps closing_ops)
next
  case RRemove
  have "pool_ok (rebuild_remove r p)" using pool_ok_delete [OF assms(2)] by (simp add: rebuild_remove_def)
  then show ?thesis using assms RRemove by (auto simp: step_ok_def pool_simps)
next
  case RDial
  then show ?thesis
  proof (cases "ch_fails ch")
    case False
    obtain r' p1 where c: "createConnection (ch_now ch) p = (r', p1)" by fastforce
    have n: "r' \<notin> mapped p1" "fresh_conn (obj p1 r')" "open_conn p1 r'" "pool_ok p1"
      using create_ok [OF c] pool_ok_create [OF assms(2) c] assms(4) by auto
    have "pool_ok (upd_obj r' (setLastRebuiltAt (ch_now ch)) p1)"
      by (rule pool_ok_upd) (use n in \<open>auto simp: setLastRebuiltAt_def closing_def\<close>)
    moreover have "closing (obj p1 r)" "r' \<noteq> r" using RDial assms createConnection_fields(1,3) [OF c] by auto
    ultimately show ?thesis using assms(1) RDial False c n createConnection_fields [OF c]
      by (auto simp: step_ok_def createReplacementConnection_def pool_simps fresh_conn_def setLastRebuiltAt_def)
  qed (use assms in \<open>auto simp: step_ok_def\<close>)
next
  case (RInsert r')
  then show ?thesis using assms pool_ok_add [of p r'] by (auto simp: step_ok_def pool_simps dest: mapped_add)
next
  case RBegin
  have "pool_ok (upd_obj r (\<lambda>c. snd (beginRebuild c)) p)"
    by (rule pool_ok_upd) (use assms(2) in \<open>auto simp: closing_ops\<close>)
  then show ?thesis using assms RBegin by (auto simp: step_ok_def op_eqs pool_simps)
next
  case RClosed
  have "pool_ok (upd_obj r (\<lambda>c. snd (completeClose c)) p)"
    by (rule pool_ok_upd) (use assms(2) in \<open>auto simp: closing_ops\<close>)
  then show ?thesis using assms RClosed by (auto simp: step_ok_def pool_simps closing_ops)
next
  case (RFinish ok)
  have "pool_ok (upd_obj r (completeRebuild ok) p)"
    by (rule pool_ok_upd) (use assms(2) in \<open>auto simp: closing_ops\<close>)
  then show ?thesis using assms RFinish by (auto simp: step_ok_def pool_simps)
qed (use assms in \<open>auto simp: step_ok_def\<close>)

lemma cleanup_delete_cases:
  obtains "cleanup_delete k s p = (False, p)"
  | st where "cleanup_delete k s p = (True, p\<lparr>dp_connections := AList.delete k (dp_connections p), dp_stats := st\<rparr>)"
  unfolding cleanup_delete_def Let_def by (cases "map_of (dp_connections p) k = None") auto

lemma delete_step_ok:
  assumes "task_step ch (CDelete now k r s ks) p = Some (t', new, p')" "pool_ok p" "c_id (obj p r) = k"
  shows "step_ok (Task (CDelete now k r s ks)) p t' new p'"
proof -
  let ?q = "\<lambda>st. p\<lparr>dp_connections := AList.delete k (dp_connections p), dp_stats := st\<rparr>"
  have m: "r \<notin> mapped (?q st)" "mapped (?q st) \<subseteq> mapped p" for st
    using assms(2,3) by (auto simp: AList.delete_eq pool_ok_def mapped_def)
  have ok: "pool_ok (?q st)" for st by (rule pool_ok_delete [OF assms(2)])
  show ?thesis
  proof (cases rule: cleanup_delete_cases [of k s p])
    case 1
    then show ?thesis using assms(1,2) by (auto simp: step_ok_def)
  next
    case (2 st)
    then have "t' = Task (CSweep now ks)" "new = [Task (CForce r)]" "p' = ?q st" using assms(1) by simp_all
    then show ?thesis using m [of st] ok [of st] by (simp add: step_ok_def subset_insertI)
  qed
qed

lemma task_step_ok:
  assumes "task_step ch k p = Some (t', new, p')" "pool_ok p" "point_ok p (Task k)"
    "refs (Task k) \<union> mapped p \<union> set (dp_closed p) \<subseteq> {..<length (dp_objects p)}"
  shows "step_ok (Task k) p t' new p'"
proof (cases "(ch, k, p)" rule: task_step.cases)
  case (3 ch now k' ks p)
  then show ?thesis using assms
    by (auto simp: step_ok_def pool_ok_def split: option.splits dest!: map_of_SomeD)
next
  case (5 ch now k' r s ks p)
  then show ?thesis using assms delete_step_ok by auto
next
  case (6 ch r p)
  then show ?thesis using assms pool_ok_close [of p r] close_driver_set [of p r]
    by (auto simp: step_ok_def pool_simps pool_ok_def split: if_splits)
next
  case (7 ch a p)
  then show ?thesis using assms create_ok [of _ p] pool_ok_create [of p]
    by (auto simp: step_ok_def pool_simps split: if_splits prod.splits dest: createConnection_fields(1))
next
  case (8 ch r p)
  then show ?thesis using assms pool_ok_add [of p r] by (auto simp: step_ok_def pool_simps dest: mapped_add)
qed (use assms in \<open>auto simp: step_ok_def split: if_splits option.splits\<close>)


lemma local_step_ok:
  assumes "local_step ch t p = Some (t', new, p')" "\<not> dp_isShuttingDown p'" "pool_ok p" "point_ok p t"
    "refs t \<union> mapped p \<union> set (dp_closed p) \<subseteq> {..<length (dp_objects p)}"
  shows "step_ok t p t' new p'"
  using assms(1)
proof (cases rule: local_step_cases)
  case start
  then show ?thesis using start_step_ok assms(2,3) by simp
next
  case (get g)
  then show ?thesis using get_step_ok [OF get(2)] assms(3-5) by simp
next
  case (use_conn r t0 u)
  then show ?thesis using use_step_ok [OF use_conn(2)] assms(3) by simp
next
  case (rebuild r q)
  then show ?thesis using rebuild_step_ok [OF rebuild(2)] assms(3-5) by simp
next
  case (task k)
  then show ?thesis using task_step_ok [OF task(2)] assms(3-5) by simp
qed

lemma point_ok_not_closer: "point_ok p t \<Longrightarrow> \<not> closer t"
  by (cases t rule: closer.cases) auto

lemma point_ok_pending: "point_ok p t \<Longrightarrow> pending t = Some r \<Longrightarrow> r \<notin> mapped p \<and> fresh_conn (obj p r) \<and> open_conn p r"
  by (cases t rule: pending.cases) auto

lemma pending_refs: "pending t = Some r \<Longrightarrow> r \<in> refs t"
  by (cases t rule: pending.cases) auto

text \<open>A point of another goroutine stays well-formed.\<close>

lemma point_ok_other:
  assumes "point_ok p u" "object_frame t p p'" "refs u \<subseteq> {..<length (dp_objects p)}"
    "mapped p' \<subseteq> mapped p \<union> set_option (pending t)" "set (dp_closed p') \<subseteq> set (dp_closed p) \<union> refs t"
    "\<And>r. pending t = Some r \<Longrightarrow> r \<notin> refs u" "\<And>r. pending u = Some r \<Longrightarrow> r \<notin> refs t"
  shows "point_ok p' u"
proof -
  have pend: "r \<notin> mapped p' \<and> fresh_conn (obj p' r) \<and> open_conn p' r" if "pending u = Some r" for r
  proof -
    have r: "r < length (dp_objects p)" "r \<notin> refs t" "r \<notin> mapped p" "fresh_conn (obj p r)" "open_conn p r"
      using that assms(3,7) pending_refs [OF that] point_ok_pending [OF assms(1) that] by auto
    then have "obj p' r = obj p r" using assms(2) by (simp add: object_frame_def)
    moreover have "r \<notin> mapped p'" using r assms(4,6) pending_refs [OF that] by (cases "pending t") auto
    moreover have "r \<notin> set (dp_closed p')" using r assms(5) by (auto simp: open_conn_def)
    ultimately show ?thesis using r by (simp add: open_conn_def)
  qed
  have forced: "r \<notin> mapped p'" if "u = Task (CForce r)" for r
    using that assms(1,4,6) by (cases "pending t") auto
  show ?thesis using assms(1-3) pend forced
    by (cases u rule: point_ok.cases [of "(p, u)" for u, simplified]) (auto simp: object_frame_def)
qed

definition flight_ok :: "psys \<Rightarrow> bool" where
  "flight_ok s \<longleftrightarrow> (case s of (p, ts) \<Rightarrow> \<not> dp_isShuttingDown p \<longrightarrow>
     set (dp_closed p) \<subseteq> {..<length (dp_objects p)} \<and> pool_ok p \<and> (\<forall>t \<in> set ts. point_ok p t)
     \<and> (\<forall>i < length ts. \<forall>j < length ts. i \<noteq> j \<longrightarrow> set_option (pending (ts ! i)) \<inter> refs (ts ! j) = {}))"

lemma flight_ok_step:
  assumes "refs_ok s" "flight_ok s" "pool_step i ch s = Some s'"
  shows "flight_ok s'"
proof -
  obtain p ts where s: "s = (p, ts)" by (cases s)
  obtain t new p' where st: "i < length ts" "local_step ch (ts ! i) p = Some (t, new, p')" "s' = (p', ts[i := t] @ new)"
    using assms(3) s by (auto elim: pool_stepE)
  let ?u = "ts ! i" and ?n = "length (dp_objects p)" and ?us = "ts[i := t] @ new"
  show ?thesis
  proof (cases "dp_isShuttingDown p'")
    case False
    then have "\<not> dp_isShuttingDown p" using local_step_shutdown [OF st(2)] by simp
    then have f: "set (dp_closed p) \<subseteq> {..<?n}" "pool_ok p" "\<And>x. x \<in> set ts \<Longrightarrow> point_ok p x"
        "\<And>j k r. j < length ts \<Longrightarrow> k < length ts \<Longrightarrow> j \<noteq> k \<Longrightarrow> pending (ts ! j) = Some r \<Longrightarrow> r \<notin> refs (ts ! k)"
      using assms(2) s unfolding flight_ok_def by (auto simp: disjoint_iff)
    have r: "mapped p \<subseteq> {..<?n}" "\<And>x. x \<in> set ts \<Longrightarrow> refs x \<subseteq> {..<?n}" using assms(1) s by (auto simp: refs_ok_def)
    have u: "point_ok p ?u" "refs ?u \<subseteq> {..<?n}" using st(1) f(3) r(2) by simp_all
    have ok: "step_ok ?u p t new p'" using local_step_ok [OF st(2) False f(2) u(1)] u(2) r(1) f(1) by blast
    have fr: "object_frame ?u p p'" using local_step_frame [OF st(2) point_ok_not_closer [OF u(1)]] .
    note rf = local_step_refs [OF st(2)]
    have other: "point_ok p' (ts ! j)" if "j < length ts" "j \<noteq> i" for j
    proof (rule point_ok_other [OF _ fr])
      show "point_ok p (ts ! j)" "refs (ts ! j) \<subseteq> {..<?n}" using that(1) f(3) r(2) by simp_all
      show "mapped p' \<subseteq> mapped p \<union> set_option (pending ?u)" "set (dp_closed p') \<subseteq> set (dp_closed p) \<union> refs ?u"
        using ok by (simp_all add: step_ok_def)
      show "q \<notin> refs (ts ! j)" if "pending ?u = Some q" for q using f(4) [OF st(1) \<open>j < length ts\<close> _ that] \<open>j \<noteq> i\<close> by simp
      show "q \<notin> refs ?u" if "pending (ts ! j) = Some q" for q using f(4) [OF \<open>j < length ts\<close> st(1) _ that] \<open>j \<noteq> i\<close> by simp
    qed
    have own: "x \<in> set (t # new) \<Longrightarrow> point_ok p' x" for x using ok unfolding step_ok_def by blast
    have new: "pending x = None \<and> refs x \<subseteq> refs ?u" if "x \<in> set new" for x
    proof -
      have "\<forall>x \<in> set new. \<exists>q. q \<in> refs ?u \<and> x = Task (CForce q)" using rf by (elim conjE)
      from bspec [OF this that] obtain q where "q \<in> refs ?u" "x = Task (CForce q)" by (elim exE conjE)
      then show ?thesis by simp
    qed
    have at: "(?us ! j \<in> set new) \<or> (j = i \<and> ?us ! j = t) \<or> (j < length ts \<and> j \<noteq> i \<and> ?us ! j = ts ! j)" if "j < length ?us" for j
      using that by (cases "j < length ts"; cases "j = i") (auto simp: nth_append)
    have "set (dp_closed p') \<subseteq> {..<length (dp_objects p')}"
      using ok f(1) u(2) rf unfolding step_ok_def by (meson Un_least lessThan_subset_iff order_trans)
    moreover have "pool_ok p'" using ok by (simp add: step_ok_def)
    moreover have "point_ok p' x" if mem: "x \<in> set ?us" for x
    proof -
      obtain j where "j < length ?us" "x = ?us ! j" using mem unfolding in_set_conv_nth by blast
      then show ?thesis using at [of j] own other by auto
    qed
    moreover have "q \<notin> refs (?us ! k)" if "j < length ?us" "k < length ?us" "j \<noteq> k" "pending (?us ! j) = Some q" for j k q
    proof -
      have t: "q = ?n" if "pending t = Some q" using ok that by (auto simp: step_ok_def)
      have j: "(j = i \<and> q = ?n \<and> pending t = Some q) \<or> (j < length ts \<and> j \<noteq> i \<and> pending (ts ! j) = Some q)"
        using at [OF that(1)] new that(4) t by auto
      have old: "k < length ts \<Longrightarrow> k \<noteq> i \<Longrightarrow> q \<notin> refs (ts ! k)"
        using j f(4) r(2) that(3) by (metis lessThan_iff less_irrefl nth_mem subsetD)
      have q: "q \<notin> refs ?u" using j f(4) [of j i q] u(2) st(1) by auto
      have "j \<noteq> i \<Longrightarrow> q \<notin> refs t"
      proof -
        assume ji: "j \<noteq> i"
        then have p: "j < length ts" "pending (ts ! j) = Some q" using j by auto
        then have m: "ts ! j \<in> set ts" by simp
        have "q < ?n" using r(2) [OF m] pending_refs [OF p(2)] by blast
        moreover have "q \<notin> mapped p" using point_ok_pending [OF f(3) [OF m] p(2)] by blast
        moreover have "refs t \<subseteq> refs ?u \<union> mapped p \<union> {?n..<length (dp_objects p')}" using rf by simp
        ultimately show "q \<notin> refs t" using q by auto
      qed
      then show ?thesis using at [OF that(2)] new q old that(3) by auto
    qed
    ultimately show ?thesis unfolding flight_ok_def st(3) prod.case by (auto simp: disjoint_iff)
  qed (simp add: flight_ok_def st(3))
qed

lemma pool_reach_flight: "pool_reach A cfg n s \<Longrightarrow> flight_ok s"
proof (induction rule: pool_reach.induct)
  case pool_init
  show ?case by (auto simp: flight_ok_def NewDriverPool_def pool_ok_def mapped_def)
next
  case (pool_next s ch i s')
  then show ?case using flight_ok_step pool_invariant by blast
qed

lemma fresh_acquired: "fresh_conn c \<Longrightarrow> fst (tryAcquireForTask now c)"
  by (simp add: fresh_conn_def conn_simps canTransitionTo_def)

text \<open>C7: Until the pool is closed, the map is keyed by the ids of its connections, and every connection
  in it that has not begun to close has an open driver of its own; a connection that a goroutine
  has just dialled is open, known to no other goroutine, and when there is room for it, it is
  always acquired by the goroutine that created it.\<close>

theorem pool_connections_open:
  assumes "pool_reach A cfg n (p, ts)" "\<not> dp_isShuttingDown p"
  shows "(\<forall>(k, r) \<in> set (dp_connections p). c_id (obj p r) = k
      \<and> (c_state (obj p r) \<notin> {StateClosing, StateClosed} \<longrightarrow> c_driver (obj p r) = Some r \<and> r \<notin> set (dp_closed p)))
    \<and> (\<forall>a r now. Getting (Dialled a r) \<in> set ts \<longrightarrow> c_driver (obj p r) = Some r \<and> r \<notin> set (dp_closed p)
      \<and> fst (insert_new now r p) \<noteq> None)"
proof -
  have f: "pool_ok p" "\<And>t. t \<in> set ts \<Longrightarrow> point_ok p t"
    using pool_reach_flight [OF assms(1)] assms(2) by (auto simp: flight_ok_def)
  have "c_id (obj p r) = k \<and> (c_state (obj p r) \<notin> {StateClosing, StateClosed} \<longrightarrow> c_driver (obj p r) = Some r \<and> r \<notin> set (dp_closed p))"
    if "(k, r) \<in> set (dp_connections p)" for k r
  proof -
    have "r \<in> mapped p" using that by (force simp: mapped_def)
    then show ?thesis using f(1) that by (auto simp: pool_ok_def open_conn_def closing_def)
  qed
  moreover have "c_driver (obj p r) = Some r \<and> r \<notin> set (dp_closed p) \<and> fst (insert_new now r p) \<noteq> None"
    if "Getting (Dialled a r) \<in> set ts" for a r now
    using f(2) [OF that] fresh_acquired by (auto simp: open_conn_def insert_new_eq)
  ultimately show ?thesis by blast
qed

theorem pool_connections_open_witness:
  "\<exists>p ts. pool_reach {TaskGet} NewConfigBuilder 2 (p, ts) \<and> Getting (Dialled 0 0) \<in> set ts
     \<and> c_driver (obj p 0) = Some 0 \<and> fst (insert_new 7 0 p) \<noteq> None"
proof -
  have 1: "case pool_exec (take 5 (get_new 0 5)) (two_goroutines NewConfigBuilder) of None \<Rightarrow> False
    | Some (p, ts) \<Rightarrow> \<not> dp_isShuttingDown p \<and> ts = [Getting (Dialled 0 0), Outside]" by code_simp
  have 2: "ch_task ` snd ` set (take 5 (get_new 0 5)) \<subseteq> {TaskGet}" by code_simp
  obtain p where r: "pool_reach {TaskGet} NewConfigBuilder 2 (p, [Getting (Dialled 0 0), Outside])" "\<not> dp_isShuttingDown p"
    using schedule_reaches [OF 1 2] by blast
  have "Getting (Dialled 0 0) \<in> set [Getting (Dialled 0 0), Outside]" by simp
  then have "c_driver (obj p 0) = Some 0" "fst (insert_new 7 0 p) \<noteq> None"
    using pool_connections_open [OF r] by blast+
  with r show ?thesis by (metis list.set_intros(1))
qed

end
