(* ===== verification/Conn_Pool_Alone.thy ===== *)
theory Conn_Pool_Alone
  imports Conn_Pool_Runs
begin

text \<open>
  What the cleaner, a rebuild and \<open>Close\<close> do when no other goroutine interferes: the decision of
  the cleaner as one condition, a sweep, a rebuild with and without a successful dial, and the
  closing of the pool.
\<close>

section \<open>Running one goroutine\<close>

lemma pool_exec_append:
  "pool_exec (xs @ ys) s = (case pool_exec xs s of None \<Rightarrow> None | Some s' \<Rightarrow> pool_exec ys s')"
  by (induction xs s rule: pool_exec.induct) (simp_all split: option.split)

lemma pool_exec_step:
  assumes "i < length ts" "local_step ch (ts ! i) p = Some (t, new, p')"
  shows "pool_exec ((i, ch) # acts) (p, ts) = pool_exec acts (p', ts[i := t] @ new)"
  using assms by (simp add: pool_step_def)

section \<open>The cleaner\<close>

text \<open>How long a connection may stay unused, by its state.\<close>

definition idle_limit :: "config \<Rightarrow> pconn \<Rightarrow> duration" where
  "idle_limit cfg c = (if c_state c \<noteq> StateIdle then stuck_timeout cfg (c_state c)
     else if c_rebuilding c then or_default (StuckTimeoutRebuildIdle cfg) (2 * Minute) else MaxIdleTime cfg)"


definition kept_by_sweep :: "gtime \<Rightarrow> dpool \<Rightarrow> string set \<Rightarrow> (string \<times> nat) list" where
  "kept_by_sweep now p K = filter (\<lambda>(k, r). k \<in> K \<longrightarrow> \<not> shouldCleanupConnection (dp_config p) (obj p r) now) (dp_connections p)"

lemma distinct_unique: "distinct (map fst xs) \<Longrightarrow> (k, r) \<in> set xs \<Longrightarrow> (k, r') \<in> set xs \<Longrightarrow> r = r'"
  by (metis eq_key_imp_eq_value)

lemma sweep_run:
  assumes "i < length ts" "ts ! i = Task (CSweep now ks)" "distinct (map fst (dp_connections p))"
  shows "\<exists>m p' new. pool_exec (replicate m (i, ch)) (p, ts) = Some (p', ts[i := Outside] @ new)
    \<and> dp_objects p' = dp_objects p \<and> dp_config p' = dp_config p \<and> dp_connections p' = kept_by_sweep now p (set ks)"
  using assms
proof (induction ks arbitrary: p ts)
  case Nil
  then have "pool_exec (replicate 1 (i, ch)) (p, ts) = Some (p, ts[i := Outside] @ [])"
    by (simp add: pool_step_def)
  then show ?case by (intro exI [of _ 1] exI [of _ p] exI [of _ "[]"]) (simp add: kept_by_sweep_def)
next
  case (Cons k ks)
  let ?go = "\<lambda>t. ts[i := t]"
  show ?case
  proof (cases "map_of (dp_connections p) k")
    case None
    then have k: "k \<notin> fst ` set (dp_connections p)" by (simp add: map_of_eq_None_iff)
    obtain m p' new where r: "pool_exec (replicate m (i, ch)) (p, ?go (Task (CSweep now ks))) = Some (p', ?go Outside @ new)"
        "dp_objects p' = dp_objects p" "dp_config p' = dp_config p" "dp_connections p' = kept_by_sweep now p (set ks)"
      using Cons.IH [of "?go (Task (CSweep now ks))" p] Cons.prems by auto
    have "pool_exec (replicate (Suc m) (i, ch)) (p, ts) = Some (p', ?go Outside @ new)"
      using Cons.prems None r(1) by (simp add: pool_step_def)
    moreover have "kept_by_sweep now p (set (k # ks)) = kept_by_sweep now p (set ks)"
      using k unfolding kept_by_sweep_def by (intro filter_cong) (force split: prod.splits)+
    ultimately show ?thesis using r by metis
  next
    case (Some r)
    let ?bad = "shouldCleanupConnection (dp_config p) (obj p r) now"
    show ?thesis
    proof (cases ?bad)
      case False
      obtain m p' new where r: "pool_exec (replicate m (i, ch)) (p, ?go (Task (CSweep now ks))) = Some (p', ?go Outside @ new)"
          "dp_objects p' = dp_objects p" "dp_config p' = dp_config p" "dp_connections p' = kept_by_sweep now p (set ks)"
        using Cons.IH [of "?go (Task (CSweep now ks))" p] Cons.prems by auto
      have "pool_exec (replicate (Suc (Suc m)) (i, ch)) (p, ts) = Some (p', ?go Outside @ new)"
        using Cons.prems Some False r(1) by (simp add: pool_step_def)
      moreover have "kept_by_sweep now p (set (k # ks)) = kept_by_sweep now p (set ks)"
        using False distinct_unique [OF Cons.prems(3) map_of_SomeD [OF Some]]
        unfolding kept_by_sweep_def by (intro filter_cong) auto
      ultimately show ?thesis using r by metis
    next
      case True
      obtain p1 where d: "cleanup_delete k (c_state (obj p r)) p = (True, p1)" "dp_objects p1 = dp_objects p"
          "dp_config p1 = dp_config p" "dp_connections p1 = AList.delete k (dp_connections p)"
        using Some by (auto simp: cleanup_delete_def Let_def)
      let ?ts = "?go (Task (CSweep now ks)) @ [Task (CForce r)]"
      have "distinct (map fst (dp_connections p1))" using Cons.prems(3) d(4) by (simp add: distinct_delete)
      then obtain m p' new where r: "pool_exec (replicate m (i, ch)) (p1, ?ts) = Some (p', ?ts[i := Outside] @ new)"
          "dp_objects p' = dp_objects p" "dp_config p' = dp_config p" "dp_connections p' = kept_by_sweep now p1 (set ks)"
        using Cons.IH [of ?ts p1] Cons.prems d by (auto simp: nth_append)
      have "pool_exec (replicate (Suc (Suc (Suc m))) (i, ch)) (p, ts) = Some (p', ?go Outside @ Task (CForce r) # new)"
        using Cons.prems Some True r(1) d(1) by (simp add: pool_step_def getStatus_def list_update_append)
      moreover have "kept_by_sweep now p1 (set ks) = kept_by_sweep now p (set (k # ks))"
        using True distinct_unique [OF Cons.prems(3) map_of_SomeD [OF Some]] d
        unfolding kept_by_sweep_def d AList.delete_eq filter_filter by (intro filter_cong) auto
      ultimately show ?thesis using r by metis
    qed
  qed
qed


text \<open>A sweep that no other goroutine interferes with removes exactly the connections that the
  decision names, whatever the order in which the map is ranged over.\<close>

theorem cleanup_alone:
  assumes "i < length ts" "ts ! i = Outside" "distinct (map fst (dp_connections p))" "ranges ks p"
  shows "\<exists>acts p' new. fst ` set acts = {i} \<and> pool_exec acts (p, ts) = Some (p', ts @ new)
    \<and> dp_connections p' = filter (\<lambda>(k, r). \<not> shouldCleanupConnection (dp_config p) (obj p r) now) (dp_connections p)"
proof -
  let ?ch = "turn now ks TaskCleanup" and ?ts = "ts[i := Task (CSweep now ks)]"
  obtain m p' new where r: "pool_exec (replicate m (i, ?ch)) (p, ?ts) = Some (p', ?ts[i := Outside] @ new)"
      "dp_connections p' = kept_by_sweep now p (set ks)"
    using sweep_run [of i ?ts now ks p ?ch] assms by auto
  have "?ts[i := Outside] = ts" using assms(2) by (metis list_update_id list_update_overwrite)
  then have "pool_exec (replicate (Suc (Suc m)) (i, ?ch)) (p, ts) = Some (p', ts @ new)"
    using assms r(1) by (simp add: pool_step_def start_step_def turn_def)
  moreover have "set ks = fst ` set (dp_connections p)" using assms(4) by (metis ranges_def set_map set_mset_mset)
  then have "dp_connections p' = filter (\<lambda>(k, r). \<not> shouldCleanupConnection (dp_config p) (obj p r) now) (dp_connections p)"
    unfolding r(2) kept_by_sweep_def by (intro filter_cong) force+
  moreover have "fst ` set (replicate (Suc (Suc m)) (i, ?ch)) = {i}" by auto
  ultimately show ?thesis by blast
qed

section \<open>A rebuild\<close>

lemma rebuild_ready:
  assumes "isIdle c" "c_usingCount c \<le> 0" "\<not> c_rebuilding c"
  shows "beginRebuild c = (True, c\<lparr>c_rebuilding := True\<rparr>)"
    "beginClose (c\<lparr>c_rebuilding := True\<rparr>) = (True, c\<lparr>c_rebuilding := True, c_state := StateClosing\<rparr>)"
  using assms by (simp_all add: conn_simps canTransitionTo_def isIdle_def)

text \<open>C19: A rebuild that no other goroutine interferes with closes the driver of an idle connection,
  takes the connection out of the map and out of service for good, and puts a new idle one with the
  driver it dialled in its place. When the dial fails the old connection is gone all the same, and
  its mark stays.\<close>

theorem rebuild_alone:
  assumes "i < length ts" "ts ! i = Outside" "findConnectionByID k p = Some r" "r < length (dp_objects p)"
    "isIdle (obj p r)" "c_usingCount (obj p r) \<le> 0" "\<not> c_rebuilding (obj p r)" "c_driver (obj p r) = Some d"
  shows "(\<exists>p' c. pool_exec (replicate 11 (i, turn now [] (TaskRebuild k))) (p, ts) = Some (p', ts)
      \<and> c_state c = StateIdle \<and> c_lastRebuiltAt c = now \<and> c_driver c = Some (length (dp_objects p))
      \<and> dp_objects p' = (dp_objects p)[r := (obj p r)\<lparr>c_state := StateClosed, c_driver := None, c_markedForRebuild := 0\<rparr>] @ [c]
      \<and> dp_connections p' = AList.update (c_id c) (length (dp_objects p)) (AList.delete (c_id (obj p r)) (dp_connections p))
      \<and> dp_closed p' = d # dp_closed p)
    \<and> (\<exists>p'. pool_exec (replicate 8 (i, turn now [] (TaskRebuild k))
          @ replicate 2 (i, (turn now [] (TaskRebuild k))\<lparr>ch_fails := True\<rparr>)) (p, ts) = Some (p', ts)
      \<and> dp_objects p' = (dp_objects p)[r := (obj p r)\<lparr>c_state := StateClosed, c_driver := None\<rparr>]
      \<and> dp_connections p' = AList.delete (c_id (obj p r)) (dp_connections p) \<and> dp_closed p' = d # dp_closed p)"
    (is "?A \<and> ?B")
proof -
  let ?ch = "turn now [] (TaskRebuild k)" and ?at = "\<lambda>q. ts[i := Rebuild r q]"
  let ?c = "(obj p r)\<lparr>c_rebuilding := True, c_driver := None, c_state := StateClosed\<rparr>"
  let ?old = "p\<lparr>dp_closed := d # dp_closed p, dp_connections := AList.delete (c_id (obj p r)) (dp_connections p),
    dp_stats := (dp_stats p)\<lparr>st_IdleConnections := st_IdleConnections (dp_stats p) - 1\<rparr>,
    dp_objects := (dp_objects p)[r := ?c]\<rparr>"
  note ready = rebuild_ready [OF assms(5-7)]
  have closed: "pool_exec (replicate 8 (i, ?ch)) (p, ts) = Some (?old, ?at RDial)"
    using assms ready
    by (simp add: numeral_eq_Suc pool_step_def start_step_def turn_def rebuild_begin_def rebuild_close_def rebuild_driver_def
        rebuild_remove_def upd_obj_def close_driver_def completeClose_def transitionStateLocked_def canTransitionTo_def)
  have unmark: "completeRebuild False ?c = (obj p r)\<lparr>c_state := StateClosed, c_driver := None\<rparr>"
      "completeRebuild True ?c = (obj p r)\<lparr>c_state := StateClosed, c_driver := None, c_markedForRebuild := 0\<rparr>"
    using assms(7) by (simp_all add: completeRebuild_def)
  have home: "ts[i := Outside] = ts" using assms(2) by (metis list_update_id)
  obtain n p1 where c: "createConnection now ?old = (n, p1)" by (rule prod.exhaust)
  note nf = createConnection_fields [OF c] createConnection_new [OF c]
  let ?n = "setLastRebuiltAt now (obj p1 n)"
  let ?new = "upd_obj r (completeRebuild True) (add_connection n (upd_obj n (setLastRebuiltAt now) p1))"
  have "replicate 11 (i, ?ch) = replicate 8 (i, ?ch) @ replicate 3 (i, ?ch)" by (simp add: numeral_eq_Suc)
  moreover have "pool_exec (replicate 3 (i, ?ch)) (?old, ?at RDial) = Some (?new, ts)"
    using assms(1) c home by (simp add: numeral_eq_Suc pool_step_def turn_def createReplacementConnection_def)
  ultimately have e1: "pool_exec (replicate 11 (i, ?ch)) (p, ts) = Some (?new, ts)" by (simp add: pool_exec_append closed)
  have e2: "dp_connections ?new = AList.update (c_id ?n) (length (dp_objects p)) (AList.delete (c_id (obj p r)) (dp_connections p))"
    "dp_closed ?new = d # dp_closed p" "c_state ?n = StateIdle" "c_lastRebuiltAt ?n = now" "c_driver ?n = Some (length (dp_objects p))"
    using nf by (simp_all add: pool_simps fresh_conn_def setLastRebuiltAt_def)
  have e3: "dp_objects ?new = (dp_objects p)[r := (obj p r)\<lparr>c_state := StateClosed, c_driver := None, c_markedForRebuild := 0\<rparr>] @ [?n]"
  proof -
    obtain x where x: "dp_objects p1 = (dp_objects p)[r := ?c] @ [x]"
      using c unfolding createConnection_def Let_def prod.inject by force
    moreover have "n = length (dp_objects p)" using nf(1) by simp
    ultimately show ?thesis using assms(4) unmark(2)
      by (simp add: upd_obj_def add_connection_fields(1) nth_append list_update_append)
  qed
  have ?A by (intro exI conjI) (rule e1 e2(3-5) e3 e2(1,2))+
  moreover have ?B
    unfolding pool_exec_append closed using assms(1,4) unmark home
    by (simp add: numeral_eq_Suc pool_step_def turn_def upd_obj_def)
  ultimately show ?thesis ..
qed


section \<open>Executing a command\<close>

lemma same_state: "c_state c = s \<Longrightarrow> c\<lparr>c_state := s\<rparr> = (c :: pconn)"
  by (cases c) simp

text \<open>A client that executes a command on the connection it acquired has it acquired and unused again
  afterwards, with one more request counted, and one more error when the driver failed.\<close>

theorem execute_alone:
  assumes "i < length ts" "ts ! i = Client r t0 (Hold ok)" "r < length (dp_objects p)" "c_state (obj p r) = StateAcquired"
  shows "pool_exec (replicate 5 (i, (turn now [] TaskExecute)\<lparr>ch_fails := b\<rparr>)) (p, ts)
    = Some (upd_obj r (count_request (\<not> b)) p, ts[i := Client r t0 (Hold (\<not> b))])"
  using assms
  by (simp add: numeral_eq_Suc pool_step_def turn_def hold_step_def execute_enter_eq upd_obj_def count_request_def Let_def
      conn_simps canTransitionTo_def same_state)

theorem execute_alone_witness:
  "\<exists>p ts. pool_reach {TaskGet} NewConfigBuilder 2 (p, ts) \<and> ts ! 0 = Client 0 5 (Hold True)
     \<and> pool_exec (replicate 5 (0, (turn 9 [] TaskExecute)\<lparr>ch_fails := True\<rparr>)) (p, ts)
       = Some (upd_obj 0 (count_request False) p, ts[0 := Client 0 5 (Hold False)])"
proof -
  have 1: "case pool_exec (get_new 0 5) (two_goroutines NewConfigBuilder) of None \<Rightarrow> False
    | Some (p, ts) \<Rightarrow> length ts = 2 \<and> ts ! 0 = Client 0 5 (Hold True) \<and> length (dp_objects p) = 1
        \<and> c_state (obj p 0) = StateAcquired" by code_simp
  have 2: "ch_task ` snd ` set (get_new 0 5) \<subseteq> {TaskGet}" by code_simp
  obtain p ts where r: "pool_reach {TaskGet} NewConfigBuilder 2 (p, ts)" "length ts = 2" "ts ! 0 = Client 0 5 (Hold True)"
      "length (dp_objects p) = 1" "c_state (obj p 0) = StateAcquired"
    using schedule_reaches [OF 1 2] by blast
  then have "0 < length ts" "0 < length (dp_objects p)" by simp_all
  with execute_alone [OF this(1) r(3) this(2) r(5), of True 9] r(1,3) show ?thesis by auto
qed

section \<open>Closing the pool\<close>

lemma fold_release_obj:
  assumes "\<And>c. c_driver (f c) = c_driver c \<and> c_usingCount (f c) = c_usingCount c"
  shows "c_driver (obj (fold (\<lambda>r. upd_obj r f) rs p) x) = c_driver (obj p x)
    \<and> c_usingCount (obj (fold (\<lambda>r. upd_obj r f) rs p) x) = c_usingCount (obj p x)
    \<and> dp_closed (fold (\<lambda>r. upd_obj r f) rs p) = dp_closed p"
  using assms by (induction rs arbitrary: p) (simp_all add: pool_simps)

lemma close_one_driver:
  "c_driver (obj (close_one r p) x) = c_driver (obj p x)" "c_usingCount (obj (close_one r p) x) = c_usingCount (obj p x)"
  "set (dp_closed p) \<subseteq> set (dp_closed (close_one r p))"
  "c_usingCount (obj p r) \<le> 0 \<Longrightarrow> c_driver (obj p r) = Some d \<Longrightarrow> r < length (dp_objects p) \<Longrightarrow> d \<in> set (dp_closed (close_one r p))"
  by (auto simp: close_one_def Let_def pool_simps safeClose_def close_driver_def setHealth_def setHealthLocked_def acquireUse_def
      split: option.splits prod.splits if_splits)

lemma close_run:
  assumes "i < length ts" "ts ! i = Task (XClose rs)" "set rs \<subseteq> {..<length (dp_objects p)}"
  shows "\<exists>p'. pool_exec (replicate (Suc (length rs)) (i, ch)) (p, ts) = Some (p', ts[i := Outside])
    \<and> dp_connections p' = dp_connections p \<and> dp_isShuttingDown p' = dp_isShuttingDown p
    \<and> set (dp_closed p) \<subseteq> set (dp_closed p')
    \<and> (\<forall>r \<in> set rs. \<forall>d. c_usingCount (obj p r) \<le> 0 \<longrightarrow> c_driver (obj p r) = Some d \<longrightarrow> d \<in> set (dp_closed p'))"
  using assms
proof (induction rs arbitrary: p ts)
  case Nil
  then show ?case by (simp add: pool_step_def)
next
  case (Cons r rs)
  let ?q = "close_one r p" and ?ts = "ts[i := Task (XClose rs)]"
  obtain p' where p': "pool_exec (replicate (Suc (length rs)) (i, ch)) (?q, ?ts) = Some (p', ?ts[i := Outside])"
      "dp_connections p' = dp_connections ?q" "dp_isShuttingDown p' = dp_isShuttingDown ?q" "set (dp_closed ?q) \<subseteq> set (dp_closed p')"
      "\<forall>r \<in> set rs. \<forall>d. c_usingCount (obj ?q r) \<le> 0 \<longrightarrow> c_driver (obj ?q r) = Some d \<longrightarrow> d \<in> set (dp_closed p')"
    using Cons.IH [of ?ts ?q] Cons.prems by (auto simp: pool_simps)
  have "pool_exec (replicate (Suc (length (r # rs))) (i, ch)) (p, ts) = Some (p', ts[i := Outside])"
    using p'(1) Cons.prems by (simp add: pool_step_def)
  moreover have "d \<in> set (dp_closed p')" if "c_usingCount (obj p r) \<le> 0" "c_driver (obj p r) = Some d" for d
    using close_one_driver(4) [OF that] p'(4) Cons.prems(3) by auto
  ultimately show ?case using p' close_one_driver(1-3) by (auto simp: pool_simps subset_iff)
qed


section \<open>Witnesses\<close>

text \<open>A pool with one idle connection, last used at instant 6.\<close>

definition one_idle :: psys where
  "one_idle = the (pool_exec (get_new 0 5 @ [does 0 6 TaskRelease]) (two_goroutines NewConfigBuilder))"

lemma one_idle_facts:
  "length (snd one_idle) = 2" "snd one_idle ! 0 = Outside" "map fst (dp_connections (fst one_idle)) = [''||5'']"
  "findConnectionByID ''||5'' (fst one_idle) = Some 0" "length (dp_objects (fst one_idle)) = 1" "mapped (fst one_idle) = {0}"
  "isIdle (obj (fst one_idle) 0)" "c_usingCount (obj (fst one_idle) 0) = 0" "\<not> c_rebuilding (obj (fst one_idle) 0)"
  "c_driver (obj (fst one_idle) 0) = Some 0" "shouldCleanupConnection (dp_config (fst one_idle)) (obj (fst one_idle) 0) (3 * Minute)"
  "dp_connections (fst one_idle) = [(''||5'', 0)]"
  by code_simp+

theorem cleanup_alone_witness:
  "\<exists>acts p' new. pool_exec acts one_idle = Some (p', snd one_idle @ new) \<and> dp_connections p' = []"
  using cleanup_alone [of 0 "snd one_idle" "fst one_idle" "[''||5'']" "3 * Minute"] one_idle_facts
  by (auto simp: ranges_def)

theorem rebuild_alone_witness:
  "\<exists>p' (c :: pconn). pool_exec (replicate 11 (0, turn 7 [] (TaskRebuild ''||5''))) one_idle = Some (p', snd one_idle)
    \<and> c_state c = StateIdle \<and> c_driver c = Some 1 \<and> dp_closed p' = [0]"
proof -
  have c: "dp_closed (fst one_idle) = []" by code_simp
  have "\<exists>p' (c :: pconn). pool_exec (replicate 11 (0, turn 7 [] (TaskRebuild ''||5''))) (fst one_idle, snd one_idle) = Some (p', snd one_idle)
      \<and> c_state c = StateIdle \<and> c_lastRebuiltAt c = 7 \<and> c_driver c = Some (length (dp_objects (fst one_idle)))
      \<and> dp_closed p' = 0 # dp_closed (fst one_idle)"
  proof -
    have "0 < length (snd one_idle)" "0 < length (dp_objects (fst one_idle))" "c_usingCount (obj (fst one_idle) 0) \<le> 0"
      using one_idle_facts by simp_all
    from conjunct1 [OF rebuild_alone [OF this(1) one_idle_facts(2,4) this(2) one_idle_facts(7) this(3) one_idle_facts(9,10), of 7]]
    show ?thesis by blast
  qed
  then show ?thesis using c one_idle_facts(5) by auto
qed


end
