(* ===== verification/Resilience.thy ===== *)
theory Resilience
  imports Prelude
begin

text \<open>
  Retry policies, retrier, circuit breaker and their combination (\<open>connection/resilience.go\<close>).
  Errors are a type \<open>'e\<close> with \<open>errors.Is\<close> as an argument; an operation changes the world \<open>'w\<close> and
  returns its error, if any. A random number of the jitter is an argument.
\<close>

section \<open>Retry policies\<close>

record 'e ExponentialBackoffPolicy =
  xp_BaseDelay :: duration
  xp_MaxDelay :: duration
  xp_BackoffFactor :: rat
  xp_MaxAttempts :: int
  xp_Jitter :: bool
  xp_RetryableErrors :: "'e list"

record 'e FixedIntervalPolicy =
  fp_Interval :: duration
  fp_MaxAttempts :: int
  fp_RetryableErrors :: "'e list"

definition retryable :: "('e \<Rightarrow> 'e \<Rightarrow> bool) \<Rightarrow> 'e list \<Rightarrow> 'e \<Rightarrow> bool" where
  "retryable is_err errs e = (if length errs > 0 then find_first (is_err e) errs \<noteq> None else True)"

definition Exp_ShouldRetry :: "('e \<Rightarrow> 'e \<Rightarrow> bool) \<Rightarrow> 'e ExponentialBackoffPolicy \<Rightarrow> int \<Rightarrow> 'e \<Rightarrow> bool" where
  "Exp_ShouldRetry is_err p attempt e =
     (if attempt \<ge> xp_MaxAttempts p then False else retryable is_err (xp_RetryableErrors p) e)"

definition Fixed_ShouldRetry :: "('e \<Rightarrow> 'e \<Rightarrow> bool) \<Rightarrow> 'e FixedIntervalPolicy \<Rightarrow> int \<Rightarrow> 'e \<Rightarrow> bool" where
  "Fixed_ShouldRetry is_err p attempt e =
     (if attempt \<ge> fp_MaxAttempts p then False else retryable is_err (fp_RetryableErrors p) e)"

fun backoff_steps :: "duration \<Rightarrow> rat \<Rightarrow> nat \<Rightarrow> duration \<Rightarrow> duration" where
  "backoff_steps maxDelay factor 0 delay = delay"
| "backoff_steps maxDelay factor (Suc n) delay =
    (let d = Duration_of_float (float_round (float_round (of_int delay) * factor)) in
     if d > maxDelay then maxDelay else backoff_steps maxDelay factor n d)"

definition Exp_NextDelay :: "rat \<Rightarrow> 'e ExponentialBackoffPolicy \<Rightarrow> int \<Rightarrow> duration" where
  "Exp_NextDelay random p attempt =
    (if attempt \<le> 0 then 0
     else let delay = backoff_steps (xp_MaxDelay p) (xp_BackoffFactor p) (nat (attempt - 1)) (xp_BaseDelay p) in
       if xp_Jitter p
       then delay + Duration_of_float (float_round (float_round (float_round (of_int delay) * float_round (1 / 10))
              * float_round (1 / 2 - random)))
       else delay)"

definition Fixed_NextDelay :: "'e FixedIntervalPolicy \<Rightarrow> int \<Rightarrow> duration" where
  "Fixed_NextDelay p attempt = (if attempt \<le> 0 then 0 else fp_Interval p)"

section \<open>The retrier\<close>

datatype 'e retry_error = RetryContextCancelled | MaxRetriesExceeded "'e option"

record 'w retry_world =
  rw_done :: "'w \<Rightarrow> bool"
  rw_wait :: "duration \<Rightarrow> 'w \<Rightarrow> bool \<times> 'w"

text \<open>One round per attempt; the loop ends by \<open>break\<close> when the policy does not want another one.\<close>

function retrier_loop :: "'w retry_world \<Rightarrow> (int \<Rightarrow> 'e \<Rightarrow> bool) \<Rightarrow> (int \<Rightarrow> duration) \<Rightarrow> int
    \<Rightarrow> ('w \<Rightarrow> 'e option \<times> 'w) \<Rightarrow> int \<Rightarrow> 'e option \<Rightarrow> 'w \<Rightarrow> 'e retry_error option \<times> 'w" where
  "retrier_loop W should delay maxA op1 attempt lastErr w =
    (if attempt \<ge> maxA then (Some (MaxRetriesExceeded lastErr), w)
     else if rw_done W w then (Some RetryContextCancelled, w)
     else (case op1 w of
         (None, w1) \<Rightarrow> (None, w1)
       | (Some e, w1) \<Rightarrow>
           if \<not> should (attempt + 1) e then (Some (MaxRetriesExceeded (Some e)), w1)
           else let d = delay (attempt + 1) in
             if d > 0
             then (case rw_wait W d w1 of
                 (True, w2) \<Rightarrow> (Some RetryContextCancelled, w2)
               | (False, w2) \<Rightarrow> retrier_loop W should delay maxA op1 (attempt + 1) (Some e) w2)
             else retrier_loop W should delay maxA op1 (attempt + 1) (Some e) w1))"
  by pat_completeness auto
termination
  by (relation "measure (\<lambda>(W, should, delay, maxA, op1, attempt, lastErr, w). nat (maxA - attempt))") auto

declare retrier_loop.simps [simp del]

definition Retrier_Execute :: "'w retry_world \<Rightarrow> (int \<Rightarrow> 'e \<Rightarrow> bool) \<Rightarrow> (int \<Rightarrow> duration) \<Rightarrow> int
    \<Rightarrow> ('w \<Rightarrow> 'e option \<times> 'w) \<Rightarrow> 'w \<Rightarrow> 'e retry_error option \<times> 'w" where
  "Retrier_Execute W should delay maxA op1 w = retrier_loop W should delay maxA op1 0 None w"

section \<open>The circuit breaker\<close>

datatype CircuitBreakerState = CircuitBreakerClosed | CircuitBreakerOpen | CircuitBreakerHalfOpen

fun CircuitBreakerState_String :: "CircuitBreakerState \<Rightarrow> string" where
  "CircuitBreakerState_String CircuitBreakerClosed = ''closed''"
| "CircuitBreakerState_String CircuitBreakerOpen = ''open''"
| "CircuitBreakerState_String CircuitBreakerHalfOpen = ''half-open''"

record CircuitBreakerConfig =
  cb_MaxFailures :: int
  cb_ResetTimeout :: duration
  cb_FailureThreshold :: rat
  cb_MinRequests :: int
  cb_MaxRequests :: int

record CircuitBreaker =
  cb_config :: CircuitBreakerConfig
  cb_state :: CircuitBreakerState
  cb_failures :: int
  cb_requests :: int
  cb_successes :: int
  cb_lastFailTime :: gtime
  cb_nextRetryTime :: gtime
  cb_halfOpenRequests :: int
  cb_halfOpenFailures :: int

definition NewCircuitBreaker :: "CircuitBreakerConfig \<Rightarrow> CircuitBreaker" where
  "NewCircuitBreaker c = \<lparr>cb_config = c, cb_state = CircuitBreakerClosed, cb_failures = 0,
     cb_requests = 0, cb_successes = 0, cb_lastFailTime = 0, cb_nextRetryTime = 0,
     cb_halfOpenRequests = 0, cb_halfOpenFailures = 0\<rparr>"

definition DefaultCircuitBreakerConfig :: CircuitBreakerConfig where
  "DefaultCircuitBreakerConfig = \<lparr>cb_MaxFailures = 20, cb_ResetTimeout = 30 * Second,
     cb_FailureThreshold = float_round (7 / 10), cb_MinRequests = 30, cb_MaxRequests = 5\<rparr>"

definition shouldTrip :: "CircuitBreaker \<Rightarrow> bool" where
  "shouldTrip cb =
    (if cb_failures cb \<ge> cb_MaxFailures (cb_config cb) then True
     else if cb_requests cb \<ge> cb_MinRequests (cb_config cb)
     then float_div_ge (cb_requests cb - cb_successes cb) (cb_requests cb) (cb_FailureThreshold (cb_config cb))
     else False)"

definition reset :: "CircuitBreaker \<Rightarrow> CircuitBreaker" where
  "reset cb = cb\<lparr>cb_requests := 0, cb_successes := 0, cb_failures := 0\<rparr>"

definition allowRequest :: "gtime \<Rightarrow> CircuitBreaker \<Rightarrow> bool \<times> CircuitBreaker" where
  "allowRequest now cb = (case cb_state cb of
     CircuitBreakerClosed \<Rightarrow> (True, cb)
   | CircuitBreakerOpen \<Rightarrow>
       if now > cb_nextRetryTime cb
       then (True, cb\<lparr>cb_state := CircuitBreakerHalfOpen, cb_halfOpenRequests := 0, cb_halfOpenFailures := 0\<rparr>)
       else (False, cb)
   | CircuitBreakerHalfOpen \<Rightarrow> (cb_halfOpenRequests cb < cb_MaxRequests (cb_config cb), cb))"

definition recordResult :: "gtime \<Rightarrow> bool \<Rightarrow> CircuitBreaker \<Rightarrow> CircuitBreaker" where
  "recordResult now success cb = (case cb_state cb of
     CircuitBreakerClosed \<Rightarrow>
       let cb1 = cb\<lparr>cb_requests := cb_requests cb + 1\<rparr> in
       if success then cb1\<lparr>cb_successes := cb_successes cb1 + 1, cb_failures := 0\<rparr>
       else let cb2 = cb1\<lparr>cb_failures := cb_failures cb1 + 1, cb_lastFailTime := now\<rparr> in
         if shouldTrip cb2
         then cb2\<lparr>cb_state := CircuitBreakerOpen, cb_nextRetryTime := now + cb_ResetTimeout (cb_config cb2)\<rparr>
         else cb2
   | CircuitBreakerOpen \<Rightarrow> cb
   | CircuitBreakerHalfOpen \<Rightarrow>
       let cb1 = cb\<lparr>cb_halfOpenRequests := cb_halfOpenRequests cb + 1\<rparr> in
       if success
       then if cb_halfOpenRequests cb1 \<ge> cb_MinRequests (cb_config cb1)
         then reset (cb1\<lparr>cb_state := CircuitBreakerClosed\<rparr>) else cb1
       else cb1\<lparr>cb_halfOpenFailures := cb_halfOpenFailures cb1 + 1, cb_state := CircuitBreakerOpen,
              cb_nextRetryTime := now + cb_ResetTimeout (cb_config cb1)\<rparr>)"

text \<open>\<open>Execute\<close>: \<open>None\<close> when the breaker refuses, else the operation's error. The request starts at
  \<open>now\<close> and ends at \<open>now'\<close>.\<close>

definition CircuitBreaker_Execute :: "gtime \<Rightarrow> gtime \<Rightarrow> 'e option \<Rightarrow> CircuitBreaker \<Rightarrow> 'e option option \<times> CircuitBreaker" where
  "CircuitBreaker_Execute now now' err cb = (case allowRequest now cb of
     (False, cb1) \<Rightarrow> (None, cb1)
   | (True, cb1) \<Rightarrow> (Some err, recordResult now' (err = None) cb1))"

text \<open>\<open>ResilientExecutor.Execute\<close> over an operation that is already wrapped in the breaker, if any.\<close>

definition Resilient_Execute ::
  "(('w \<Rightarrow> 'e option \<times> 'w) \<Rightarrow> 'w \<Rightarrow> 'e option \<times> 'w) option \<Rightarrow> ('e \<Rightarrow> 'e option) option
    \<Rightarrow> ('w \<Rightarrow> 'e option \<times> 'w) \<Rightarrow> 'w \<Rightarrow> 'e option \<times> 'w" where
  "Resilient_Execute retrier fallback op1 w = (let
     (err, w1) = (case retrier of Some r \<Rightarrow> r op1 w | None \<Rightarrow> op1 w)
     in case (err, fallback) of
       (Some e, Some f) \<Rightarrow> (f e, w1)
     | _ \<Rightarrow> (err, w1))"

section \<open>Policies bound the attempts\<close>

text \<open>Operations that count how often they run.\<close>

definition counted :: "('w \<Rightarrow> 'e option \<times> 'w) \<Rightarrow> 'w \<times> nat \<Rightarrow> 'e option \<times> ('w \<times> nat)" where
  "counted op1 s = (let (e, w) = op1 (fst s) in (e, (w, Suc (snd s))))"

definition lift_world :: "'w retry_world \<Rightarrow> ('w \<times> nat) retry_world" where
  "lift_world W = \<lparr>rw_done = (\<lambda>s. rw_done W (fst s)),
     rw_wait = (\<lambda>d s. let (b, w) = rw_wait W d (fst s) in (b, (w, snd s)))\<rparr>"

locale retry_policy =
  fixes should :: "int \<Rightarrow> 'e \<Rightarrow> bool" and delay :: "int \<Rightarrow> duration" and max_attempts :: int
  assumes should_bound: "should attempt e \<Longrightarrow> attempt < max_attempts"
begin

lemma loop_calls:
  "attempt < max_attempts \<Longrightarrow>
   int (snd (snd (retrier_loop (lift_world W) should delay max_attempts (counted op1) attempt r s)))
     \<le> int (snd s) + (max_attempts - attempt)"
proof (induction "nat (max_attempts - attempt)" arbitrary: attempt r s)
  case (Suc n)
  obtain e w1 where o: "op1 (fst s) = (e, w1)" by fastforce
  have rec: "int (snd (snd (retrier_loop (lift_world W) should delay max_attempts (counted op1) (attempt + 1) r' s')))
      \<le> int (snd s') + (max_attempts - (attempt + 1))" if "attempt + 1 < max_attempts" for r' s'
    by (rule Suc.hyps(1)) (use Suc.hyps(2) that in linarith)+
  show ?case
  proof (cases e)
    case None
    with Suc.prems o show ?thesis
      by (subst retrier_loop.simps) (auto simp: counted_def)
  next
    case (Some x)
    show ?thesis
    proof (cases "should (attempt + 1) x")
      case True
      then have a: "attempt + 1 < max_attempts" by (rule should_bound)
      obtain b w2 where w: "rw_wait W (delay (attempt + 1)) w1 = (b, w2)" by fastforce
      show ?thesis
        using rec [OF a, of "Some x" "(w2, Suc (snd s))"] rec [OF a, of "Some x" "(w1, Suc (snd s))"] a w o Some True
        by (cases b; subst retrier_loop.simps) (auto simp: counted_def lift_world_def Let_def)
    next
      case False
      with Suc.prems o Some show ?thesis
        by (subst retrier_loop.simps) (auto simp: counted_def)
    qed
  qed
qed simp

lemma calls_bound:
  "int (snd (snd (Retrier_Execute (lift_world W) should delay max_attempts (counted op1) (w, 0)))) \<le> max 0 max_attempts"
proof (cases "0 < max_attempts")
  case True
  from loop_calls [OF this, of W op1 None "(w, 0)"] show ?thesis by (simp add: Retrier_Execute_def)
next
  case False
  then show ?thesis by (simp add: Retrier_Execute_def retrier_loop.simps)
qed

end

interpretation exponential: retry_policy "Exp_ShouldRetry is_err p" "Exp_NextDelay u p" "xp_MaxAttempts p" for is_err p u
  by unfold_locales (auto simp: Exp_ShouldRetry_def split: if_splits)

interpretation fixed: retry_policy "Fixed_ShouldRetry is_err p" "Fixed_NextDelay p" "fp_MaxAttempts p" for is_err p
  by unfold_locales (auto simp: Fixed_ShouldRetry_def split: if_splits)

lemma backoff_steps_bound: "backoff_steps m f n d \<le> max d m"
proof (induction n arbitrary: d)
  case (Suc n)
  let ?d = "Duration_of_float (float_round (float_round (of_int d) * f))"
  from Suc [of ?d] show ?case by (auto simp: Let_def)
qed simp

text \<open>Under either policy the retrier runs the operation at most as often as the policy's maximum
  of attempts, and not at all for a maximum that is not positive. Without jitter no delay of the
  exponential policy exceeds the larger of its base and maximum delay.\<close>

theorem retrier_bounds:
  "int (snd (snd (Retrier_Execute (lift_world W) (Exp_ShouldRetry is_err p) (Exp_NextDelay u p) (xp_MaxAttempts p)
       (counted op1) (w, 0)))) \<le> max 0 (xp_MaxAttempts p)
   \<and> int (snd (snd (Retrier_Execute (lift_world W) (Fixed_ShouldRetry is_err q) (Fixed_NextDelay q) (fp_MaxAttempts q)
       (counted op1) (w, 0)))) \<le> max 0 (fp_MaxAttempts q)
   \<and> (if xp_Jitter p then True else Exp_NextDelay u p n \<le> max 0 (max (xp_BaseDelay p) (xp_MaxDelay p)))"
  using exponential.calls_bound [of W is_err p u op1 w] fixed.calls_bound [of W is_err q op1 w]
    backoff_steps_bound [of "xp_MaxDelay p" "xp_BackoffFactor p" "nat (n - 1)" "xp_BaseDelay p"]
  by (auto simp: Exp_NextDelay_def Let_def)

section \<open>The half-open state\<close>

text \<open>Requests made one after the other: start, end and error of each; the results are \<open>None\<close> where
  the breaker refused.\<close>

fun cb_run :: "(gtime \<times> gtime \<times> 'e option) list \<Rightarrow> CircuitBreaker \<Rightarrow> 'e option option list \<times> CircuitBreaker" where
  "cb_run [] cb = ([], cb)"
| "cb_run ((now, now', err) # reqs) cb = (let (r, cb1) = CircuitBreaker_Execute now now' err cb;
     (rs, cb2) = cb_run reqs cb1 in (r # rs, cb2))"

definition half_open_inv :: "CircuitBreakerConfig \<Rightarrow> CircuitBreaker \<Rightarrow> bool" where
  "half_open_inv c cb \<longleftrightarrow> cb_config cb = c \<and> cb_state cb \<noteq> CircuitBreakerClosed
     \<and> (cb_state cb = CircuitBreakerHalfOpen \<longrightarrow> cb_halfOpenRequests cb \<le> max 1 (cb_MaxRequests c))"

lemma half_open_step:
  assumes "max 1 (cb_MaxRequests c) < cb_MinRequests c" "half_open_inv c cb"
  shows "half_open_inv c (snd (CircuitBreaker_Execute now now' err cb))"
  using assms unfolding half_open_inv_def CircuitBreaker_Execute_def allowRequest_def recordResult_def
  by (cases "cb_halfOpenRequests cb < cb_MaxRequests (cb_config cb)")
    (auto simp: Let_def reset_def split: CircuitBreakerState.splits bool.splits)

lemma half_open_run:
  "max 1 (cb_MaxRequests c) < cb_MinRequests c \<Longrightarrow> half_open_inv c cb \<Longrightarrow> half_open_inv c (snd (cb_run reqs cb))"
proof (induction reqs arbitrary: cb)
  case (Cons req reqs)
  obtain now now' err where "req = (now, now', err)" by (metis prod_cases3)
  with Cons half_open_step [OF Cons.prems, of now now' err] show ?case
    by (simp add: split_beta Let_def)
qed simp

lemma half_open_full:
  "cb_state cb = CircuitBreakerHalfOpen \<Longrightarrow> cb_MaxRequests (cb_config cb) \<le> cb_halfOpenRequests cb
    \<Longrightarrow> cb_run reqs cb = (replicate (length reqs) None, cb)"
proof (induction reqs)
  case (Cons req reqs)
  then show ?case by (cases req) (simp add: CircuitBreaker_Execute_def allowRequest_def)
qed simp


definition open_breaker :: CircuitBreaker where
  "open_breaker = (NewCircuitBreaker DefaultCircuitBreakerConfig)\<lparr>cb_state := CircuitBreakerOpen\<rparr>"

definition five_successes :: "(gtime \<times> gtime \<times> nat option) list" where
  "five_successes = replicate 5 (1, 1, None)"


section \<open>The predefined policies\<close>

definition DefaultExponentialBackoff :: "'e ExponentialBackoffPolicy" where
  "DefaultExponentialBackoff = \<lparr>xp_BaseDelay = 2 * Second, xp_MaxDelay = 10 * Second, xp_BackoffFactor = 3 / 2,
     xp_MaxAttempts = 2, xp_Jitter = True, xp_RetryableErrors = []\<rparr>"

definition DefaultFixedInterval :: "'e FixedIntervalPolicy" where
  "DefaultFixedInterval = \<lparr>fp_Interval = 1 * Second, fp_MaxAttempts = 3, fp_RetryableErrors = []\<rparr>"

text \<open>\<open>ExecuteResilient\<close>: the default executor has a retrier, no breaker and no fallback.
  \<open>ExecuteWithCircuitBreaker\<close> makes a new breaker for every call.\<close>

definition ExecuteResilient :: "'w retry_world \<Rightarrow> ('e \<Rightarrow> 'e \<Rightarrow> bool) \<Rightarrow> rat
    \<Rightarrow> ('w \<Rightarrow> 'e option \<times> 'w) \<Rightarrow> 'w \<Rightarrow> 'e retry_error option \<times> 'w" where
  "ExecuteResilient W is_err u = (let p = DefaultExponentialBackoff in
     Retrier_Execute W (Exp_ShouldRetry is_err p) (Exp_NextDelay u p) (xp_MaxAttempts p))"

definition ExecuteWithCircuitBreaker ::
  "gtime \<Rightarrow> gtime \<Rightarrow> 'e option \<Rightarrow> CircuitBreakerConfig \<Rightarrow> 'e option option" where
  "ExecuteWithCircuitBreaker t1 t2 result cfg = fst (CircuitBreaker_Execute t1 t2 result (NewCircuitBreaker cfg))"

text \<open>The default executor runs an operation at most twice. A breaker made for one call never refuses
  it, so that \<open>ExecuteWithCircuitBreaker\<close> only returns the operation's own result.\<close>

lemma default_executors:
  "int (snd (snd (ExecuteResilient (lift_world W) is_err u (counted op1) (w, 0)))) \<le> 2
   \<and> ExecuteWithCircuitBreaker t1 t2 result cfg = Some result"
  using exponential.calls_bound [of W is_err DefaultExponentialBackoff u op1 w]
  by (simp add: ExecuteResilient_def DefaultExponentialBackoff_def ExecuteWithCircuitBreaker_def
      CircuitBreaker_Execute_def NewCircuitBreaker_def allowRequest_def Let_def)

end
