(* ===== verification/Conn_Pool_Ops.thy ===== *)
theory Conn_Pool_Ops
  imports Conn_Pool Resilience
begin

text \<open>
  The parts of \<open>connection/pool_enhanced.go\<close> around the driver pool: the two load balancers, the
  retries of a \<open>Get\<close>, warm-up, the event channel, the monitored driver's \<open>Connect\<close>, the
  background tasks and the choice of the connections to rebuild.
\<close>

section \<open>Load balancers\<close>

definition selectable :: "pconn \<Rightarrow> bool" where
  "selectable c = (case getState c of (inUse, valid, health) \<Rightarrow> \<not> inUse \<and> valid \<and> health = HealthStatusHealthy)"

text \<open>The counter is a 64-bit word that wraps around.\<close>

definition RoundRobin_SelectConnection :: "64 word \<Rightarrow> pconn list \<Rightarrow> pconn option \<times> 64 word" where
  "RoundRobin_SelectConnection counter conns =
    (if length conns = 0 then (None, counter)
     else let healthy = filter selectable conns in
       if length healthy = 0 then (None, counter)
       else (Some (healthy ! (unat (counter + 1) mod length healthy)), counter + 1))"

fun least_used :: "int \<Rightarrow> pconn option \<Rightarrow> pconn list \<Rightarrow> pconn option" where
  "least_used minUsage selected [] = selected"
| "least_used minUsage selected (c # cs) =
    (if selectable c \<and> c_usageCount c < minUsage then least_used (c_usageCount c) (Some c) cs
     else least_used minUsage selected cs)"

definition LeastConnections_SelectConnection :: "pconn list \<Rightarrow> pconn option" where
  "LeastConnections_SelectConnection conns = (if length conns = 0 then None else least_used max_int64 None conns)"

text \<open>What a balancer promises: it answers with a selectable connection of the list, whenever
  there is one.\<close>

locale load_balancer =
  fixes select :: "'s \<Rightarrow> pconn list \<Rightarrow> pconn option \<times> 's"
  assumes select_sound: "fst (select s cs) = Some c \<Longrightarrow> c \<in> set cs \<and> selectable c"
    and select_complete: "c \<in> set cs \<Longrightarrow> selectable c \<Longrightarrow> \<forall>x \<in> set cs. c_usageCount x < max_int64 \<Longrightarrow> fst (select s cs) \<noteq> None"
begin

lemma select_iff:
  "\<forall>x \<in> set cs. c_usageCount x < max_int64 \<Longrightarrow> (fst (select s cs) = None) = (\<forall>c \<in> set cs. \<not> selectable c)"
  using select_sound select_complete by (metis not_None_eq)

lemma select_single:
  assumes "selectable c" "c_usageCount c < max_int64" "\<forall>x \<in> set cs. selectable x \<longrightarrow> x = c" "c \<in> set cs"
    "\<forall>x \<in> set cs. c_usageCount x < max_int64"
  shows "fst (select s cs) = Some c"
  using select_sound [of s cs] select_complete [OF assms(4,1,5), of s] assms(3) by force

end

lemma least_used_cases:
  "(least_used m s cs = s \<and> (\<forall>c \<in> set cs. selectable c \<longrightarrow> m \<le> c_usageCount c))
   \<or> (\<exists>c \<in> set cs. least_used m s cs = Some c \<and> selectable c \<and> c_usageCount c < m
       \<and> (\<forall>x \<in> set cs. selectable x \<longrightarrow> c_usageCount c \<le> c_usageCount x))"
  by (induction m s cs rule: least_used.induct) force+

lemma RoundRobin_filter:
  "filter selectable cs \<noteq> [] \<Longrightarrow> RoundRobin_SelectConnection s cs
    = (Some (filter selectable cs ! (unat (s + 1) mod length (filter selectable cs))), s + 1)"
  by (cases cs) (simp_all add: RoundRobin_SelectConnection_def Let_def)

interpretation rr: load_balancer RoundRobin_SelectConnection
proof
  fix s cs c
  assume "fst (RoundRobin_SelectConnection s cs) = Some c"
  then have ne: "filter selectable cs \<noteq> []" and
      "c = filter selectable cs ! (unat (s + 1) mod length (filter selectable cs))"
    by (auto simp: RoundRobin_SelectConnection_def Let_def split: if_splits)
  then have "c \<in> set (filter selectable cs)" by (metis length_greater_0_conv mod_less_divisor nth_mem)
  then show "c \<in> set cs \<and> selectable c" by simp
next
  fix s cs c
  assume "c \<in> set cs" "selectable c"
  then have "filter selectable cs \<noteq> []" by (auto simp: filter_empty_conv)
  then show "fst (RoundRobin_SelectConnection s cs) \<noteq> None" by (simp add: RoundRobin_filter)
qed

interpretation lc: load_balancer "\<lambda>(_ :: unit) cs. (LeastConnections_SelectConnection cs, ())"
proof
  fix cs c
  assume "fst (LeastConnections_SelectConnection cs, ()) = Some c"
  then show "c \<in> set cs \<and> selectable c"
    using least_used_cases [of max_int64 None cs] by (auto simp: LeastConnections_SelectConnection_def split: if_splits)
next
  fix cs c
  assume "c \<in> set cs" "selectable c" "\<forall>x \<in> set cs. c_usageCount x < max_int64"
  then show "fst (LeastConnections_SelectConnection cs, ()) \<noteq> None"
    using least_used_cases [of max_int64 None cs] by (force simp: LeastConnections_SelectConnection_def)
qed

fun round_robin_run :: "nat \<Rightarrow> 64 word \<Rightarrow> pconn list \<Rightarrow> pconn option list" where
  "round_robin_run 0 counter conns = []"
| "round_robin_run (Suc n) counter conns = (case RoundRobin_SelectConnection counter conns of
     (c, counter') \<Rightarrow> c # round_robin_run n counter' conns)"

lemma unat_plus1: "unat (w :: 64 word) + 1 < 2 ^ 64 \<Longrightarrow> unat (w + 1) = unat w + 1"
  by (simp add: unat_word_ariths)

lemma mset_rotate: "mset (rotate n xs) = mset xs"
proof (induction n)
  case (Suc n)
  then show ?case by (cases "rotate n xs") simp_all
qed simp

lemma round_robin_run_eq:
  assumes "filter selectable cs \<noteq> []" "unat counter + n < 2 ^ 64"
  shows "round_robin_run n counter cs
    = map (\<lambda>i. Some (filter selectable cs ! ((unat counter + 1 + i) mod length (filter selectable cs)))) [0..<n]"
  using assms(2)
proof (induction n arbitrary: counter)
  case (Suc n)
  then have u: "unat (counter + 1) = unat counter + 1" using unat_plus1 by auto
  have "round_robin_run n (counter + 1) cs
      = map (\<lambda>i. Some (filter selectable cs ! ((unat counter + 1 + Suc i) mod length (filter selectable cs)))) [0..<n]"
    using Suc.IH [of "counter + 1"] Suc.prems u by (simp add: ac_simps)
  then show ?case
    by (simp add: RoundRobin_filter [OF assms(1)] u upt_conv_Cons map_Suc_upt [symmetric] comp_def del: upt_Suc)
qed simp

text \<open>Both balancers choose a connection that is neither acquired nor closed and is healthy, exactly
  when there is one; the second takes one with the fewest uses; as long as its counter does not
  wrap around, the first takes every such connection once in as many calls as there are of them.\<close>

theorem balancers_select:
  assumes "\<forall>x \<in> set cs. c_usageCount x < max_int64"
  shows "(fst (RoundRobin_SelectConnection counter cs) = None) = (\<forall>c \<in> set cs. \<not> selectable c)
    \<and> (LeastConnections_SelectConnection cs = None) = (\<forall>c \<in> set cs. \<not> selectable c)
    \<and> (\<forall>c. LeastConnections_SelectConnection cs = Some c \<longrightarrow> c \<in> set cs \<and> selectable c
        \<and> (\<forall>x \<in> set cs. selectable x \<longrightarrow> c_usageCount c \<le> c_usageCount x))
    \<and> (unat counter + length (filter selectable cs) < 2 ^ 64 \<longrightarrow>
        mset (round_robin_run (length (filter selectable cs)) counter cs) = image_mset Some (mset (filter selectable cs)))"
proof -
  let ?h = "filter selectable cs"
  have "mset (round_robin_run (length ?h) counter cs) = image_mset Some (mset ?h)" if "unat counter + length ?h < 2 ^ 64"
  proof (cases "?h = []")
    case False
    have "map (\<lambda>i. ?h ! ((unat counter + 1 + i) mod length ?h)) [0..<length ?h] = rotate (unat counter + 1) ?h"
      by (rule nth_equalityI) (simp_all add: nth_rotate del: rotate_Suc)
    then have "round_robin_run (length ?h) counter cs = map Some (rotate (unat counter + 1) ?h)"
      using round_robin_run_eq [OF False that] by (metis (no_types, lifting) list.map_comp comp_apply map_eq_conv)
    then show ?thesis using mset_rotate [of "unat counter + 1" ?h] by simp
  qed simp
  moreover have "LeastConnections_SelectConnection cs = Some c \<Longrightarrow> c \<in> set cs \<and> selectable c
        \<and> (\<forall>x \<in> set cs. selectable x \<longrightarrow> c_usageCount c \<le> c_usageCount x)" for c
    using least_used_cases [of max_int64 None cs] by (auto simp: LeastConnections_SelectConnection_def split: if_splits)
  moreover have "(LeastConnections_SelectConnection cs = None) = (\<forall>c \<in> set cs. \<not> selectable c)"
    using lc.select_iff [OF assms] by simp
  ultimately show ?thesis using rr.select_iff [OF assms] by blast
qed

theorem balancers_select_witness:
  "fst (RoundRobin_SelectConnection 7 [sample_conn\<lparr>c_healthStatus := HealthStatusHealthy\<rparr>]) \<noteq> None
   \<and> LeastConnections_SelectConnection [sample_conn\<lparr>c_healthStatus := HealthStatusHealthy\<rparr>] \<noteq> None"
proof -
  let ?c = "sample_conn\<lparr>c_healthStatus := HealthStatusHealthy\<rparr>"
  have "\<forall>x \<in> set [?c]. c_usageCount x < max_int64" "selectable ?c" by code_simp+
  then show ?thesis using balancers_select [of "[?c]" 7] by simp
qed

section \<open>The retries around a \<open>Get\<close>\<close>

text \<open>\<open>createConnectionRetryExecutor\<close>: the policy and the overall timeout.\<close>

definition createConnectionRetryExecutor :: "config \<Rightarrow> string ExponentialBackoffPolicy \<times> duration" where
  "createConnectionRetryExecutor cfg = (let maxAttempts = ConnectionMaxRetries cfg + 1;
       timeout = ConnectTimeout cfg * maxAttempts in
     (\<lparr>xp_BaseDelay = ConnectionRetryInterval cfg, xp_MaxDelay = 10 * Second,
        xp_BackoffFactor = ConnectionBackoffFactor cfg, xp_MaxAttempts = maxAttempts, xp_Jitter = True,
        xp_RetryableErrors = []\<rparr>, if timeout = 0 then 30 * Second else timeout))"

datatype get_error = PoolShuttingDown | GetContextDone | UnsupportedProtocol | GetFailed "string retry_error"

text \<open>\<open>GetWithContext\<close> around one round over the pool (\<open>round\<close>, the steps from \<open>Snapshot 0\<close> on).\<close>

definition GetWithContext :: "'w retry_world \<Rightarrow> rat \<Rightarrow> config \<Rightarrow> bool \<Rightarrow> bool
    \<Rightarrow> ('w \<Rightarrow> string option \<times> 'w) \<Rightarrow> 'w \<Rightarrow> get_error option \<times> 'w" where
  "GetWithContext W random cfg isShuttingDown registered once w =
    (if isShuttingDown then (Some PoolShuttingDown, w)
     else if rw_done W w then (Some GetContextDone, w)
     else if \<not> registered then (Some UnsupportedProtocol, w)
     else let policy = fst (createConnectionRetryExecutor cfg) in
       (case Retrier_Execute W (Exp_ShouldRetry (=) policy) (Exp_NextDelay random policy) (xp_MaxAttempts policy) once w of
          (None, w1) \<Rightarrow> (None, w1)
        | (Some e, w1) \<Rightarrow> (Some (GetFailed e), w1)))"

text \<open>A \<open>Get\<close> goes over the pool at most once more than the configured number of retries; it does not
  touch the pool when it is shutting down, when the context is done or when the protocol is not
  registered, and these errors are the only ones besides those of the retrier.\<close>

theorem GetWithContext_rounds:
  assumes "Config_Validate cfg = None"
  shows "let (err, w', rounds) = GetWithContext (lift_world W) random cfg down registered (counted once) (w, 0) in
    int rounds \<le> ConnectionMaxRetries cfg + 1
    \<and> (down \<or> rw_done W w \<or> \<not> registered \<longrightarrow> rounds = 0 \<and> err \<noteq> None)"
proof -
  have n: "0 \<le> ConnectionMaxRetries cfg"
    using assms by (auto simp: Config_Validate_def validate_basic_def split: option.splits if_splits)
  show ?thesis
    using exponential.calls_bound [of W "(=)" "fst (createConnectionRetryExecutor cfg)" random once w] n
    by (auto simp: GetWithContext_def Let_def createConnectionRetryExecutor_def lift_world_def split: prod.splits option.splits)
qed

theorem GetWithContext_rounds_witness:
  "let (err, w', rounds) = GetWithContext (lift_world \<lparr>rw_done = (\<lambda>_. False), rw_wait = (\<lambda>_ w. (False, w))\<rparr>) 0
      (WithProtocol ProtocolSSH PlatformCiscoIOSXE (WithBasicAuth ''10.0.0.1'' ''admin'' ''secret'' NewConfigBuilder))
      False True (counted (\<lambda>w. (Some ''refused'', w))) ((), 0)
   in int rounds \<le> 3"
proof -
  let ?cfg = "WithProtocol ProtocolSSH PlatformCiscoIOSXE (WithBasicAuth ''10.0.0.1'' ''admin'' ''secret'' NewConfigBuilder)"
  have v: "Config_Validate ?cfg = None" "ConnectionMaxRetries ?cfg + 1 = 3" by code_simp+
  show ?thesis
    using GetWithContext_rounds [OF v(1), of "\<lparr>rw_done = (\<lambda>_. False), rw_wait = (\<lambda>_ w. (False, w))\<rparr>" 0 False True
        "\<lambda>w. (Some ''refused'', w)" "()"] v(2)
    by (auto simp: Let_def split: prod.splits)
qed

section \<open>Warming up\<close>

datatype WarmupState = WarmupStateNotStarted | WarmupStateInProgress | WarmupStateCompleted | WarmupStateFailed

record WarmupStatus =
  wu_Target :: int
  wu_Success :: int
  wu_Failed :: int
  wu_Status :: WarmupState

text \<open>\<open>dials i a\<close> is the outcome of attempt \<open>a\<close> of goroutine \<open>i\<close>; an attempt that succeeds adds its
  connection to the pool (the step \<open>WInsert\<close>). The goroutine's own \<open>err\<close> is shadowed inside the
  loop, so \<open>nil\<close> is sent and a failure is counted whatever happened. \<open>None\<close> is the panic of
  \<open>make\<close> with a negative size.\<close>

fun warm_one :: "(nat \<Rightarrow> bool) \<Rightarrow> nat \<Rightarrow> bool" where
  "warm_one dial 0 = False"
| "warm_one dial (Suc n) = (warm_one dial n \<or> dial n)"

definition WarmUp :: "int \<Rightarrow> (nat \<Rightarrow> nat \<Rightarrow> bool) \<Rightarrow> WarmupStatus \<Rightarrow> (bool \<times> WarmupStatus) option" where
  "WarmUp target dials w = (if target < 0 then None else
    (let added = length (filter (\<lambda>i. warm_one (dials i) 3) [0..<nat target]);
         successCount = wu_Success w + int added;
         status = (if successCount = target then WarmupStateCompleted
                   else if successCount > 0 then WarmupStateCompleted else WarmupStateFailed)
     in Some (successCount = 0, \<lparr>wu_Target = target, wu_Success = successCount, wu_Failed = wu_Failed w + target,
          wu_Status = status\<rparr>)))"

text \<open>The success counter is never reset: after one warm-up that added a connection, every later one
  reports success, even when all its dials fail, and every goroutine counts as failed. A first
  warm-up fails exactly when no dial succeeds, also for a target of 0, which it completes.\<close>

theorem WarmUp_spec:
  assumes "0 \<le> target" "0 \<le> wu_Success w"
  shows "\<exists>err w'. WarmUp target dials w = Some (err, w') \<and> wu_Failed w' = wu_Failed w + target
    \<and> err = (wu_Success w = 0 \<and> (\<forall>i < nat target. \<forall>a < 3. \<not> dials i a))
    \<and> (wu_Status w' = WarmupStateFailed) = (err \<and> target \<noteq> 0)"
proof -
  have w1: "warm_one d n \<longleftrightarrow> (\<exists>a < n. d a)" for d n by (induction n) (auto simp: less_Suc_eq)
  define added where "added = length (filter (\<lambda>i. warm_one (dials i) 3) [0..<nat target])"
  have "added = 0 \<longleftrightarrow> (\<forall>i < nat target. \<forall>a < 3. \<not> dials i a)"
    by (auto simp: added_def w1 filter_empty_conv)
  then show ?thesis using assms by (cases "added = 0") (auto simp: WarmUp_def Let_def simp flip: added_def)
qed

theorem WarmUp_spec_witness:
  "\<exists>w'. WarmUp 2 (\<lambda>_ _. False) \<lparr>wu_Target = 1, wu_Success = 1, wu_Failed = 1, wu_Status = WarmupStateCompleted\<rparr> = Some (False, w')
     \<and> wu_Failed w' = 3 \<and> wu_Status w' \<noteq> WarmupStateFailed"
  using WarmUp_spec [of 2 "\<lparr>wu_Target = 1, wu_Success = 1, wu_Failed = 1, wu_Status = WarmupStateCompleted\<rparr>" "\<lambda>_ _. False"]
  by auto

section \<open>Events\<close>

record 'd event_chan =
  ev_queue :: "'d list"
  ev_closed :: bool
  ev_isShuttingDown :: bool

text \<open>A send on the closed channel panics and is recovered.\<close>

definition sendEvent :: "'d \<Rightarrow> 'd event_chan \<Rightarrow> 'd event_chan" where
  "sendEvent e s = (if ev_isShuttingDown s then s else if ev_closed s then s
     else if length (ev_queue s) < 1000 then s\<lparr>ev_queue := ev_queue s @ [e]\<rparr> else s)"

text \<open>Steps 1 to 4 of \<open>Close\<close>; \<open>None\<close> is the panic of closing a closed channel.\<close>

definition Close_events :: "'d \<Rightarrow> 'd event_chan \<Rightarrow> 'd event_chan option" where
  "Close_events shutdown s = (let s1 = sendEvent shutdown (s\<lparr>ev_isShuttingDown := True\<rparr>) in
     if ev_closed s1 then None else Some (s1\<lparr>ev_closed := True\<rparr>))"

text \<open>The queue never exceeds 1000 events; the shutdown event is never sent, because the flag that
  \<open>sendEvent\<close> tests is set before; a second \<open>Close\<close> panics, also after \<open>ShutdownGraceful\<close>.\<close>

theorem events_spec:
  "(length (ev_queue s) \<le> 1000 \<longrightarrow> length (ev_queue (sendEvent e s)) \<le> 1000)
   \<and> (\<forall>s'. Close_events e s = Some s' \<longrightarrow> ev_queue s' = ev_queue s \<and> ev_isShuttingDown s'
        \<and> sendEvent e' s' = s' \<and> Close_events e s' = None)
   \<and> (Close_events e s = None \<longleftrightarrow> ev_closed s)"
  by (auto simp: sendEvent_def Close_events_def Let_def split: if_splits)

section \<open>Connecting and executing through the monitored driver\<close>

definition MonitoredDriver_Connect :: "string option \<Rightarrow> pconn \<Rightarrow> string option \<times> pconn" where
  "MonitoredDriver_Connect connectErr c0 =
    (let c = acquireUse c0; oldState = c_state c in
     case transitionState StateConnecting c of
       (False, c1) \<Rightarrow> (Some (''cannot transition to connecting state: current='' @ ConnectionState_String oldState), releaseUse c1)
     | (True, c1) \<Rightarrow> (connectErr, releaseUse (snd (transitionState
         (if connectErr = None then StateAcquired else StateIdle) c1))))"

text \<open>\<open>Connect\<close> always fails on the connection a client holds, and leaves it as it was. On an idle
  connection it reports the driver's error, but the table does not allow the way back to idle: the
  connection stays in the connecting state.\<close>

theorem Connect_spec:
  "(c_state c \<noteq> StateIdle \<longrightarrow> fst (MonitoredDriver_Connect e c) \<noteq> None \<and> snd (MonitoredDriver_Connect e c) = c)
   \<and> (c_state c = StateIdle \<longrightarrow> MonitoredDriver_Connect e c
        = (e, c\<lparr>c_state := (if e = None then StateAcquired else StateConnecting)\<rparr>))"
  by (cases "c_state c") (auto simp: MonitoredDriver_Connect_def Let_def conn_simps canTransitionTo_def)

section \<open>Background tasks and candidates for a rebuild\<close>

datatype background = HealthCheckTask | CleanupTask | MetricsTask | EventHandlerTask | RebuildTask

text \<open>\<open>startBackgroundTasks\<close>; \<open>None\<close> is the panic of \<open>time.NewTicker\<close> on an interval that is not
  positive. The intervals of the cleaner and of the metrics task are constants.\<close>

definition startBackgroundTasks :: "config \<Rightarrow> background list option" where
  "startBackgroundTasks cfg = (if HealthCheckTime cfg \<le> 0 then None else
    (let interval = or_default (RebuildCheckInterval cfg) (5 * Minute) in
     Some ([HealthCheckTask, CleanupTask, MetricsTask, EventHandlerTask]
       @ (if SmartRebuildEnabled cfg \<and> \<not> interval < 5 * Second then [RebuildTask] else []))))"

text \<open>\<open>RebuildConnectionByProto\<close>: every connection is evaluated, then the marked ones are taken.\<close>

definition evaluate_connections :: "config \<Rightarrow> gtime \<Rightarrow> pconn list \<Rightarrow> pconn list" where
  "evaluate_connections cfg now cs =
     (if SmartRebuildEnabled cfg then map (\<lambda>c. fst (snd (ShouldRebuild cfg now c))) cs else cs)"

definition getConnectionsForRebuild :: "pconn list \<Rightarrow> pconn list" where
  "getConnectionsForRebuild cs = filter isMarkedForRebuild cs"


lemma ShouldRebuild_mark:
  assumes "conn_wf c"
  shows "isMarkedForRebuild (fst (snd (ShouldRebuild cfg now c))) = fst (ShouldRebuild cfg now c)"
proof -
  have m: "c_markedForRebuild c \<in> {0, 1}" using assms by (simp add: conn_wf_def)
  show ?thesis
    by (cases rule: EvaluateAndMark_cases [OF m, of cfg now]) (auto simp: ShouldRebuild_def isMarkedForRebuild_def)
qed

text \<open>A periodic rebuild takes exactly the connections that are marked already or that the
  evaluation marks now.\<close>

theorem rebuild_candidates:
  assumes "\<forall>c \<in> set cs. conn_wf c"
  shows "getConnectionsForRebuild (evaluate_connections cfg now cs)
    = (if SmartRebuildEnabled cfg
       then map (\<lambda>c. fst (snd (ShouldRebuild cfg now c))) (filter (\<lambda>c. fst (ShouldRebuild cfg now c)) cs)
       else filter isMarkedForRebuild cs)"
  using assms ShouldRebuild_mark
  by (auto simp: getConnectionsForRebuild_def evaluate_connections_def filter_map comp_def intro!: arg_cong [of _ _ "map _"] filter_cong)

theorem rebuild_candidates_witness:
  "getConnectionsForRebuild (evaluate_connections (NewConfigBuilder\<lparr>SmartRebuildEnabled := False\<rparr>) 7
     [sample_conn, sample_conn\<lparr>c_markedForRebuild := 1\<rparr>]) = [sample_conn\<lparr>c_markedForRebuild := 1\<rparr>]"
proof -
  have "\<forall>c \<in> set [sample_conn, sample_conn\<lparr>c_markedForRebuild := 1\<rparr>]. conn_wf c"
    by (simp add: conn_wf_def sample_conn_def)
  from rebuild_candidates [OF this] show ?thesis by (simp add: isMarkedForRebuild_def sample_conn_def)
qed

text \<open>A configuration can pass the validation and still stop the program when the pool starts its
  tasks: the interval of the health checks is not validated.\<close>

theorem health_interval_unchecked:
  "\<exists>cfg. Config_Validate cfg = None \<and> startBackgroundTasks cfg = None"
proof -
  let ?cfg = "WithProtocol ProtocolSSH PlatformCiscoIOSXE (WithBasicAuth ''10.0.0.1'' ''admin'' ''secret'' NewConfigBuilder)
    \<lparr>HealthCheckTime := 0\<rparr>"
  have "Config_Validate ?cfg = None \<and> startBackgroundTasks ?cfg = None" by code_simp
  then show ?thesis by blast
qed

end
