(* ===== verification/Lines.thy ===== *)
theory Lines
  imports Conn_Config
begin

text \<open>
  Monitored lines and their routers (\<open>syncer/types.go\<close>). \<open>ComputeHash\<close> is FNV-1a with 64 bits
  over the bytes of the fields in the order the code writes them; strings are lists of bytes.
\<close>

unbundle bit_operations_syntax

record Router =
  r_IP :: string
  r_Username :: string
  r_Password :: string
  r_Platform :: Platform
  r_Protocol :: Protocol

record Line =
  l_ID :: string
  l_IP :: string
  l_Interval :: duration
  l_Router :: Router
  l_Hash :: "64 word"

definition DefaultInterval :: duration where
  "DefaultInterval = 3 * Minute"

datatype ChangeType = LineCreate | LineUpdate | LineDelete

record LineChangeEvent =
  ev_Type :: ChangeType
  ev_Line :: Line
  ev_Version :: int

definition ToConnectionConfig :: "Router \<Rightarrow> ConnectionConfig" where
  "ToConnectionConfig r = \<lparr>lc_IP = r_IP r, lc_Username = r_Username r,
     lc_Password = r_Password r, lc_Port = 22, lc_Timeout = 30 * Second,
     lc_Metadata = [''platform'' \<mapsto> VPlatform (r_Platform r), ''protocol'' \<mapsto> VProtocol (r_Protocol r)]\<rparr>"

definition FetchRouterDetails :: "string \<Rightarrow> Router" where
  "FetchRouterDetails ip = \<lparr>r_IP = ip, r_Username = ''admin'', r_Password = ''password'',
     r_Platform = ''cisco_iosxe'', r_Protocol = []\<rparr>"

section \<open>The line hash\<close>

definition fnv_offset :: "64 word" where "fnv_offset = 14695981039346656037"
definition fnv_prime :: "64 word" where "fnv_prime = 1099511628211"

definition fnv_byte :: "64 word \<Rightarrow> 64 word \<Rightarrow> 64 word" where
  "fnv_byte h b = (h XOR b) * fnv_prime"

definition fnv_write :: "64 word list \<Rightarrow> 64 word \<Rightarrow> 64 word" where
  "fnv_write bs h = foldl fnv_byte h bs"

definition string_bytes :: "string \<Rightarrow> 64 word list" where
  "string_bytes s = map (\<lambda>c. of_nat (of_char c)) s"

text \<open>\<open>binary.LittleEndian\<close> of an \<open>int64\<close>: eight bytes, the least significant first.\<close>

definition int64_bytes :: "int \<Rightarrow> 64 word list" where
  "int64_bytes n = map (\<lambda>i. drop_bit (8 * i) (word_of_int n) AND 255) [0..<8]"

definition ComputeHash :: "Line \<Rightarrow> Line" where
  "ComputeHash l = l\<lparr>l_Hash :=
     fnv_write (string_bytes (r_Platform (l_Router l)))
      (fnv_write (string_bytes (r_Password (l_Router l)))
       (fnv_write (string_bytes (r_Username (l_Router l)))
        (fnv_write (string_bytes (r_IP (l_Router l)))
         (fnv_write (int64_bytes (l_Interval l))
          (fnv_write (string_bytes (l_IP l))
           (fnv_write (string_bytes (l_ID l)) fnv_offset))))))\<rparr>"

text \<open>What the hash depends on: the concatenated bytes.\<close>

definition hash_input :: "Line \<Rightarrow> 64 word list" where
  "hash_input l = string_bytes (l_ID l @ l_IP l) @ int64_bytes (l_Interval l)
     @ string_bytes (r_IP (l_Router l) @ r_Username (l_Router l) @ r_Password (l_Router l)
         @ r_Platform (l_Router l))"

section \<open>Lemmas\<close>

lemma fnv_write_append: "fnv_write (a @ b) h = fnv_write b (fnv_write a h)"
  by (simp add: fnv_write_def)

lemma string_bytes_append: "string_bytes (a @ b) = string_bytes a @ string_bytes b"
  by (simp add: string_bytes_def)

lemma ComputeHash_input: "l_Hash (ComputeHash l) = fnv_write (hash_input l) fnv_offset"
  by (simp add: ComputeHash_def hash_input_def fnv_write_append string_bytes_append)

lemma ComputeHash_fields [simp]:
  "l_ID (ComputeHash l) = l_ID l" "l_IP (ComputeHash l) = l_IP l"
  "l_Interval (ComputeHash l) = l_Interval l" "l_Router (ComputeHash l) = l_Router l"
  by (simp_all add: ComputeHash_def)

lemma ComputeHash_idem: "ComputeHash (ComputeHash l) = ComputeHash l"
  by (simp add: ComputeHash_def)

text \<open>The prime is odd, so one round is injective in the state and in the byte.\<close>

definition fnv_inverse :: "64 word" where "fnv_inverse = 14886173955864302971"

lemma fnv_prime_inverse: "fnv_prime * fnv_inverse = 1"
  by (simp add: fnv_prime_def fnv_inverse_def)

lemma xor_cancel: "a XOR c = b XOR c \<longleftrightarrow> a = b" for a b c :: "64 word"
proof
  assume "a XOR c = b XOR c"
  then have "(a XOR c) XOR c = (b XOR c) XOR c" by simp
  then show "a = b" by (simp add: xor.assoc)
qed simp

lemma fnv_byte_eq: "fnv_byte h b = fnv_byte h' b' \<longleftrightarrow> h XOR b = h' XOR b'"
proof
  assume "fnv_byte h b = fnv_byte h' b'"
  then have "(h XOR b) * (fnv_prime * fnv_inverse) = (h' XOR b') * (fnv_prime * fnv_inverse)"
    unfolding fnv_byte_def mult.assoc [symmetric] by simp
  then show "h XOR b = h' XOR b'" by (simp add: fnv_prime_inverse)
qed (simp add: fnv_byte_def)

lemma fnv_write_inj_state: "fnv_write bs h = fnv_write bs h' \<longleftrightarrow> h = h'"
proof (induction bs arbitrary: h h')
  case (Cons b bs)
  then show ?case by (simp add: fnv_write_def fnv_byte_eq xor_cancel)
qed (simp add: fnv_write_def)

section \<open>Properties\<close>

text \<open>A change of a single byte in the identifier, the address, the interval or the router's
  address, user name, password or platform of a line always changes its 64-bit hash.\<close>

theorem ComputeHash_detects_byte:
  assumes "hash_input l = a @ b # c" "hash_input l' = a @ b' # c" "b \<noteq> b'"
  shows "l_Hash (ComputeHash l) \<noteq> l_Hash (ComputeHash l')"
proof
  assume "l_Hash (ComputeHash l) = l_Hash (ComputeHash l')"
  then have "fnv_write c (fnv_byte (fnv_write a fnv_offset) b) = fnv_write c (fnv_byte (fnv_write a fnv_offset) b')"
    unfolding ComputeHash_input assms(1,2) fnv_write_append by (simp add: fnv_write_def)
  then have "fnv_write a fnv_offset XOR b = fnv_write a fnv_offset XOR b'"
    by (simp add: fnv_write_inj_state fnv_byte_eq)
  then have "b = b'" by (simp add: xor.commute [of _ b] xor.commute [of _ b'] xor_cancel)
  with assms(3) show False ..
qed

definition sample_line :: Line where
  "sample_line = \<lparr>l_ID = ''7'', l_IP = ''10.0.0.1'', l_Interval = 3 * Minute,
     l_Router = \<lparr>r_IP = ''10.1.1.1'', r_Username = ''u'', r_Password = ''p'',
       r_Platform = PlatformCiscoIOSXE, r_Protocol = ProtocolScrapli\<rparr>, l_Hash = 0\<rparr>"

theorem ComputeHash_detects_byte_witness:
  "l_Hash (ComputeHash sample_line) \<noteq> l_Hash (ComputeHash (sample_line\<lparr>l_ID := ''8''\<rparr>))"
proof -
  have i: "hash_input sample_line = [] @ 55 # tl (hash_input sample_line)"
       "hash_input (sample_line\<lparr>l_ID := ''8''\<rparr>) = [] @ 56 # tl (hash_input sample_line)"
    by (simp_all add: hash_input_def sample_line_def string_bytes_def)
  show ?thesis by (rule ComputeHash_detects_byte [OF i]) simp
qed

text \<open>The hash is blind to a change of the router's protocol, and to a byte that moves from
  the end of the identifier to the start of the address.\<close>

theorem ComputeHash_blind:
  "l_Hash (ComputeHash (l\<lparr>l_Router := (l_Router l)\<lparr>r_Protocol := p\<rparr>\<rparr>)) = l_Hash (ComputeHash l)
   \<and> l_Hash (ComputeHash (l\<lparr>l_ID := i, l_IP := c # ip\<rparr>))
     = l_Hash (ComputeHash (l\<lparr>l_ID := i @ [c], l_IP := ip\<rparr>))"
  unfolding ComputeHash_input by (simp add: hash_input_def)

end
