(* ===== verification/Interval_Queue.thy ===== *)
theory Interval_Queue
  imports Lines
begin

text \<open>
  The interval task queue (\<open>manager/interval_queue.go\<close>): the lines checked at one interval and
  the buffered channel of execution signals its ticker fills. Every method holds the queue's
  mutex, so each is one atomic step.
\<close>

abbreviation exec_capacity :: nat where "exec_capacity \<equiv> 200"

record IntervalTaskQueue =
  q_interval :: duration
  q_lines :: "Line list"
  q_signals :: nat
  q_ticks :: nat
  q_stopped :: bool

definition NewIntervalTaskQueue :: "duration \<Rightarrow> IntervalTaskQueue" where
  "NewIntervalTaskQueue interval = \<lparr>q_interval = (if interval \<le> 0 then 1 else interval),
     q_lines = [], q_signals = 0, q_ticks = 0, q_stopped = False\<rparr>"

text \<open>One iteration of the scheduling loop on a tick: the send does not block.\<close>

definition schedule :: "IntervalTaskQueue \<Rightarrow> IntervalTaskQueue" where
  "schedule q = (if q_stopped q then q
     else q\<lparr>q_ticks := Suc (q_ticks q),
            q_signals := (if q_signals q < exec_capacity then Suc (q_signals q) else q_signals q)\<rparr>)"

text \<open>A worker's receive on \<open>ExecNotify()\<close>; it blocks (\<open>None\<close>) without a signal.\<close>

definition ExecNotify :: "IntervalTaskQueue \<Rightarrow> IntervalTaskQueue option" where
  "ExecNotify q = (if q_signals q = 0 then None else Some (q\<lparr>q_signals := q_signals q - 1\<rparr>))"

definition GetTasksSnapshot :: "IntervalTaskQueue \<Rightarrow> Line list" where
  "GetTasksSnapshot q = q_lines q"

definition IsEmpty :: "IntervalTaskQueue \<Rightarrow> bool" where
  "IsEmpty q \<longleftrightarrow> length (q_lines q) = 0"

definition Remove :: "string \<Rightarrow> IntervalTaskQueue \<Rightarrow> IntervalTaskQueue" where
  "Remove lineIP q = q\<lparr>q_lines := remove_first (\<lambda>l. l_IP l = lineIP) (q_lines q)\<rparr>"

definition Queue_Contains :: "string \<Rightarrow> IntervalTaskQueue \<Rightarrow> bool" where
  "Queue_Contains lineIP q \<longleftrightarrow> find_first (\<lambda>l. l_IP l = lineIP) (q_lines q) \<noteq> None"

definition Queue_Stop :: "IntervalTaskQueue \<Rightarrow> IntervalTaskQueue" where
  "Queue_Stop q = q\<lparr>q_stopped := True\<rparr>"

definition Add :: "Line \<Rightarrow> IntervalTaskQueue \<Rightarrow> IntervalTaskQueue" where
  "Add line q = q\<lparr>q_lines := q_lines q @ [line]\<rparr>"

definition UpdateTask :: "Line \<Rightarrow> IntervalTaskQueue \<Rightarrow> IntervalTaskQueue" where
  "UpdateTask line q = q\<lparr>q_lines := replace_first (\<lambda>t. l_IP t = l_IP line) line (q_lines q)\<rparr>"

definition ReplaceAll :: "Line list \<Rightarrow> IntervalTaskQueue \<Rightarrow> IntervalTaskQueue" where
  "ReplaceAll lines q = q\<lparr>q_lines := lines\<rparr>"

lemmas queue_defs = NewIntervalTaskQueue_def Remove_def Queue_Contains_def Add_def UpdateTask_def
  GetTasksSnapshot_def IsEmpty_def ReplaceAll_def

section \<open>The contract the scheduler relies on\<close>

locale line_queue =
  fixes fresh :: "duration \<Rightarrow> 'q"
    and snapshot :: "'q \<Rightarrow> Line list"
    and add :: "Line \<Rightarrow> 'q \<Rightarrow> 'q"
    and remove :: "string \<Rightarrow> 'q \<Rightarrow> 'q"
    and update :: "Line \<Rightarrow> 'q \<Rightarrow> 'q"
    and has :: "string \<Rightarrow> 'q \<Rightarrow> bool"
  assumes fresh_empty: "snapshot (fresh d) = []"
    and add_last: "snapshot (add l q) = snapshot q @ [l]"
    and remove_one: "snapshot (remove ip q) = remove_first (\<lambda>l. l_IP l = ip) (snapshot q)"
    and update_one: "snapshot (update l q) = replace_first (\<lambda>t. l_IP t = l_IP l) l (snapshot q)"
    and has_iff: "has ip q \<longleftrightarrow> ip \<in> l_IP ` set (snapshot q)"
begin

definition unique :: "'q \<Rightarrow> bool" where
  "unique q \<longleftrightarrow> distinct (map l_IP (snapshot q))"

lemma unique_fresh: "unique (fresh d)"
  by (simp add: unique_def fresh_empty)

lemma unique_add: "unique q \<Longrightarrow> \<not> has (l_IP l) q \<Longrightarrow> unique (add l q)"
  by (simp add: unique_def add_last has_iff)

lemma unique_remove: "unique q \<Longrightarrow> unique (remove ip q)"
  by (simp add: unique_def remove_one distinct_remove_first)

lemma unique_update: "unique q \<Longrightarrow> unique (update l q)"
  by (simp add: unique_def update_one map_replace_first_key)

lemma set_add: "set (snapshot (add l q)) = insert l (set (snapshot q))"
  by (auto simp: add_last)

lemma set_remove: "unique q \<Longrightarrow> set (snapshot (remove ip q)) = {l \<in> set (snapshot q). l_IP l \<noteq> ip}"
  by (auto simp: unique_def remove_one remove_first_distinct)

lemma has_remove: "unique q \<Longrightarrow> has i (remove ip q) \<longleftrightarrow> i \<noteq> ip \<and> has i q"
  by (auto simp: has_iff set_remove)

lemma set_update: "unique q \<Longrightarrow> set (snapshot (update l q)) = (if has (l_IP l) q
    then insert l {t \<in> set (snapshot q). l_IP t \<noteq> l_IP l} else set (snapshot q))"
  by (simp add: unique_def update_one set_replace_first_distinct has_iff)

lemma has_update: "has i (update l q) \<longleftrightarrow> has i q"
proof -
  have "l_IP ` set (snapshot (update l q)) = set (map l_IP (snapshot (update l q)))" by simp
  also have "\<dots> = l_IP ` set (snapshot q)" by (simp only: update_one map_replace_first_key set_map)
  finally show ?thesis by (simp add: has_iff)
qed

end

interpretation iq: line_queue NewIntervalTaskQueue GetTasksSnapshot Add Remove UpdateTask Queue_Contains
proof
  show "GetTasksSnapshot (UpdateTask l q) = replace_first (\<lambda>t. l_IP t = l_IP l) l (GetTasksSnapshot q)" for l q
    by (simp add: queue_defs)
qed (auto simp: queue_defs)

lemmas [queue_simps] = iq.fresh_empty iq.set_add iq.set_remove iq.set_update iq.has_iff iq.has_remove
  iq.has_update

section \<open>Ticks and signals\<close>

datatype queue_event = Tick | Take

fun queue_step :: "queue_event \<Rightarrow> IntervalTaskQueue \<Rightarrow> IntervalTaskQueue" where
  "queue_step Tick q = schedule q"
| "queue_step Take q = (case ExecNotify q of None \<Rightarrow> q | Some q' \<Rightarrow> q')"

text \<open>The signal channel of a running queue never exceeds its capacity, never runs ahead of the
  ticker, and keeps every tick for a worker as long as it is not full; a stopped queue gets no
  further signal.\<close>

theorem queue_signals:
  "let q = fold queue_step evs (NewIntervalTaskQueue d) in
     q_signals q \<le> exec_capacity \<and> q_signals q \<le> q_ticks q \<and> 0 < q_interval q
   \<and> (q_signals q < exec_capacity \<and> \<not> q_stopped q \<longrightarrow>
        q_signals (queue_step Tick q) = Suc (q_signals q)
        \<and> queue_step Take (queue_step Tick q) = q\<lparr>q_ticks := Suc (q_ticks q)\<rparr>)
   \<and> queue_step Tick (Queue_Stop q) = Queue_Stop q"
proof -
  define inv where "inv q \<longleftrightarrow> q_signals q \<le> exec_capacity \<and> q_signals q \<le> q_ticks q \<and> 0 < q_interval q" for q :: IntervalTaskQueue
  have step: "inv q \<Longrightarrow> inv (queue_step e q)" for e q
    by (cases e) (auto simp: inv_def schedule_def ExecNotify_def)
  have "inv q \<Longrightarrow> inv (fold queue_step evs q)" for q
    by (induction evs arbitrary: q) (auto intro: step)
  moreover have "inv (NewIntervalTaskQueue d)" by (simp add: inv_def NewIntervalTaskQueue_def)
  ultimately have "inv (fold queue_step evs (NewIntervalTaskQueue d))" by blast
  then show ?thesis
    by (simp add: Let_def inv_def schedule_def ExecNotify_def Queue_Stop_def)
qed

theorem queue_signals_witness:
  "let q = fold queue_step [Tick, Tick, Take] (NewIntervalTaskQueue 0) in
     q_signals q = 1 \<and> q_signals (queue_step Tick q) = 2 \<and> q_signals q \<le> exec_capacity"
  using queue_signals [of "[Tick, Tick, Take]" 0]
  by (simp add: Let_def schedule_def ExecNotify_def NewIntervalTaskQueue_def)

end
