(* ===== verification/Go_Slices.thy ===== *)
theory Go_Slices
  imports Prelude
begin

text \<open>
  Go slices with their backing arrays. The manager hands its slice of lines to the scheduler it
  creates, so both see each other's writes as long as neither has outgrown the array. An array
  is a list whose length is the capacity; a slice is an array and a length (every slice here
  starts at index 0). \<open>grow\<close> is the runtime's choice of a larger capacity.
\<close>

record 'a sheap =
  sh_arr :: "nat \<Rightarrow> 'a list"
  sh_next :: nat

record slice =
  sl_arr :: nat
  sl_len :: nat

definition slice_read :: "'a sheap \<Rightarrow> slice \<Rightarrow> 'a list" where
  "slice_read h s = take (sl_len s) (sh_arr h (sl_arr s))"

text \<open>\<open>make([]T, 0)\<close>: an array of its own, without capacity.\<close>

definition slice_make :: "'a sheap \<Rightarrow> 'a sheap \<times> slice" where
  "slice_make h = (h\<lparr>sh_arr := (sh_arr h)(sh_next h := []), sh_next := Suc (sh_next h)\<rparr>,
     \<lparr>sl_arr = sh_next h, sl_len = 0\<rparr>)"

definition slice_append :: "(nat \<Rightarrow> nat) \<Rightarrow> 'a \<Rightarrow> 'a \<Rightarrow> 'a sheap \<Rightarrow> slice \<Rightarrow> 'a sheap \<times> slice" where
  "slice_append grow zero x h s = (let a = sh_arr h (sl_arr s); n = sl_len s in
     if n < length a then (h\<lparr>sh_arr := (sh_arr h)(sl_arr s := a[n := x])\<rparr>, s\<lparr>sl_len := Suc n\<rparr>)
     else (h\<lparr>sh_arr := (sh_arr h)(sh_next h := take n a @ [x] @ replicate (grow n - Suc n) zero),
             sh_next := Suc (sh_next h)\<rparr>,
           \<lparr>sl_arr = sh_next h, sl_len = Suc n\<rparr>))"

definition slice_set :: "nat \<Rightarrow> 'a \<Rightarrow> 'a sheap \<Rightarrow> slice \<Rightarrow> 'a sheap" where
  "slice_set i x h s = h\<lparr>sh_arr := (sh_arr h)(sl_arr s := (sh_arr h (sl_arr s))[i := x])\<rparr>"

text \<open>\<open>append(s[:i], s[i+1:]...)\<close> moves the tail down inside the array and leaves its last cell.\<close>

definition slice_delete :: "nat \<Rightarrow> 'a sheap \<Rightarrow> slice \<Rightarrow> 'a sheap \<times> slice" where
  "slice_delete i h s = (let a = sh_arr h (sl_arr s); n = sl_len s in
     (h\<lparr>sh_arr := (sh_arr h)(sl_arr s := take i a @ take (n - Suc i) (drop (Suc i) a) @ drop (n - 1) a)\<rparr>,
      s\<lparr>sl_len := n - 1\<rparr>))"

fun find_index :: "('a \<Rightarrow> bool) \<Rightarrow> 'a list \<Rightarrow> nat option" where
  "find_index p [] = None"
| "find_index p (x # xs) = (if p x then Some 0 else map_option Suc (find_index p xs))"

definition slice_ok :: "'a sheap \<Rightarrow> slice \<Rightarrow> bool" where
  "slice_ok h s \<longleftrightarrow> sl_len s \<le> length (sh_arr h (sl_arr s)) \<and> sl_arr s < sh_next h"

section \<open>Lemmas\<close>

lemma find_index_None: "find_index p xs = None \<longleftrightarrow> (\<forall>x\<in>set xs. \<not> p x)"
  by (induction xs) auto

lemma find_index_SomeD: "find_index p xs = Some i \<Longrightarrow> i < length xs \<and> p (xs ! i)"
  by (induction xs arbitrary: i) (auto split: if_splits)

lemma find_index_update: "find_index p xs = Some i \<Longrightarrow> xs[i := y] = replace_first p y xs"
  by (induction xs arbitrary: i) (auto split: if_splits)

lemma find_index_remove: "find_index p xs = Some i \<Longrightarrow> take i xs @ drop (Suc i) xs = remove_first p xs"
  by (induction xs arbitrary: i) (auto split: if_splits)

lemma slice_read_make [simp]: "slice_read (fst (slice_make h)) (snd (slice_make h)) = []"
  by (simp add: slice_make_def slice_read_def)

lemma slice_read_append:
  "slice_ok h s \<Longrightarrow> slice_read (fst (slice_append grow z x h s)) (snd (slice_append grow z x h s))
     = slice_read h s @ [x]"
  by (auto simp: slice_append_def slice_read_def slice_ok_def Let_def take_Suc_conv_app_nth)

lemma slice_read_set:
  "i < sl_len s \<Longrightarrow> slice_read (slice_set i x h s) s = (slice_read h s)[i := x]"
  by (simp add: slice_set_def slice_read_def take_update_swap)

lemma slice_parts:
  assumes "slice_ok h s" "i < sl_len s"
  obtains xs y ys zs where "sh_arr h (sl_arr s) = xs @ y # ys @ zs" "i = length xs"
    "sl_len s = Suc (length xs + length ys)" "slice_read h s = xs @ y # ys"
proof -
  let ?a = "sh_arr h (sl_arr s)" and ?n = "sl_len s"
  let ?xs = "take i ?a" and ?ys = "take (?n - Suc i) (drop (Suc i) ?a)" and ?zs = "drop ?n ?a"
  have n: "?n \<le> length ?a" "i < length ?a" using assms by (auto simp: slice_ok_def)
  have z: "drop (Suc i) ?a = ?ys @ ?zs"
    using assms(2) append_take_drop_id [of "?n - Suc i" "drop (Suc i) ?a"] by simp
  have a: "?a = ?xs @ (?a ! i) # ?ys @ ?zs" using id_take_nth_drop [OF n(2)] z by simp
  moreover have "i = length ?xs" "sl_len s = Suc (length ?xs + length ?ys)" using n assms(2) by auto
  ultimately obtain xs y ys zs where
    p: "?a = xs @ y # ys @ zs" "i = length xs" "?n = Suc (length xs + length ys)" by blast
  from p have "slice_read h s = xs @ y # ys" by (simp add: slice_read_def)
  with p show thesis by (rule that)
qed

lemma slice_delete_array:
  assumes "sh_arr h (sl_arr s) = xs @ y # ys @ zs" "sl_len s = Suc (length xs + length ys)"
  shows "sh_arr (fst (slice_delete (length xs) h s)) (sl_arr s) = xs @ ys @ last (y # ys) # zs"
proof -
  have "drop (length ys) (y # ys @ zs) = last (y # ys) # zs"
    by (cases ys rule: rev_cases) simp_all
  then show ?thesis using assms by (simp add: slice_delete_def Let_def)
qed

lemma slice_read_delete:
  assumes "slice_ok h s" "i < sl_len s"
  shows "slice_read (fst (slice_delete i h s)) (snd (slice_delete i h s))
     = take i (slice_read h s) @ drop (Suc i) (slice_read h s)"
proof -
  from slice_parts [OF assms] obtain xs y ys zs where p: "sh_arr h (sl_arr s) = xs @ y # ys @ zs"
    "i = length xs" "sl_len s = Suc (length xs + length ys)" "slice_read h s = xs @ y # ys" .
  have "snd (slice_delete i h s) = s\<lparr>sl_len := length xs + length ys\<rparr>"
    by (simp add: slice_delete_def Let_def p(3))
  then show ?thesis
    using slice_delete_array [OF p(1,3)] p by (simp add: slice_read_def)
qed

text \<open>A second slice on the same array after a deletion through the first: the deleted element
  is gone, the last one is there twice.\<close>

lemma slice_delete_alias:
  assumes "slice_ok h s" "i < sl_len s"
  shows "slice_read (fst (slice_delete i h s)) s
     = take i (slice_read h s) @ drop (Suc i) (slice_read h s) @ [last (drop i (slice_read h s))]"
proof -
  from slice_parts [OF assms] obtain xs y ys zs where p: "sh_arr h (sl_arr s) = xs @ y # ys @ zs"
    "i = length xs" "sl_len s = Suc (length xs + length ys)" "slice_read h s = xs @ y # ys" .
  show ?thesis using slice_delete_array [OF p(1,3)] p by (simp add: slice_read_def)
qed

text \<open>An append through the shorter slice into a cell the longer one covers is seen by both.\<close>

lemma slice_append_alias:
  assumes "slice_ok h s" "slice_ok h t" "sl_arr s = sl_arr t" "sl_len s < sl_len t"
  shows "slice_read (fst (slice_append grow z x h s)) t = (slice_read h t)[sl_len s := x]"
  using assms by (simp add: slice_append_def slice_read_def slice_ok_def Let_def take_update_swap)

end
