(* ===== verification/Registry.thy ===== *)
theory Registry
  imports Conn_Config
begin

text \<open>
  Task metadata (\<open>task/interface.go\<close>) and the task registry (\<open>task/registry.go\<close>). A task
  implementation is an abstract value \<open>'t\<close>: \<open>ImplFactory()\<close> yields it.
\<close>

type_synonym TaskType = string

abbreviation quote :: string where "quote \<equiv> [CHR 0x27]"

record Result =
  res_Success :: bool
  res_Data :: gmap
  res_Error :: string

record TaskContext =
  tc_TaskType :: TaskType
  tc_Platform :: Platform
  tc_Protocol :: Protocol
  tc_CommandType :: CommandType
  tc_Params :: gmap

record ParamSpec =
  ps_Name :: string
  ps_Type :: string
  ps_Required :: bool
  ps_Default :: "gvalue option"

record 't CommandTypeSupport =
  cts_CommandType :: CommandType
  cts_ImplFactory :: 't
  cts_Params :: "ParamSpec list"

record 't ProtocolSupport =
  prs_Protocol :: Protocol
  prs_CommandTypes :: "'t CommandTypeSupport list"

record 't PlatformSupport =
  pls_Platform :: Platform
  pls_Protocols :: "'t ProtocolSupport list"

record 't TaskMeta =
  tm_Type :: TaskType
  tm_Description :: string
  tm_Platforms :: "'t PlatformSupport list"

type_synonym 't registry = "TaskType \<rightharpoonup> 't TaskMeta"

definition Register :: "'t TaskMeta \<Rightarrow> 't registry \<Rightarrow> string option \<times> 't registry" where
  "Register meta r = (case r (tm_Type meta) of
     Some _ \<Rightarrow> (Some (''task '' @ quote @ tm_Type meta @ quote @ '' already registered''), r)
   | None \<Rightarrow> (None, r(tm_Type meta \<mapsto> meta)))"

text \<open>The nested search loops: platform, protocol, command type, first hit wins.\<close>

fun search_commands :: "CommandType \<Rightarrow> 't CommandTypeSupport list \<Rightarrow> 't option" where
  "search_commands ct [] = None"
| "search_commands ct (c # cs) =
     (if cts_CommandType c = ct then Some (cts_ImplFactory c) else search_commands ct cs)"

fun search_protocols :: "Protocol \<Rightarrow> CommandType \<Rightarrow> 't ProtocolSupport list \<Rightarrow> 't option" where
  "search_protocols pr ct [] = None"
| "search_protocols pr ct (p # ps) =
     (case (if prs_Protocol p = pr then search_commands ct (prs_CommandTypes p) else None) of
        Some t \<Rightarrow> Some t | None \<Rightarrow> search_protocols pr ct ps)"

fun search_platforms ::
  "Platform \<Rightarrow> Protocol \<Rightarrow> CommandType \<Rightarrow> 't PlatformSupport list \<Rightarrow> 't option" where
  "search_platforms pl pr ct [] = None"
| "search_platforms pl pr ct (p # ps) =
     (case (if pls_Platform p = pl then search_protocols pr ct (pls_Protocols p) else None) of
        Some t \<Rightarrow> Some t | None \<Rightarrow> search_platforms pl pr ct ps)"

definition Discover ::
  "TaskType \<Rightarrow> Platform \<Rightarrow> Protocol \<Rightarrow> CommandType \<Rightarrow> 't registry \<Rightarrow> string + 't" where
  "Discover tt pl pr ct r = (case r tt of
     None \<Rightarrow> Inl (''task type '' @ quote @ tt @ quote @ '' not found'')
   | Some meta \<Rightarrow> (case search_platforms pl pr ct (tm_Platforms meta) of
       Some t \<Rightarrow> Inr t
     | None \<Rightarrow> Inl (''no matching task for platform '' @ quote @ pl @ quote @ '', protocol ''
         @ quote @ pr @ quote @ '', command type '' @ quote @ ct @ quote)))"

definition ListPlatforms :: "Platform \<Rightarrow> TaskType list \<Rightarrow> 't registry \<Rightarrow> TaskType list" where
  "ListPlatforms pl order r = filter (\<lambda>tt. case r tt of None \<Rightarrow> False
     | Some meta \<Rightarrow> find_first (\<lambda>p. pls_Platform p = pl) (tm_Platforms meta) \<noteq> None) order"

text \<open>What a registration offers: an entry with the three keys.\<close>

definition offers :: "'t TaskMeta \<Rightarrow> Platform \<Rightarrow> Protocol \<Rightarrow> CommandType \<Rightarrow> 't \<Rightarrow> bool" where
  "offers meta pl pr ct t \<longleftrightarrow> (\<exists>p\<in>set (tm_Platforms meta). pls_Platform p = pl \<and>
     (\<exists>q\<in>set (pls_Protocols p). prs_Protocol q = pr \<and>
       (\<exists>c\<in>set (prs_CommandTypes q). cts_CommandType c = ct \<and> cts_ImplFactory c = t)))"

section \<open>Lemmas\<close>

lemma search_commands_None:
  "search_commands ct cs = None \<longleftrightarrow> (\<forall>c\<in>set cs. cts_CommandType c \<noteq> ct)"
  by (induction cs) auto

lemma search_commands_Some:
  "search_commands ct cs = Some t \<Longrightarrow> \<exists>c\<in>set cs. cts_CommandType c = ct \<and> cts_ImplFactory c = t"
  by (induction cs) (auto split: if_splits)

lemma search_protocols_None:
  "search_protocols pr ct ps = None \<longleftrightarrow>
     (\<forall>p\<in>set ps. prs_Protocol p = pr \<longrightarrow> search_commands ct (prs_CommandTypes p) = None)"
  by (induction ps) (auto split: option.splits)

lemma search_protocols_Some:
  "search_protocols pr ct ps = Some t \<Longrightarrow>
     \<exists>p\<in>set ps. prs_Protocol p = pr \<and> search_commands ct (prs_CommandTypes p) = Some t"
  by (induction ps) (auto split: option.splits if_splits)

lemma search_platforms_None:
  "search_platforms pl pr ct ps = None \<longleftrightarrow>
     (\<forall>p\<in>set ps. pls_Platform p = pl \<longrightarrow> search_protocols pr ct (pls_Protocols p) = None)"
  by (induction ps) (auto split: option.splits)

lemma search_platforms_Some:
  "search_platforms pl pr ct ps = Some t \<Longrightarrow>
     \<exists>p\<in>set ps. pls_Platform p = pl \<and> search_protocols pr ct (pls_Protocols p) = Some t"
  by (induction ps) (auto split: option.splits if_splits)

lemma search_platforms_offers:
  "search_platforms pl pr ct (tm_Platforms meta) = Some t \<Longrightarrow> offers meta pl pr ct t"
  by (fastforce simp: offers_def
      dest: search_platforms_Some search_protocols_Some search_commands_Some)

lemma search_platforms_complete:
  "search_platforms pl pr ct (tm_Platforms meta) = None \<Longrightarrow> \<not> offers meta pl pr ct t"
  by (auto simp: offers_def search_platforms_None search_protocols_None search_commands_None)

section \<open>Properties\<close>

text \<open>Discovery is sound and complete: it returns an implementation the registered task
  offers for the platform, protocol and command type, and it fails exactly when the type is
  not registered or offers none.\<close>

theorem Discover_sound_complete:
  "(\<forall>t. Discover tt pl pr ct r = Inr t \<longrightarrow> (\<exists>meta. r tt = Some meta \<and> offers meta pl pr ct t))
   \<and> ((\<exists>e. Discover tt pl pr ct r = Inl e) \<longleftrightarrow>
        (\<forall>meta. r tt = Some meta \<longrightarrow> (\<forall>t. \<not> offers meta pl pr ct t)))"
proof (cases "r tt")
  case None
  then show ?thesis by (simp add: Discover_def)
next
  case (Some meta)
  then show ?thesis
    by (cases "search_platforms pl pr ct (tm_Platforms meta)")
      (auto simp: Discover_def dest: search_platforms_offers search_platforms_complete)
qed

definition one_task :: "nat TaskMeta" where
  "one_task = \<lparr>tm_Type = ''ping'', tm_Description = [], tm_Platforms =
     [\<lparr>pls_Platform = ''p'', pls_Protocols = [\<lparr>prs_Protocol = ''q'', prs_CommandTypes =
       [\<lparr>cts_CommandType = ''c'', cts_ImplFactory = 7, cts_Params = []\<rparr>]\<rparr>]\<rparr>]\<rparr>"

theorem Discover_sound_complete_witness:
  "\<exists>meta. [''ping'' \<mapsto> one_task] ''ping'' = Some meta \<and> offers meta ''p'' ''q'' ''c'' 7"
proof -
  have "Discover ''ping'' ''p'' ''q'' ''c'' [''ping'' \<mapsto> one_task] = Inr 7"
    by (simp add: Discover_def one_task_def)
  then show ?thesis
    using Discover_sound_complete [of "''ping''" "''p''" "''q''" "''c''" "[''ping'' \<mapsto> one_task]"]
    by blast
qed

text \<open>A task type is registered once: a second registration under the same type reports an
  error and keeps the first, a fresh one succeeds and touches no other type.\<close>

theorem Register_once:
  "let (e, r1) = Register meta r in
     (e = None \<longleftrightarrow> r (tm_Type meta) = None)
   \<and> r1 = (if r (tm_Type meta) = None then r(tm_Type meta \<mapsto> meta) else r)
   \<and> snd (Register meta' r1) (tm_Type meta) \<noteq> None
   \<and> (\<exists>msg. Register meta r1 = (Some msg, r1))"
  by (auto simp: Register_def split: option.splits)

end
