(* ===== verification/Ping.thy ===== *)
theory Ping
  imports Registry
begin

text \<open>
  The ping task (\<open>task/ping.go\<close>): its metadata, parameter validation, command construction per
  platform and the parsers of the device output. A parser receives \<open>result.Data\<close> and returns
  the success flag with the updated data, the only part of the result it writes.
  \<open>ParseOutput\<close> stores \<open>target_ip\<close> as a string before it calls a parser, so the parsers'
  unchecked assertion on it cannot panic. Log calls have no effect on the model.
\<close>

abbreviation StatusCheckFinished :: string where "StatusCheckFinished \<equiv> ''CheckFinished''"
abbreviation StatusParseFailed :: string where "StatusParseFailed \<equiv> ''ParseResultFailed''"

section \<open>Metadata\<close>

datatype task_impl = PingTask

definition ping_params :: "ParamSpec list" where
  "ping_params =
    [\<lparr>ps_Name = ''target_ip'', ps_Type = ''string'', ps_Required = True, ps_Default = None\<rparr>,
     \<lparr>ps_Name = ''repeat'', ps_Type = ''int'', ps_Required = False, ps_Default = Some (VInt 5)\<rparr>,
     \<lparr>ps_Name = ''timeout'', ps_Type = ''duration'', ps_Required = False,
       ps_Default = Some (VDuration (2 * Second))\<rparr>]"

definition enable_param :: ParamSpec where
  "enable_param = \<lparr>ps_Name = ''enable_password'', ps_Type = ''string'', ps_Required = False,
     ps_Default = Some (VString [])\<rparr>"

definition scrapli_support :: "Platform \<Rightarrow> ParamSpec list \<Rightarrow> task_impl PlatformSupport" where
  "scrapli_support pl ps = \<lparr>pls_Platform = pl, pls_Protocols = [\<lparr>prs_Protocol = ProtocolScrapli,
     prs_CommandTypes =
      [\<lparr>cts_CommandType = CommandTypeInteractiveEvent, cts_ImplFactory = PingTask, cts_Params = ps\<rparr>,
       \<lparr>cts_CommandType = CommandTypeCommands, cts_ImplFactory = PingTask, cts_Params = ps\<rparr>]\<rparr>]\<rparr>"

definition PingTask_Meta :: "task_impl TaskMeta" where
  "PingTask_Meta = \<lparr>tm_Type = ''ping'', tm_Description = ''Ping task for network devices'',
     tm_Platforms =
      [scrapli_support PlatformCiscoIOSXE (ping_params @ [enable_param]),
       scrapli_support PlatformCiscoIOSXR (ping_params @ [enable_param]),
       scrapli_support PlatformCiscoNXOS (ping_params @ [enable_param]),
       scrapli_support PlatformHuaweiVRP (ping_params @ [enable_param]),
       scrapli_support PlatformH3CComware ping_params]\<rparr>"

section \<open>Parameters\<close>

text \<open>The error message, \<open>None\<close> when the parameters are accepted.\<close>

definition validate_repeat :: "gmap \<Rightarrow> string option" where
  "validate_repeat params = (case params ''repeat'' of None \<Rightarrow> None
   | Some (VInt n) \<Rightarrow> if n \<le> 0 \<or> 100 < n then Some ''repeat must be between 1 and 100'' else None
   | Some _ \<Rightarrow> Some ''repeat must be an integer'')"

definition validate_timeout :: "gmap \<Rightarrow> string option" where
  "validate_timeout params = (case params ''timeout'' of None \<Rightarrow> None
   | Some (VDuration d) \<Rightarrow> if d \<le> 0 \<or> 60 * Second < d
       then Some ''timeout must be between 1ms and 60s'' else None
   | Some _ \<Rightarrow> Some ''timeout must be a time.Duration'')"

definition validate_enable :: "gmap \<Rightarrow> string option" where
  "validate_enable params = (case params ''enable_password'' of None \<Rightarrow> None
   | Some (VString _) \<Rightarrow> None | Some _ \<Rightarrow> Some ''enable_password must be a string'')"

definition ValidateParams :: "gmap \<Rightarrow> string option" where
  "ValidateParams params = (case params ''target_ip'' of
     None \<Rightarrow> Some ''target_ip parameter is required''
   | Some (VString ip) \<Rightarrow>
       if ip = [] then Some ''target_ip cannot be empty''
       else (case validate_repeat params of Some e \<Rightarrow> Some e
         | None \<Rightarrow> (case validate_timeout params of Some e \<Rightarrow> Some e
           | None \<Rightarrow> validate_enable params))
   | Some _ \<Rightarrow> Some ''target_ip must be a string'')"

section \<open>Commands\<close>

record SendInteractiveEvent =
  ChannelInput :: string
  ChannelResponse :: string
  HideInput :: bool

datatype payload = PCommands "string list" | PEvents "SendInteractiveEvent list" | POther

record Command =
  cmd_Type :: CommandType
  cmd_Payload :: payload

text \<open>\<open>int(d.Seconds())\<close>: the conversion to \<open>int\<close> truncates.\<close>

definition int_Seconds :: "duration \<Rightarrow> int" where
  "int_Seconds d = Duration_of_float (Seconds d)"

definition Milliseconds :: "duration \<Rightarrow> int" where
  "Milliseconds d = quot d Millisecond"

definition buildCiscoEvent :: "string \<Rightarrow> int \<Rightarrow> duration \<Rightarrow> string \<Rightarrow> SendInteractiveEvent list" where
  "buildCiscoEvent targetIP rep timeout enablePassword =
     [\<lparr>ChannelInput = ''ping '' @ targetIP @ '' repeat '' @ Itoa rep @ '' timeout ''
         @ Itoa (int_Seconds timeout),
       ChannelResponse = (if enablePassword \<noteq> [] then ''#'' else ''>''), HideInput = False\<rparr>]"

definition buildHuaweiEvent :: "string \<Rightarrow> int \<Rightarrow> duration \<Rightarrow> SendInteractiveEvent list" where
  "buildHuaweiEvent targetIP rep timeout =
     [\<lparr>ChannelInput = ''ping -c '' @ Itoa rep @ '' -t '' @ Itoa (Milliseconds timeout)
         @ '' '' @ targetIP, ChannelResponse = ''>'', HideInput = False\<rparr>]"

definition buildCiscoCommand :: "string \<Rightarrow> int \<Rightarrow> duration \<Rightarrow> string \<Rightarrow> string list" where
  "buildCiscoCommand targetIP rep timeout enablePassword =
     (if enablePassword \<noteq> [] then [''enable'', enablePassword] else [])
     @ [''ping '' @ targetIP @ '' timeout '' @ Itoa (int_Seconds timeout)]"

definition buildHuaweiCommand :: "string \<Rightarrow> int \<Rightarrow> duration \<Rightarrow> string list" where
  "buildHuaweiCommand targetIP rep timeout =
     [''ping -c '' @ Itoa rep @ '' -t '' @ Itoa (Milliseconds timeout) @ '' '' @ targetIP]"

definition buildH3CCommand :: "string \<Rightarrow> int \<Rightarrow> duration \<Rightarrow> string list" where
  "buildH3CCommand targetIP rep timeout =
     [''ping -c '' @ Itoa rep @ '' -t '' @ Itoa (Milliseconds timeout) @ '' '' @ targetIP]"

definition buildH3CEvent :: "string \<Rightarrow> int \<Rightarrow> duration \<Rightarrow> SendInteractiveEvent list" where
  "buildH3CEvent targetIP rep timeout =
     [\<lparr>ChannelInput = ''ping -c '' @ Itoa rep @ '' -t '' @ Itoa (Milliseconds timeout)
         @ '' '' @ targetIP, ChannelResponse = ''>'', HideInput = False\<rparr>]"

definition cisco_platforms :: "Platform list" where
  "cisco_platforms = [PlatformCiscoIOSXE, PlatformCiscoIOSXR, PlatformCiscoNXOS]"

definition build_payload ::
  "CommandType \<Rightarrow> Platform \<Rightarrow> string \<Rightarrow> int \<Rightarrow> duration \<Rightarrow> string \<Rightarrow> string + Command" where
  "build_payload ct pl ip rep timeout pwd =
    (if ct = CommandTypeCommands then
       if pl \<in> set cisco_platforms
       then Inr \<lparr>cmd_Type = CommandTypeCommands, cmd_Payload = PCommands (buildCiscoCommand ip rep timeout pwd)\<rparr>
       else if pl = PlatformHuaweiVRP
       then Inr \<lparr>cmd_Type = CommandTypeCommands, cmd_Payload = PCommands (buildHuaweiCommand ip rep timeout)\<rparr>
       else if pl = PlatformH3CComware
       then Inr \<lparr>cmd_Type = CommandTypeCommands, cmd_Payload = PCommands (buildH3CCommand ip rep timeout)\<rparr>
       else Inl (''unsupported platform for commands: '' @ pl)
     else if ct = CommandTypeInteractiveEvent then
       if pl \<in> set cisco_platforms
       then Inr \<lparr>cmd_Type = CommandTypeInteractiveEvent, cmd_Payload = PEvents (buildCiscoEvent ip rep timeout pwd)\<rparr>
       else if pl = PlatformHuaweiVRP
       then Inr \<lparr>cmd_Type = CommandTypeInteractiveEvent, cmd_Payload = PEvents (buildHuaweiEvent ip rep timeout)\<rparr>
       else if pl = PlatformH3CComware
       then Inr \<lparr>cmd_Type = CommandTypeInteractiveEvent, cmd_Payload = PEvents (buildH3CEvent ip rep timeout)\<rparr>
       else Inl (''unsupported platform: '' @ pl)
     else Inl (''unsupported command type: '' @ ct))"

definition BuildCommand :: "TaskContext \<Rightarrow> string + Command" where
  "BuildCommand ctx = (let params = tc_Params ctx in
    case params ''target_ip'' of
      None \<Rightarrow> Inl ''target_ip parameter is required''
    | Some (VString ip) \<Rightarrow>
       (case (case params ''repeat'' of None \<Rightarrow> Some 5 | Some (VInt n) \<Rightarrow> Some n | Some _ \<Rightarrow> None) of
          None \<Rightarrow> Inl ''repeat must be integer''
        | Some rep \<Rightarrow>
         (case (case params ''timeout'' of None \<Rightarrow> Some (2 * Second) | Some (VDuration d) \<Rightarrow> Some d
              | Some _ \<Rightarrow> None) of
            None \<Rightarrow> Inl ''timeout must be time.Duration''
          | Some timeout \<Rightarrow>
              let pwd = (case as_string (params ''enable_password'') of Some s \<Rightarrow> s | None \<Rightarrow> [])
              in build_payload (tc_CommandType ctx) (tc_Platform ctx) ip rep timeout pwd))
    | Some _ \<Rightarrow> Inl ''target_ip must be string'')"

section \<open>Parsing the device output\<close>

definition put_rates :: "int \<Rightarrow> gmap \<Rightarrow> gmap" where
  "put_rates loss d = d(''packet_loss'' \<mapsto> VInt loss, ''success_rate'' \<mapsto> VInt (100 - loss))"

definition put_status :: "string \<Rightarrow> gmap \<Rightarrow> gmap" where
  "put_status s d = d(''status'' \<mapsto> VString s)"

definition finished :: "int \<Rightarrow> gmap \<Rightarrow> bool \<times> gmap" where
  "finished loss d = (True, put_status StatusCheckFinished (put_rates loss d))"

definition parse_failed :: "gmap \<Rightarrow> bool \<times> gmap" where
  "parse_failed d = (False, put_status StatusParseFailed d)"

definition note_line :: "string \<Rightarrow> string \<Rightarrow> bool \<Rightarrow> gmap \<Rightarrow> gmap" where
  "note_line key line b d = (if b then d(key \<mapsto> VString line) else d)"

definition is_rtt :: "string \<Rightarrow> bool" where
  "is_rtt line \<longleftrightarrow> Contains line ''round-trip'' \<and> Contains line ''min/avg/max''"

text \<open>The word before the first \<open>percent\<close> that is not the first word of the line.\<close>

fun percent_before :: "string \<Rightarrow> string list \<Rightarrow> string option" where
  "percent_before prev [] = None"
| "percent_before prev (p # ps) = (if p = ''percent'' then Some prev else percent_before p ps)"

definition cisco_rate_line :: "string \<Rightarrow> gmap \<Rightarrow> bool \<times> gmap" where
  "cisco_rate_line line d =
    (if Contains line ''100 percent'' then finished 0 d
     else if Contains line ''0 percent'' then finished 100 d
     else case (case Fields line of [] \<Rightarrow> None | p # ps \<Rightarrow> percent_before p ps) of
         None \<Rightarrow> (True, put_status StatusCheckFinished d)
       | Some w \<Rightarrow> (case Atoi w of
           Some rate \<Rightarrow> finished (100 - rate) d
         | None \<Rightarrow> parse_failed d))"

fun cisco_lines :: "string list \<Rightarrow> gmap \<Rightarrow> bool \<times> gmap" where
  "cisco_lines [] d = parse_failed d"
| "cisco_lines (raw # ls) d = (let line = TrimSpace raw in
     if Contains line ''Success rate is'' then cisco_rate_line line d
     else cisco_lines ls (note_line ''rtt_info'' line (is_rtt line) d))"

definition parseCiscoOutput :: "string \<Rightarrow> gmap \<Rightarrow> bool \<times> gmap" where
  "parseCiscoOutput output d = cisco_lines (Split_lines output) d"

definition nxos_loss_line :: "string \<Rightarrow> gmap \<Rightarrow> bool \<times> gmap" where
  "nxos_loss_line line d =
    (if Contains line ''0.00% packet loss'' then finished 0 d
     else if Contains line ''100.00% packet loss'' then finished 100 d
     else case find_first (\<lambda>part. HasSuffix part ''%'' \<and> Contains part ''packet'') (Fields line) of
         None \<Rightarrow> (True, put_status StatusCheckFinished d)
       | Some part \<Rightarrow> let s = TrimSuffix part ''%'' in
           if s = [] then (True, put_status StatusCheckFinished d)
           else (case Atoi (TrimSuffix s ''.00'') of
             Some loss \<Rightarrow> finished loss d
           | None \<Rightarrow> parse_failed d))"

fun nxos_lines :: "string list \<Rightarrow> gmap \<Rightarrow> bool \<times> gmap" where
  "nxos_lines [] d = parse_failed d"
| "nxos_lines (raw # ls) d = (let line = TrimSpace raw in
     if Contains line ''packet loss'' then nxos_loss_line line d
     else nxos_lines ls (note_line ''packet_stats'' line
        (Contains line ''packets transmitted'' \<and> Contains line ''packets received'')
        (note_line ''rtt_info'' line (is_rtt line) d)))"

definition parseCiscoNxosOutput :: "string \<Rightarrow> gmap \<Rightarrow> bool \<times> gmap" where
  "parseCiscoNxosOutput output d = nxos_lines (Split_lines output) d"

definition huawei_loss_line :: "string \<Rightarrow> gmap \<Rightarrow> bool \<times> gmap" where
  "huawei_loss_line line d =
    (if Contains line ''100% packet loss'' then finished 100 d
     else if Contains line ''0% packet loss'' then finished 0 d
     else case find_first (\<lambda>part. HasSuffix part ''%'') (Fields line) of
         None \<Rightarrow> (True, put_status StatusCheckFinished d)
       | Some part \<Rightarrow> let s = TrimSuffix part ''%'' in
           if s = [] then (True, put_status StatusCheckFinished d)
           else (case Atoi s of Some loss \<Rightarrow> finished loss d | None \<Rightarrow> parse_failed d))"

fun huawei_lines :: "string list \<Rightarrow> gmap \<Rightarrow> bool \<times> gmap" where
  "huawei_lines [] d = parse_failed d"
| "huawei_lines (raw # ls) d = (let line = TrimSpace raw in
     if Contains (ToLower line) ''request time out'' then finished 100 d
     else if Contains line ''packet loss'' then huawei_loss_line line d
     else huawei_lines ls (note_line ''rtt_info'' line (Contains line ''min/avg/max'') d))"

definition parseHuaweiOutput :: "string \<Rightarrow> gmap \<Rightarrow> bool \<times> gmap" where
  "parseHuaweiOutput output d = huawei_lines (Split_lines output) d"

text \<open>
  The expression \<open>(\d+(?:\.\d+)?)\s*%\s*packet\s*loss\<close>. At a given start the match is
  deterministic: the digit runs are maximal because no later part of the expression accepts a
  digit or a dot. The search takes the leftmost start that matches and yields the group.
\<close>

definition re_space :: "char \<Rightarrow> bool" where
  "re_space c \<longleftrightarrow> c \<in> {CHR '' '', CHR 0x09, CHR 0x0A, CHR 0x0C, CHR 0x0D}"

fun strip_prefix :: "string \<Rightarrow> string \<Rightarrow> string option" where
  "strip_prefix [] s = Some s"
| "strip_prefix (c # p) [] = None"
| "strip_prefix (c # p) (d # s) = (if c = d then strip_prefix p s else None)"

definition re_number :: "string \<Rightarrow> (string \<times> string) option" where
  "re_number s = (let ds = takeWhile is_digit s; r = dropWhile is_digit s in
     if ds = [] then None
     else case r of
       c # r' \<Rightarrow> if c = CHR ''.'' \<and> takeWhile is_digit r' \<noteq> []
         then Some (ds @ CHR ''.'' # takeWhile is_digit r', dropWhile is_digit r')
         else Some (ds, r)
     | [] \<Rightarrow> Some (ds, r))"

definition re_tail :: "string \<Rightarrow> bool" where
  "re_tail s = (case strip_prefix ''%'' (dropWhile re_space s) of
     None \<Rightarrow> False
   | Some s1 \<Rightarrow> (case strip_prefix ''packet'' (dropWhile re_space s1) of
       None \<Rightarrow> False
     | Some s2 \<Rightarrow> strip_prefix ''loss'' (dropWhile re_space s2) \<noteq> None))"

definition re_at :: "string \<Rightarrow> string option" where
  "re_at s = (case re_number s of None \<Rightarrow> None
     | Some (num, rest) \<Rightarrow> if re_tail rest then Some num else None)"

fun re_find :: "string \<Rightarrow> string option" where
  "re_find [] = None"
| "re_find (c # s) = (case re_at (c # s) of Some num \<Rightarrow> Some num | None \<Rightarrow> re_find s)"

text \<open>\<open>strconv.ParseFloat\<close> on digits with an optional fraction: the nearest float64, an error
  when it overflows.\<close>

definition dec_value :: "string \<Rightarrow> rat" where
  "dec_value s = (let ip = takeWhile (\<lambda>c. c \<noteq> CHR ''.'') s;
       fp = drop 1 (dropWhile (\<lambda>c. c \<noteq> CHR ''.'') s)
     in of_nat (dec_nat (ip @ fp)) / 10 ^ length fp)"

definition ParseFloat :: "string \<Rightarrow> rat option" where
  "ParseFloat s = (let v = float_round (dec_value s) in if v < pow2 1024 then Some v else None)"

definition h3c_percent :: "rat \<Rightarrow> int" where
  "h3c_percent x = \<lfloor>if x < 0 then 0 else if 100 < x then 100 else x\<rfloor>"

datatype h3c_scan = H3CNone | H3CFailed | H3CFound int

fun h3c_stats :: "string list \<Rightarrow> h3c_scan" where
  "h3c_stats [] = H3CNone"
| "h3c_stats (line # ls) = (case re_find line of
     None \<Rightarrow> h3c_stats ls
   | Some num \<Rightarrow> (case ParseFloat num of Some x \<Rightarrow> H3CFound (h3c_percent x) | None \<Rightarrow> H3CFailed))"

definition parseH3COutput :: "string \<Rightarrow> gmap \<Rightarrow> bool \<times> gmap" where
  "parseH3COutput output d = (let lines = Split_lines output in
     case h3c_stats lines of
       H3CNone \<Rightarrow> parse_failed d
     | H3CFailed \<Rightarrow> parse_failed d
     | H3CFound loss \<Rightarrow> let (ok, d1) = finished loss d in
         (case find_first is_rtt lines of
            None \<Rightarrow> (ok, d1)
          | Some line \<Rightarrow> (ok, d1(''rtt_info'' \<mapsto> VString (TrimSpace line)))))"

definition successPatterns :: "string list" where
  "successPatterns = [''0% packet loss'', ''0% loss'', ''100 percent'', ''success rate is 100'']"

definition failPatterns :: "string list" where
  "failPatterns = [''100% packet loss'', ''100% loss'', ''0 percent'',
     ''destination host unreachable'', ''request timeout'', ''no route to host'']"

definition parseGenericOutput :: "string \<Rightarrow> gmap \<Rightarrow> bool \<times> gmap" where
  "parseGenericOutput output d = (let lower = ToLower output in
     if find_first (Contains lower) successPatterns \<noteq> None then finished 0 d
     else if find_first (Contains lower) failPatterns \<noteq> None then finished 100 d
     else parse_failed d)"

text \<open>\<open>ParseOutput\<close> returns the result and the error. The name of the dynamic type in the
  message of the first error comes from \<open>type_name\<close>.\<close>

fun type_name :: "gvalue \<Rightarrow> string" where
  "type_name (VString _) = ''string''"
| "type_name (VBytes _) = ''[]uint8''"
| "type_name (VInt _) = ''int''"
| "type_name (VBool _) = ''bool''"
| "type_name (VDuration _) = ''time.Duration''"
| "type_name (VPlatform _) = ''connection.Platform''"
| "type_name (VProtocol _) = ''connection.Protocol''"
| "type_name VNil = ''<nil>''"
| "type_name (VOther n) = n"

definition parse_platform :: "Platform \<Rightarrow> string \<Rightarrow> gmap \<Rightarrow> bool \<times> gmap" where
  "parse_platform pl output d =
    (if pl = PlatformCiscoIOSXE \<or> pl = PlatformCiscoIOSXR then parseCiscoOutput output d
     else if pl = PlatformCiscoNXOS then parseCiscoNxosOutput output d
     else if pl = PlatformHuaweiVRP then parseHuaweiOutput output d
     else if pl = PlatformH3CComware then parseH3COutput output d
     else parseGenericOutput output d)"

definition ParseOutput :: "TaskContext \<Rightarrow> gvalue \<Rightarrow> Result \<times> string option" where
  "ParseOutput ctx raw =
    (case (case raw of VString s \<Rightarrow> Some s | VBytes s \<Rightarrow> Some s | _ \<Rightarrow> None) of
       None \<Rightarrow> (\<lparr>res_Success = False, res_Data = [''status'' \<mapsto> VString StatusParseFailed],
          res_Error = ''unsupported output type''\<rparr>, Some (''unsupported output type: '' @ type_name raw))
     | Some output \<Rightarrow> (case as_string (tc_Params ctx ''target_ip'') of
         None \<Rightarrow> (\<lparr>res_Success = False, res_Data = [''status'' \<mapsto> VString StatusParseFailed],
            res_Error = ''target_ip parameter missing or invalid''\<rparr>,
            Some ''target_ip parameter missing or invalid'')
       | Some ip \<Rightarrow>
           let (ok, d) = parse_platform (tc_Platform ctx) output
             [''target_ip'' \<mapsto> VString ip, ''raw_output'' \<mapsto> VString output]
           in (\<lparr>res_Success = ok, res_Data = d, res_Error = []\<rparr>, None)))"

end
