(* ===== verification/Router_Scheduler.thy ===== *)
theory Router_Scheduler
  imports Interval_Queue Go_Slices Ping
begin

text \<open>
  The scheduler of one router (\<open>manager/router_scheduler.go\<close>). Its lines are a slice whose array
  it may share with the manager, and its router is a pointer to the router of that array's
  first line; both are read through the heap. The queues carry an identity, because a worker
  is bound to the queue object that existed when \<open>Start\<close> ran and not to its interval. The
  scheduler's mutex makes every handler one atomic step; a timer of \<open>OnLineDeleted\<close> is a
  pending interval whose firing is the step \<open>destroy_queue\<close>.
\<close>

type_synonym line_heap = "Line sheap"

definition zero_line :: Line where
  "zero_line = \<lparr>l_ID = [], l_IP = [], l_Interval = 0, l_Router = \<lparr>r_IP = [], r_Username = [],
     r_Password = [], r_Platform = [], r_Protocol = []\<rparr>, l_Hash = 0\<rparr>"

record RouterScheduler =
  s_router_arr :: nat
  s_lines :: slice
  s_queues :: "duration \<rightharpoonup> nat \<times> IntervalTaskQueue"
  s_next_queue :: nat
  s_workers :: "nat list"
  s_timers :: "duration list"
  s_stopped :: bool
  s_MaxConnections :: int
  s_TaskTimeout :: duration
  s_TaskMaxRetries :: int

definition router_of :: "line_heap \<Rightarrow> RouterScheduler \<Rightarrow> Router" where
  "router_of h s = l_Router (sh_arr h (s_router_arr s) ! 0)"

section \<open>Queues\<close>

text \<open>The queue of an interval, created on first use, with a line appended.\<close>

definition ensure_queue :: "duration \<Rightarrow> RouterScheduler \<Rightarrow> RouterScheduler" where
  "ensure_queue d s = (case s_queues s d of
     Some _ \<Rightarrow> s
   | None \<Rightarrow> s\<lparr>s_queues := (s_queues s)(d \<mapsto> (s_next_queue s, NewIntervalTaskQueue d)),
       s_next_queue := Suc (s_next_queue s)\<rparr>)"

definition with_queue ::
  "duration \<Rightarrow> (IntervalTaskQueue \<Rightarrow> IntervalTaskQueue) \<Rightarrow> RouterScheduler \<Rightarrow> RouterScheduler" where
  "with_queue d f s = (case s_queues s d of
     None \<Rightarrow> s
   | Some (i, q) \<Rightarrow> s\<lparr>s_queues := (s_queues s)(d \<mapsto> (i, f q))\<rparr>)"

definition add_to_queue :: "Line \<Rightarrow> RouterScheduler \<Rightarrow> RouterScheduler" where
  "add_to_queue l s = with_queue (l_Interval l) (Add l) (ensure_queue (l_Interval l) s)"

definition initializeQueues :: "line_heap \<Rightarrow> RouterScheduler \<Rightarrow> RouterScheduler" where
  "initializeQueues h s = fold add_to_queue (slice_read h (s_lines s)) s"

definition scheduler_config :: "Router \<Rightarrow> config" where
  "scheduler_config r =
     WithTaskRetryPolicy 0 (500 * Millisecond) 2
    (WithConnectionRetryPolicy 1 (1 * Second) 2
    (WithConnectionPool 2 1 (5 * Minute + 10 * Second) (3 * Minute + 30 * Second)
    (WithSmartRebuild True 1500 (30 * Minute) (float_round (1 / 5)) 10
    (WithMetadata ''protocol'' (VProtocol (r_Protocol r))
    (WithMetadata ''platform'' (VPlatform (r_Platform r))
    (WithProtocol (r_Protocol r) (r_Platform r)
    (WithBasicAuth (r_IP r) (r_Username r) (r_Password r) NewConfigBuilder)))))))"

text \<open>The connection pool, its warm-up and the preloaded capability start in the background and
  do not decide the result.\<close>

definition NewRouterScheduler :: "line_heap \<Rightarrow> slice \<Rightarrow> string + RouterScheduler" where
  "NewRouterScheduler h lines =
    (case Build (scheduler_config (l_Router (sh_arr h (sl_arr lines) ! 0))) of
       Inl e \<Rightarrow> Inl (''failed to build connection config: '' @ e)
     | Inr c \<Rightarrow> Inr (initializeQueues h
         \<lparr>s_router_arr = sl_arr lines, s_lines = lines, s_queues = Map.empty, s_next_queue = 0,
          s_workers = [], s_timers = [], s_stopped = False, s_MaxConnections = MaxConnections c,
          s_TaskTimeout = TaskTimeout c, s_TaskMaxRetries = TaskMaxRetries c\<rparr>))"

text \<open>\<open>Start\<close> launches one worker per queue present; \<open>order\<close> is the map's iteration order.\<close>

definition Scheduler_Start :: "duration list \<Rightarrow> RouterScheduler \<Rightarrow> RouterScheduler" where
  "Scheduler_Start order s = s\<lparr>s_workers := s_workers s @
     concat (map (\<lambda>d. case s_queues s d of None \<Rightarrow> [] | Some (i, q) \<Rightarrow> [i]) order)\<rparr>"

definition stop_queues :: "(duration \<rightharpoonup> nat \<times> IntervalTaskQueue) \<Rightarrow> duration \<rightharpoonup> nat \<times> IntervalTaskQueue" where
  "stop_queues qs = (\<lambda>d. map_option (\<lambda>(i, q). (i, Queue_Stop q)) (qs d))"

definition Scheduler_Stop :: "RouterScheduler \<Rightarrow> RouterScheduler" where
  "Scheduler_Stop s = s\<lparr>s_stopped := True, s_queues := stop_queues (s_queues s), s_workers := []\<rparr>"

section \<open>Line changes\<close>

definition lineExistsLocked :: "line_heap \<Rightarrow> RouterScheduler \<Rightarrow> string \<Rightarrow> bool" where
  "lineExistsLocked h s lineIP \<longleftrightarrow> find_first (\<lambda>l. l_IP l = lineIP) (slice_read h (s_lines s)) \<noteq> None"

definition OnLineCreated ::
  "(nat \<Rightarrow> nat) \<Rightarrow> Line \<Rightarrow> line_heap \<times> RouterScheduler \<Rightarrow> line_heap \<times> RouterScheduler" where
  "OnLineCreated grow line hs = (let (h, s) = hs in
     if lineExistsLocked h s (l_IP line) then (h, s)
     else let s1 = add_to_queue line s;
              (h1, lines) = slice_append grow zero_line line h (s_lines s)
       in (h1, s1\<lparr>s_lines := lines\<rparr>))"

definition replace_in_lines :: "Line \<Rightarrow> Line \<Rightarrow> line_heap \<Rightarrow> slice \<Rightarrow> line_heap" where
  "replace_in_lines old new h sl = (case find_index (\<lambda>l. l_IP l = l_IP old) (slice_read h sl) of
     None \<Rightarrow> h | Some i \<Rightarrow> slice_set i new h sl)"

definition OnLineUpdated ::
  "Line \<Rightarrow> Line \<Rightarrow> line_heap \<times> RouterScheduler \<Rightarrow> line_heap \<times> RouterScheduler" where
  "OnLineUpdated old new hs = (let (h, s) = hs;
     s1 = (if l_Interval old \<noteq> l_Interval new
           then add_to_queue new (with_queue (l_Interval old) (Remove (l_IP old)) s)
           else with_queue (l_Interval old) (UpdateTask new) s)
     in (replace_in_lines old new h (s_lines s), s1))"

definition OnLineDeleted :: "Line \<Rightarrow> RouterScheduler \<Rightarrow> RouterScheduler" where
  "OnLineDeleted line s = (case s_queues s (l_Interval line) of
     None \<Rightarrow> s
   | Some (i, q) \<Rightarrow>
       if \<not> Queue_Contains (l_IP line) q then s
       else let q1 = Remove (l_IP line) q;
                s1 = s\<lparr>s_queues := (s_queues s)(l_Interval line \<mapsto> (i, q1))\<rparr>
         in if IsEmpty q1 then s1\<lparr>s_timers := l_Interval line # s_timers s1\<rparr> else s1)"

text \<open>The function \<open>OnLineDeleted\<close> schedules ten minutes ahead.\<close>

definition destroy_queue :: "duration \<Rightarrow> RouterScheduler \<Rightarrow> RouterScheduler" where
  "destroy_queue d s = (let s = s\<lparr>s_timers := remove1 d (s_timers s)\<rparr> in
     case s_queues s d of
       None \<Rightarrow> s
     | Some (i, q) \<Rightarrow> if IsEmpty q then s\<lparr>s_queues := (s_queues s)(d := None)\<rparr> else s)"

definition OnLineReset ::
  "(nat \<Rightarrow> nat) \<Rightarrow> Line list \<Rightarrow> line_heap \<times> RouterScheduler \<Rightarrow> line_heap \<times> RouterScheduler" where
  "OnLineReset grow newLines hs = (let (h, s) = hs;
     (h1, empty) = (h\<lparr>sh_arr := (sh_arr h)(sh_next h := replicate (length newLines) zero_line),
       sh_next := Suc (sh_next h)\<rparr>, \<lparr>sl_arr = sh_next h, sl_len = 0\<rparr>)
     in fold (\<lambda>line (h, s). let (h', sl) = slice_append grow zero_line line h (s_lines s)
          in (h', (add_to_queue line s)\<lparr>s_lines := sl\<rparr>)) newLines
        (h1, s\<lparr>s_queues := Map.empty, s_lines := empty\<rparr>))"

text \<open>The contents of a queue, empty when there is none, and the lines that some running worker
  serves.\<close>

definition queue_tasks :: "RouterScheduler \<Rightarrow> duration \<Rightarrow> Line list" where
  "queue_tasks s d = (case s_queues s d of None \<Rightarrow> [] | Some (i, q) \<Rightarrow> GetTasksSnapshot q)"

definition served :: "RouterScheduler \<Rightarrow> Line \<Rightarrow> bool" where
  "served s l \<longleftrightarrow> (\<exists>d i q. s_queues s d = Some (i, q) \<and> i \<in> set (s_workers s) \<and> l \<in> set (GetTasksSnapshot q))"

section \<open>Executing a queue\<close>

text \<open>
  One execution as the sequence of its effects on the semaphore, the pool and the executor.
  The answers of the environment are the arguments: whether the context is done at the two
  points that test it, what the pool and the executor return.
\<close>

datatype 'c ping_action = AcquireSem | ReleaseSem | GetConn 'c | ReleaseConn 'c
  | SubmitTask 'c TaskContext | SubmitResult Line Result

definition ping_context :: "Router \<Rightarrow> CommandType \<Rightarrow> Line \<Rightarrow> TaskContext" where
  "ping_context r ct line = \<lparr>tc_TaskType = ''ping'', tc_Platform = r_Platform r,
     tc_Protocol = r_Protocol r, tc_CommandType = ct,
     tc_Params = [''target_ip'' \<mapsto> VString (l_IP line), ''repeat'' \<mapsto> VInt 5,
       ''timeout'' \<mapsto> VDuration (2 * Second)]\<rparr>"

record 'c ping_env =
  pe_done_at_semaphore :: bool
  pe_done_before_get :: bool
  pe_conn :: "string + 'c"
  pe_submit_error :: "string option"

definition executeIndividualPing ::
  "'c ping_env \<Rightarrow> Router \<Rightarrow> CommandType \<Rightarrow> Line \<Rightarrow> 'c ping_action list" where
  "executeIndividualPing env r ct line =
    (if pe_done_at_semaphore env then []
     else if pe_done_before_get env then [AcquireSem, ReleaseSem]
     else case pe_conn env of
       Inl _ \<Rightarrow> [AcquireSem, ReleaseSem]
     | Inr c \<Rightarrow> (case pe_submit_error env of
         None \<Rightarrow> [AcquireSem, GetConn c, SubmitTask c (ping_context r ct line)]
       | Some _ \<Rightarrow> [AcquireSem, GetConn c, SubmitTask c (ping_context r ct line),
           ReleaseConn c, ReleaseSem]))"

text \<open>The callback the executor runs when the task ends, with or without an error: the result is
  handed to the aggregator whatever its status.\<close>

definition ping_callback :: "'c \<Rightarrow> Line \<Rightarrow> Result \<Rightarrow> 'c ping_action list" where
  "ping_callback c line result = [ReleaseConn c, ReleaseSem, SubmitResult line result]"

definition executeTasksAsync ::
  "(Line \<Rightarrow> 'c ping_env) \<Rightarrow> task_impl registry \<Rightarrow> Router \<Rightarrow> IntervalTaskQueue \<Rightarrow> 'c ping_action list" where
  "executeTasksAsync env reg r q = (let lines = GetTasksSnapshot q in
     case Discover ''ping'' (r_Platform r) (r_Protocol r) CommandTypeCommands reg of
       Inl _ \<Rightarrow> []
     | Inr t \<Rightarrow> concat (map (\<lambda>l. executeIndividualPing (env l) r CommandTypeCommands l) lines))"

end
