(* ===== verification/Manager.thy ===== *)
theory Manager
  imports Router_Scheduler
begin

text \<open>
  The manager (\<open>manager/manager.go\<close>): lines grouped by router, one scheduler per router, full
  synchronisation and line events. Its mutex makes \<open>fullSync\<close> and \<open>processLineEvent\<close> atomic; a
  delayed removal is a pending router whose timer fires as the step \<open>delayed_delete\<close>. The order
  in which Go visits a map is an argument. \<open>safeExecute\<close> only recovers panics.
\<close>

record Manager =
  m_schedulers :: "string \<rightharpoonup> RouterScheduler"
  m_routerLines :: "string \<rightharpoonup> slice"
  m_heap :: line_heap
  m_delayed :: "string list"

definition NewManager :: Manager where
  "NewManager = \<lparr>m_schedulers = Map.empty, m_routerLines = Map.empty,
     m_heap = \<lparr>sh_arr = (\<lambda>_. []), sh_next = 0\<rparr>, m_delayed = []\<rparr>"

definition createScheduler :: "line_heap \<Rightarrow> slice \<Rightarrow> RouterScheduler option" where
  "createScheduler h lines = (case NewRouterScheduler h lines of Inl e \<Rightarrow> None | Inr s \<Rightarrow> Some s)"

definition ensureScheduler :: "string \<Rightarrow> slice \<Rightarrow> Manager \<Rightarrow> Manager" where
  "ensureScheduler routerIP lines m = (case m_schedulers m routerIP of
     Some _ \<Rightarrow> m
   | None \<Rightarrow> (case createScheduler (m_heap m) lines of
       None \<Rightarrow> m
     | Some s \<Rightarrow> m\<lparr>m_schedulers := (m_schedulers m)(routerIP \<mapsto> s)\<rparr>))"

text \<open>The start of a new scheduler runs in its own goroutine.\<close>

definition start_scheduler :: "string \<Rightarrow> duration list \<Rightarrow> Manager \<Rightarrow> Manager" where
  "start_scheduler routerIP order m = (case m_schedulers m routerIP of
     None \<Rightarrow> m
   | Some s \<Rightarrow> m\<lparr>m_schedulers := (m_schedulers m)(routerIP \<mapsto> Scheduler_Start order s)\<rparr>)"

section \<open>Full synchronisation\<close>

text \<open>The first call of \<open>GetLines\<close> and up to 150 more while the result is empty.\<close>

definition sync_lines :: "(string \<rightharpoonup> Line) list \<Rightarrow> (string \<rightharpoonup> Line) option" where
  "sync_lines polls = find_first (\<lambda>ls. ls \<noteq> Map.empty) (take 151 polls)"

definition append_router_line ::
  "(nat \<Rightarrow> nat) \<Rightarrow> Line \<Rightarrow> line_heap \<times> (string \<rightharpoonup> slice) \<Rightarrow> line_heap \<times> (string \<rightharpoonup> slice)" where
  "append_router_line grow line hr = (let (h, rl) = hr; ip = r_IP (l_Router line);
     (h0, sl) = (case rl ip of None \<Rightarrow> slice_make h | Some sl \<Rightarrow> (h, sl));
     (h1, sl1) = slice_append grow zero_line line h0 sl
     in (h1, rl(ip \<mapsto> sl1)))"

definition group_lines ::
  "(nat \<Rightarrow> nat) \<Rightarrow> Line list \<Rightarrow> line_heap \<Rightarrow> line_heap \<times> (string \<rightharpoonup> slice)" where
  "group_lines grow ls h = fold (append_router_line grow) ls (h, Map.empty)"

definition fullSync ::
  "(nat \<Rightarrow> nat) \<Rightarrow> string list \<Rightarrow> string list \<Rightarrow> (string \<rightharpoonup> Line) list \<Rightarrow> Manager \<Rightarrow> Manager" where
  "fullSync grow line_order router_order polls m = (case sync_lines polls of
     None \<Rightarrow> m
   | Some lines \<Rightarrow>
       let (h, rl) = group_lines grow (map (\<lambda>k. the (lines k)) line_order) (m_heap m);
           m1 = fold (\<lambda>ip m. ensureScheduler ip (the (rl ip)) m) router_order
             (m\<lparr>m_heap := h, m_routerLines := rl\<rparr>)
       in m1\<lparr>m_schedulers := (\<lambda>ip. if rl ip = None then None else m_schedulers m1 ip)\<rparr>)"

section \<open>Line events\<close>

definition router_lines :: "Manager \<Rightarrow> string \<Rightarrow> Line list" where
  "router_lines m ip = (case m_routerLines m ip of None \<Rightarrow> [] | Some sl \<Rightarrow> slice_read (m_heap m) sl)"

definition processCreate :: "(nat \<Rightarrow> nat) \<Rightarrow> Line \<Rightarrow> Manager \<Rightarrow> Manager" where
  "processCreate grow line m = (let ip = r_IP (l_Router line);
     m0 = (case m_routerLines m ip of
       Some _ \<Rightarrow> m
     | None \<Rightarrow> let (h, sl) = slice_make (m_heap m)
         in m\<lparr>m_heap := h, m_routerLines := (m_routerLines m)(ip \<mapsto> sl)\<rparr>)
     in if find_first (\<lambda>l. l_IP l = l_IP line) (router_lines m0 ip) \<noteq> None then m0
        else let (h1, sl1) = slice_append grow zero_line line (m_heap m0) (the (m_routerLines m0 ip));
             m1 = ensureScheduler ip sl1
               (m0\<lparr>m_heap := h1, m_routerLines := (m_routerLines m0)(ip \<mapsto> sl1)\<rparr>)
          in (case m_schedulers m1 ip of
                None \<Rightarrow> m1
              | Some s \<Rightarrow> let (h2, s2) = OnLineCreated grow line (m_heap m1, s)
                  in m1\<lparr>m_heap := h2, m_schedulers := (m_schedulers m1)(ip \<mapsto> s2)\<rparr>))"

definition processUpdate :: "Line \<Rightarrow> Manager \<Rightarrow> Manager" where
  "processUpdate line m = (let ip = r_IP (l_Router line) in
     case m_routerLines m ip of
       None \<Rightarrow> m
     | Some sl \<Rightarrow> (case find_index (\<lambda>l. l_IP l = l_IP line) (slice_read (m_heap m) sl) of
         None \<Rightarrow> m
       | Some i \<Rightarrow>
           let old = slice_read (m_heap m) sl ! i;
               m1 = m\<lparr>m_heap := slice_set i line (m_heap m) sl\<rparr>
           in (case m_schedulers m ip of
                 None \<Rightarrow> m1
               | Some s \<Rightarrow> let (h2, s2) = OnLineUpdated old line (m_heap m1, s)
                   in m1\<lparr>m_heap := h2, m_schedulers := (m_schedulers m1)(ip \<mapsto> s2)\<rparr>)))"

definition processDelete :: "Line \<Rightarrow> Manager \<Rightarrow> Manager" where
  "processDelete line m = (let ip = r_IP (l_Router line);
     m1 = (case m_routerLines m ip of
       None \<Rightarrow> m
     | Some sl \<Rightarrow> (case find_index (\<lambda>l. l_IP l = l_IP line) (slice_read (m_heap m) sl) of
         None \<Rightarrow> m
       | Some i \<Rightarrow> let (h, sl1) = slice_delete i (m_heap m) sl
           in m\<lparr>m_heap := h, m_routerLines := (m_routerLines m)(ip \<mapsto> sl1)\<rparr>))
     in case m_schedulers m1 ip of
          None \<Rightarrow> m1
        | Some s \<Rightarrow> let m2 = m1\<lparr>m_schedulers := (m_schedulers m1)(ip \<mapsto> OnLineDeleted line s)\<rparr>
            in if router_lines m2 ip = [] then m2\<lparr>m_delayed := ip # m_delayed m2\<rparr> else m2)"

definition processLineEvent :: "(nat \<Rightarrow> nat) \<Rightarrow> LineChangeEvent \<Rightarrow> Manager \<Rightarrow> Manager" where
  "processLineEvent grow e m = (case ev_Type e of
     LineCreate \<Rightarrow> processCreate grow (ev_Line e) m
   | LineUpdate \<Rightarrow> processUpdate (ev_Line e) m
   | LineDelete \<Rightarrow> processDelete (ev_Line e) m)"

definition delayed_delete :: "string \<Rightarrow> Manager \<Rightarrow> Manager" where
  "delayed_delete ip m = (let m = m\<lparr>m_delayed := remove1 ip (m_delayed m)\<rparr> in
     if router_lines m ip = []
     then m\<lparr>m_schedulers := (m_schedulers m)(ip := None), m_routerLines := (m_routerLines m)(ip := None)\<rparr>
     else m)"

text \<open>The event buffer between the subscription and the processor holds 500 events; more are
  dropped.\<close>

definition buffer_event :: "'e \<Rightarrow> 'e list \<Rightarrow> 'e list" where
  "buffer_event e buf = (if length buf < 500 then buf @ [e] else buf)"

definition Manager_Stop :: "Manager \<Rightarrow> Manager" where
  "Manager_Stop m = m\<lparr>m_schedulers := (\<lambda>ip. map_option Scheduler_Stop (m_schedulers m ip)),
     m_delayed := []\<rparr>"

text \<open>Counts reported by \<open>GetSimpleStats\<close>, \<open>GetDetailedStats\<close> and \<open>CheckResourceCleanup\<close>; \<open>ips\<close>
  and \<open>sips\<close> are the keys of the two maps.\<close>

definition total_lines :: "string list \<Rightarrow> Manager \<Rightarrow> nat" where
  "total_lines ips m = sum_list (map (\<lambda>ip. length (router_lines m ip)) ips)"

definition cleanup_complete :: "bool \<Rightarrow> string list \<Rightarrow> string list \<Rightarrow> Manager \<Rightarrow> bool" where
  "cleanup_complete stopchan_closed ips sips m \<longleftrightarrow>
     length (filter (\<lambda>ip. m_schedulers m ip \<noteq> None) sips) = 0
   \<and> length (filter (\<lambda>ip. router_lines m ip = [] \<and> m_schedulers m ip \<noteq> None) ips) = 0
   \<and> stopchan_closed"

end
