(* ===== verification/Scheduler_Proofs.thy ===== *)
theory Scheduler_Proofs
  imports Router_Scheduler
begin

text \<open>
  Correctness of the router scheduler: how lines are distributed over the interval queues, the
  invariant of the queues, the refinement of the line handlers to operations on the set of
  monitored lines, and the discipline of the semaphore and the connections in an execution.
\<close>

section \<open>Contents of the queues\<close>

lemma tasks_ensure [simp]: "queue_tasks (ensure_queue d s) e = queue_tasks s e"
  by (auto simp: ensure_queue_def queue_tasks_def iq.fresh_empty split: option.splits)

lemma ensure_has: "\<exists>i q. s_queues (ensure_queue d s) d = Some (i, q)"
  by (auto simp: ensure_queue_def split: option.splits)

lemma tasks_with:
  "s_queues s d = Some (i, q) \<Longrightarrow>
     queue_tasks (with_queue d f s) e = (if e = d then GetTasksSnapshot (f q) else queue_tasks s e)"
  by (auto simp: with_queue_def queue_tasks_def)

lemma tasks_with_absent: "s_queues s d = None \<Longrightarrow> with_queue d f s = s"
  by (simp add: with_queue_def)

lemma tasks_of: "s_queues s d = Some (i, q) \<Longrightarrow> queue_tasks s d = GetTasksSnapshot q"
  by (simp add: queue_tasks_def)

lemma tasks_add: "queue_tasks (add_to_queue l s) d = queue_tasks s d @ (if d = l_Interval l then [l] else [])"
proof -
  obtain i q where q: "s_queues (ensure_queue (l_Interval l) s) (l_Interval l) = Some (i, q)"
    using ensure_has by blast
  have "GetTasksSnapshot q = queue_tasks s (l_Interval l)"
    using tasks_of [OF q] by simp
  then show ?thesis unfolding add_to_queue_def tasks_with [OF q] by (simp add: iq.add_last)
qed

lemma dom_add: "dom (s_queues (add_to_queue l s)) = insert (l_Interval l) (dom (s_queues s))"
  by (auto simp: add_to_queue_def with_queue_def ensure_queue_def split: option.splits if_splits)

lemma add_to_queue_frame [simp]:
  "s_lines (add_to_queue l s) = s_lines s" "s_workers (add_to_queue l s) = s_workers s"
  by (auto simp: add_to_queue_def with_queue_def ensure_queue_def split: option.splits)

lemma fold_add_tasks:
  "queue_tasks (fold add_to_queue ls s) d = queue_tasks s d @ filter (\<lambda>l. l_Interval l = d) ls"
  by (induction ls arbitrary: s) (auto simp: tasks_add)

lemma fold_add_dom: "dom (s_queues (fold add_to_queue ls s)) = dom (s_queues s) \<union> l_Interval ` set ls"
  by (induction ls arbitrary: s) (auto simp: dom_add)

lemma fold_add_frame [simp]:
  "s_lines (fold add_to_queue ls s) = s_lines s" "s_workers (fold add_to_queue ls s) = s_workers s"
  by (induction ls arbitrary: s) auto

lemma NewRouterScheduler_InrD:
  assumes "NewRouterScheduler h lines = Inr s"
  obtains s0 where "s = initializeQueues h s0" "s_lines s0 = lines" "s_queues s0 = Map.empty"
    "s_workers s0 = []" "s_router_arr s0 = sl_arr lines"
proof (cases "Build (scheduler_config (l_Router (sh_arr h (sl_arr lines) ! 0)))")
  case (Inr c)
  show thesis
    by (rule that [of "\<lparr>s_router_arr = sl_arr lines, s_lines = lines, s_queues = Map.empty,
        s_next_queue = 0, s_workers = [], s_timers = [], s_stopped = False,
        s_MaxConnections = MaxConnections c, s_TaskTimeout = TaskTimeout c,
        s_TaskMaxRetries = TaskMaxRetries c\<rparr>"])
      (use assms Inr in \<open>simp_all add: NewRouterScheduler_def\<close>)
qed (use assms in \<open>simp add: NewRouterScheduler_def\<close>)

text \<open>A scheduler that is created holds each of its lines in exactly one queue, that of the
  line's interval, in the order of the lines, and has no other queue; creation fails exactly
  when the router lacks an address, credentials, protocol or platform.\<close>

theorem NewRouterScheduler_distributes:
  "(\<forall>s. NewRouterScheduler h lines = Inr s \<longrightarrow>
       (\<forall>d. queue_tasks s d = filter (\<lambda>l. l_Interval l = d) (slice_read h lines))
     \<and> dom (s_queues s) = l_Interval ` set (slice_read h lines))
   \<and> ((\<exists>e. NewRouterScheduler h lines = Inl e) \<longleftrightarrow>
       (let r = l_Router (sh_arr h (sl_arr lines) ! 0)
        in [] \<in> {r_IP r, r_Username r, r_Password r, r_Protocol r, r_Platform r}))"
proof -
  let ?r = "l_Router (sh_arr h (sl_arr lines) ! 0)"
  have a: "(\<forall>d. queue_tasks s d = filter (\<lambda>l. l_Interval l = d) (slice_read h lines))
     \<and> dom (s_queues s) = l_Interval ` set (slice_read h lines)"
    if n: "NewRouterScheduler h lines = Inr s" for s
  proof -
    obtain s0 where "s = initializeQueues h s0" "s_lines s0 = lines" "s_queues s0 = Map.empty"
      using n by (rule NewRouterScheduler_InrD)
    then show ?thesis
      by (simp add: initializeQueues_def fold_add_tasks fold_add_dom) (simp add: queue_tasks_def)
  qed
  have "float_round (1 / 5) < 1 \<and> 0 < float_round (1 / 5)" by code_simp
  then have v: "Config_Validate (scheduler_config ?r) = None \<longleftrightarrow>
      [] \<notin> {r_IP ?r, r_Username ?r, r_Password ?r, r_Protocol ?r, r_Platform ?r}"
    by (auto simp: Config_Validate_None_iff scheduler_config_def WithBasicAuth_def WithProtocol_def
        WithMetadata_def WithSmartRebuild_def WithConnectionPool_def WithConnectionRetryPolicy_def
        WithTaskRetryPolicy_def NewConfigBuilder_def validate_basic_def validate_rebuild_def
        validate_health_def validate_exec_def validate_protocol_def)
  have "(\<exists>e. NewRouterScheduler h lines = Inl e) \<longleftrightarrow> Config_Validate (scheduler_config ?r) \<noteq> None"
    by (auto simp: NewRouterScheduler_def Build_def split: option.splits)
  with v a show ?thesis unfolding Let_def by blast
qed

theorem NewRouterScheduler_distributes_witness:
  "\<exists>s. NewRouterScheduler \<lparr>sh_arr = (\<lambda>_. [sample_line]), sh_next = 1\<rparr> \<lparr>sl_arr = 0, sl_len = 1\<rparr> = Inr s
     \<and> queue_tasks s (3 * Minute) = [sample_line]"
  using NewRouterScheduler_distributes [of "\<lparr>sh_arr = (\<lambda>_. [sample_line]), sh_next = 1\<rparr>" "\<lparr>sl_arr = 0, sl_len = 1\<rparr>"]
  by (cases "NewRouterScheduler \<lparr>sh_arr = (\<lambda>_. [sample_line]), sh_next = 1\<rparr> \<lparr>sl_arr = 0, sl_len = 1\<rparr>")
    (simp_all add: slice_read_def sample_line_def Let_def)

section \<open>Invariant and refinement\<close>

text \<open>The abstract state is the set of lines that some queue holds.\<close>

definition monitored :: "RouterScheduler \<Rightarrow> Line set" where
  "monitored s = {l. l \<in> set (queue_tasks s (l_Interval l))}"

definition sched_inv :: "RouterScheduler \<Rightarrow> bool" where
  "sched_inv s \<longleftrightarrow> (\<forall>d. distinct (map l_IP (queue_tasks s d))
     \<and> (\<forall>l\<in>set (queue_tasks s d). l_Interval l = d)) \<and> inj_on l_IP (monitored s)"

definition covered :: "line_heap \<Rightarrow> RouterScheduler \<Rightarrow> bool" where
  "covered h s \<longleftrightarrow> slice_ok h (s_lines s) \<and> l_IP ` monitored s \<subseteq> l_IP ` set (slice_read h (s_lines s))"

lemma lineExists_iff: "lineExistsLocked h s ip \<longleftrightarrow> ip \<in> l_IP ` set (slice_read h (s_lines s))"
  by (auto simp: lineExistsLocked_def)

lemma monitored_add: "monitored (add_to_queue l s) = insert l (monitored s)"
  by (auto simp: monitored_def tasks_add)

lemma tasks_monitored: "sched_inv s \<Longrightarrow> l \<in> set (queue_tasks s d) \<longleftrightarrow> l \<in> monitored s \<and> l_Interval l = d"
  by (auto simp: sched_inv_def monitored_def)

lemma sched_inv_add:
  assumes "sched_inv s" "l_IP l \<notin> l_IP ` monitored s"
  shows "sched_inv (add_to_queue l s)"
proof -
  have "l_IP l \<notin> l_IP ` set (queue_tasks s d)" for d
    using assms tasks_monitored [OF assms(1)] by blast
  with assms show ?thesis
    unfolding sched_inv_def monitored_add by (auto simp: tasks_add)
qed

text \<open>A queue operation on interval \<open>d\<close> that keeps the interval of its lines.\<close>

lemma monitored_with:
  assumes "s_queues s d = Some (i, q)" "\<forall>l\<in>set (GetTasksSnapshot (f q)). l_Interval l = d"
  shows "monitored (with_queue d f s) = {l \<in> monitored s. l_Interval l \<noteq> d} \<union> set (GetTasksSnapshot (f q))"
  unfolding monitored_def tasks_with [OF assms(1)] using assms(2) by auto

lemma inv_queue:
  assumes "sched_inv s" "s_queues s d = Some (i, q)"
  shows "iq.unique q" "set (GetTasksSnapshot q) = {l \<in> monitored s. l_Interval l = d}"
  unfolding iq.unique_def tasks_of [OF assms(2), symmetric] using assms tasks_monitored [OF assms(1), of _ d]
  by (auto simp: sched_inv_def)

lemma inv_with:
  assumes "sched_inv s" "s_queues s d = Some (i, q)" "iq.unique (f q)"
    and "\<forall>l\<in>set (GetTasksSnapshot (f q)). l_Interval l = d"
    and "inj_on l_IP (monitored (with_queue d f s))"
  shows "sched_inv (with_queue d f s)"
  using assms by (auto simp: sched_inv_def tasks_with [OF assms(2)] iq.unique_def)

lemma monitored_queue: "l \<in> monitored s \<Longrightarrow> \<exists>i q. s_queues s (l_Interval l) = Some (i, q)"
  by (cases "s_queues s (l_Interval l)") (auto simp: monitored_def queue_tasks_def)

lemma remove_monitored:
  assumes "sched_inv s" "l \<in> monitored s"
  shows "monitored (with_queue (l_Interval l) (Remove (l_IP l)) s) = monitored s - {l}"
    and "sched_inv (with_queue (l_Interval l) (Remove (l_IP l)) s)"
proof -
  obtain i q where q: "s_queues s (l_Interval l) = Some (i, q)" using monitored_queue [OF assms(2)] by blast
  note iqs = inv_queue [OF assms(1) q]
  have rm: "set (GetTasksSnapshot (Remove (l_IP l) q)) = {t \<in> monitored s. l_Interval t = l_Interval l \<and> l_IP t \<noteq> l_IP l}"
    unfolding iq.set_remove [OF iqs(1)] iqs(2) by auto
  have inj: "inj_on l_IP (monitored s)" using assms(1) by (simp add: sched_inv_def)
  have "monitored (with_queue (l_Interval l) (Remove (l_IP l)) s)
      = {t \<in> monitored s. l_Interval t \<noteq> l_Interval l} \<union> {t \<in> monitored s. l_Interval t = l_Interval l \<and> l_IP t \<noteq> l_IP l}"
    using monitored_with [OF q, of "Remove (l_IP l)"] rm by auto
  also have "\<dots> = monitored s - {l}"
    using inj_onD [OF inj, of _ l] assms(2) by auto
  finally show m: "monitored (with_queue (l_Interval l) (Remove (l_IP l)) s) = monitored s - {l}" .
  show "sched_inv (with_queue (l_Interval l) (Remove (l_IP l)) s)"
    by (rule inv_with [where f = "Remove (l_IP l)", OF assms(1) q iq.unique_remove [OF iqs(1)]])
      (use rm inj m in \<open>auto intro: inj_on_subset\<close>)
qed

lemma update_monitored:
  assumes "sched_inv s" "l \<in> monitored s" "l_IP new = l_IP l" "l_Interval new = l_Interval l"
  shows "monitored (with_queue (l_Interval l) (UpdateTask new) s) = insert new (monitored s - {l})"
    and "sched_inv (with_queue (l_Interval l) (UpdateTask new) s)"
proof -
  obtain i q where q: "s_queues s (l_Interval l) = Some (i, q)" using monitored_queue [OF assms(2)] by blast
  note iqs = inv_queue [OF assms(1) q]
  have "Queue_Contains (l_IP new) q" unfolding iq.has_iff iqs(2) using assms by auto
  then have up: "set (GetTasksSnapshot (UpdateTask new q))
      = insert new {t \<in> monitored s. l_Interval t = l_Interval l \<and> l_IP t \<noteq> l_IP l}"
    unfolding iq.set_update [OF iqs(1)] iqs(2) using assms(3) by auto
  have inj: "inj_on l_IP (monitored s)" using assms(1) by (simp add: sched_inv_def)
  have "monitored (with_queue (l_Interval l) (UpdateTask new) s)
      = {t \<in> monitored s. l_Interval t \<noteq> l_Interval l}
        \<union> insert new {t \<in> monitored s. l_Interval t = l_Interval l \<and> l_IP t \<noteq> l_IP l}"
    using monitored_with [OF q, of "UpdateTask new"] up assms(4) by auto
  also have "\<dots> = insert new (monitored s - {l})"
    using inj_onD [OF inj, of _ l] assms(2) by auto
  finally show m: "monitored (with_queue (l_Interval l) (UpdateTask new) s) = insert new (monitored s - {l})" .
  have "inj_on l_IP (insert new (monitored s - {l}))"
    using inj assms(2,3) by (auto simp: inj_on_def)
  then show "sched_inv (with_queue (l_Interval l) (UpdateTask new) s)"
    using inv_with [where f = "UpdateTask new", OF assms(1) q iq.unique_update [OF iqs(1)]] up m assms(4)
    by auto
qed

datatype line_op = OpCreate Line | OpUpdate Line Line | OpDelete Line

fun sched_apply :: "(nat \<Rightarrow> nat) \<Rightarrow> line_op \<Rightarrow> line_heap \<times> RouterScheduler \<Rightarrow> line_heap \<times> RouterScheduler" where
  "sched_apply grow (OpCreate l) hs = OnLineCreated grow l hs"
| "sched_apply grow (OpUpdate old new) hs = OnLineUpdated old new hs"
| "sched_apply grow (OpDelete l) (h, s) = (h, OnLineDeleted l s)"

fun set_apply :: "line_op \<Rightarrow> Line set \<Rightarrow> Line set" where
  "set_apply (OpCreate l) m = insert l m"
| "set_apply (OpUpdate old new) m = insert new (m - {old})"
| "set_apply (OpDelete l) m = m - {l}"

fun admissible :: "line_op \<Rightarrow> line_heap \<times> RouterScheduler \<Rightarrow> bool" where
  "admissible (OpCreate l) (h, s) \<longleftrightarrow> l_IP l \<notin> l_IP ` set (slice_read h (s_lines s))"
| "admissible (OpUpdate old new) (h, s) \<longleftrightarrow> old \<in> monitored s \<and> l_IP new = l_IP old"
| "admissible (OpDelete l) (h, s) \<longleftrightarrow> l \<in> monitored s"

lemma slice_append_ok: "slice_ok h sl \<Longrightarrow> slice_append grow z x h sl = (h1, sl1) \<Longrightarrow> slice_ok h1 sl1"
  by (auto simp: slice_append_def slice_ok_def Let_def split: if_splits)

lemma monitored_lines_update [simp]: "monitored (s\<lparr>s_lines := sl\<rparr>) = monitored s"
  "sched_inv (s\<lparr>s_lines := sl\<rparr>) = sched_inv s"
  by (simp_all add: monitored_def sched_inv_def queue_tasks_def)

lemma monitored_timers_update [simp]: "monitored (s\<lparr>s_timers := ts\<rparr>) = monitored s"
  "sched_inv (s\<lparr>s_timers := ts\<rparr>) = sched_inv s"
  by (simp_all add: monitored_def sched_inv_def queue_tasks_def)

lemma created_refines:
  assumes "sched_inv s" "covered h s" "l_IP l \<notin> l_IP ` set (slice_read h (s_lines s))"
    and "OnLineCreated grow l (h, s) = (h1, s1)"
  shows "monitored s1 = insert l (monitored s) \<and> sched_inv s1 \<and> covered h1 s1"
proof -
  obtain h' sl where ap: "slice_append grow zero_line l h (s_lines s) = (h', sl)" by fastforce
  have e: "h1 = h'" "s1 = (add_to_queue l s)\<lparr>s_lines := sl\<rparr>"
    using assms(3,4) by (auto simp: OnLineCreated_def lineExists_iff ap Let_def)
  have "slice_read h' sl = slice_read h (s_lines s) @ [l]" "slice_ok h' sl"
    using assms(2) slice_read_append [of h "s_lines s" grow zero_line l] slice_append_ok [OF _ ap]
    by (simp_all add: ap covered_def)
  moreover have "sched_inv (add_to_queue l s)"
    using assms by (intro sched_inv_add) (auto simp: covered_def)
  ultimately show ?thesis
    using assms(2) by (auto simp: e covered_def monitored_add)
qed

lemma replace_in_lines_ips:
  "l_IP new = l_IP old \<Longrightarrow> slice_ok h sl \<Longrightarrow>
     l_IP ` set (slice_read (replace_in_lines old new h sl) sl) = l_IP ` set (slice_read h sl)
     \<and> slice_ok (replace_in_lines old new h sl) sl"
proof (cases "find_index (\<lambda>l. l_IP l = l_IP old) (slice_read h sl)")
  case (Some i)
  assume ip: "l_IP new = l_IP old" and ok: "slice_ok h sl"
  have i: "i < length (slice_read h sl)" "l_IP (slice_read h sl ! i) = l_IP old"
    using find_index_SomeD [OF Some] by auto
  then have "slice_read (slice_set i new h sl) sl = (slice_read h sl)[i := new]"
    using slice_read_set [of i sl new h] by (simp add: slice_read_def)
  moreover have "map l_IP ((slice_read h sl)[i := new]) = map l_IP (slice_read h sl)"
    using i ip by (simp add: map_update list_update_same_conv)
  ultimately show ?thesis
    using ok by (simp add: replace_in_lines_def Some slice_set_def slice_ok_def flip: set_map)
qed (simp add: replace_in_lines_def)

lemma with_queue_frame [simp]: "s_lines (with_queue d f s) = s_lines s"
  by (auto simp: with_queue_def split: option.splits)

lemma updated_refines:
  assumes "sched_inv s" "covered h s" "old \<in> monitored s" "l_IP new = l_IP old"
    and "OnLineUpdated old new (h, s) = (h1, s1)"
  shows "monitored s1 = insert new (monitored s - {old}) \<and> sched_inv s1 \<and> covered h1 s1"
proof -
  have e: "h1 = replace_in_lines old new h (s_lines s)"
      "s1 = (if l_Interval old \<noteq> l_Interval new
         then add_to_queue new (with_queue (l_Interval old) (Remove (l_IP old)) s)
         else with_queue (l_Interval old) (UpdateTask new) s)"
    using assms(5) by (auto simp: OnLineUpdated_def Let_def)
  note rm = remove_monitored [OF assms(1,3)]
  have "inj_on l_IP (monitored s)" using assms(1) by (simp add: sched_inv_def)
  then have "l_IP new \<notin> l_IP ` (monitored s - {old})" using assms(3,4) by (auto simp: inj_on_def)
  then have mi: "monitored s1 = insert new (monitored s - {old})" "sched_inv s1"
    using rm update_monitored [OF assms(1,3,4)] sched_inv_add [OF rm(2), of new]
    by (auto simp: e(2) monitored_add)
  moreover have "covered h1 s1"
    using assms(2-4) replace_in_lines_ips [OF assms(4), of h "s_lines s"] mi(1)
    by (auto simp: covered_def e)
  ultimately show ?thesis by blast
qed

lemma deleted_refines:
  assumes "sched_inv s" "covered h s" "l \<in> monitored s"
  shows "monitored (OnLineDeleted l s) = monitored s - {l} \<and> sched_inv (OnLineDeleted l s)
    \<and> covered h (OnLineDeleted l s)"
proof -
  obtain i q where q: "s_queues s (l_Interval l) = Some (i, q)" using monitored_queue [OF assms(3)] by blast
  have "Queue_Contains (l_IP l) q"
    unfolding iq.has_iff inv_queue(2) [OF assms(1) q] using assms(3) by auto
  then have "OnLineDeleted l s = (let w = with_queue (l_Interval l) (Remove (l_IP l)) s
      in if IsEmpty (Remove (l_IP l) q) then w\<lparr>s_timers := l_Interval l # s_timers s\<rparr> else w)"
    using q by (simp add: OnLineDeleted_def with_queue_def Let_def)
  moreover have "covered h (with_queue (l_Interval l) (Remove (l_IP l)) s)"
    using remove_monitored(1) [OF assms(1,3)] assms(2) by (auto simp: covered_def)
  ultimately show ?thesis
    using remove_monitored [OF assms(1,3)] by (simp add: covered_def Let_def)
qed

text \<open>C3: While the scheduler's list of lines covers the queues, its handlers implement the
  operations on the set of monitored lines, keeping one queue entry per address, in the queue
  of its interval: a new address is added, an update replaces the old line even when it moves
  to another interval, a deletion removes the line.\<close>

theorem scheduler_refines:
  assumes "sched_inv s" "covered h s" "admissible op (h, s)" "sched_apply grow op (h, s) = (h1, s1)"
  shows "monitored s1 = set_apply op (monitored s) \<and> sched_inv s1 \<and> covered h1 s1"
proof (cases op)
  case (OpCreate l)
  then show ?thesis using created_refines [OF assms(1,2), of l grow h1 s1] assms(3,4) by simp
next
  case (OpUpdate old new)
  then show ?thesis using updated_refines [OF assms(1,2), of old new h1 s1] assms(3,4) by simp
next
  case (OpDelete l)
  then show ?thesis using deleted_refines [OF assms(1,2), of l] assms(3,4) by auto
qed

text \<open>A scheduler on a heap of its own, with one line.\<close>

definition one_line_heap :: line_heap where
  "one_line_heap = \<lparr>sh_arr = (\<lambda>_. [sample_line]), sh_next = 1\<rparr>"

definition one_line_sched :: RouterScheduler where
  "one_line_sched = initializeQueues one_line_heap
     \<lparr>s_router_arr = 0, s_lines = \<lparr>sl_arr = 0, sl_len = 1\<rparr>, s_queues = Map.empty, s_next_queue = 0,
      s_workers = [], s_timers = [], s_stopped = False, s_MaxConnections = 2,
      s_TaskTimeout = 60 * Second, s_TaskMaxRetries = 0\<rparr>"

lemma one_line_tasks: "queue_tasks one_line_sched d = (if d = 3 * Minute then [sample_line] else [])"
  unfolding one_line_sched_def initializeQueues_def fold_add_tasks
  by (simp add: one_line_heap_def slice_read_def queue_tasks_def sample_line_def)

lemma one_line_monitored: "monitored one_line_sched = {sample_line}"
  by (auto simp: monitored_def one_line_tasks sample_line_def split: if_splits)

lemma one_line_inv: "sched_inv one_line_sched" "covered one_line_heap one_line_sched"
  by (auto simp: sched_inv_def one_line_monitored one_line_tasks covered_def slice_ok_def)
    (simp_all add: sample_line_def one_line_heap_def one_line_sched_def initializeQueues_def slice_read_def)

theorem scheduler_refines_witness:
  "monitored (snd (sched_apply (\<lambda>n. 2 * n) (OpUpdate sample_line (sample_line\<lparr>l_Interval := Minute\<rparr>))
     (one_line_heap, one_line_sched))) = {sample_line\<lparr>l_Interval := Minute\<rparr>}"
proof -
  let ?op = "OpUpdate sample_line (sample_line\<lparr>l_Interval := Minute\<rparr>)"
  obtain h1 s1 where r: "sched_apply (\<lambda>n. 2 * n) ?op (one_line_heap, one_line_sched) = (h1, s1)" by fastforce
  have "admissible ?op (one_line_heap, one_line_sched)" by (simp add: one_line_monitored)
  from scheduler_refines [OF one_line_inv this r] show ?thesis unfolding r by (simp add: one_line_monitored)
qed

section \<open>Lines that are not checked\<close>

text \<open>Deleting a line leaves it in the scheduler's list, so creating the same address again
  is taken for a duplicate and the line is not monitored.\<close>

theorem recreated_line_lost:
  assumes "sched_inv s" "covered h s" "l \<in> monitored s" "l_IP l' = l_IP l"
  shows "OnLineCreated grow l' (h, OnLineDeleted l s) = (h, OnLineDeleted l s)
    \<and> l_IP l' \<notin> l_IP ` monitored (snd (OnLineCreated grow l' (h, OnLineDeleted l s)))"
proof -
  note del = deleted_refines [OF assms(1-3)]
  have "s_lines (OnLineDeleted l s) = s_lines s"
    by (simp add: OnLineDeleted_def Let_def split: option.split)
  moreover have "l_IP l \<in> l_IP ` set (slice_read h (s_lines s))" using assms(2,3) by (auto simp: covered_def)
  ultimately have e: "OnLineCreated grow l' (h, OnLineDeleted l s) = (h, OnLineDeleted l s)"
    using assms(4) by (simp add: OnLineCreated_def lineExists_iff)
  have "inj_on l_IP (monitored s)" using assms(1) by (simp add: sched_inv_def)
  then have "l_IP l' \<notin> l_IP ` (monitored s - {l})" using assms(3,4) by (auto simp: inj_on_def)
  with e del show ?thesis by simp
qed

theorem recreated_line_lost_witness:
  "monitored (snd (OnLineCreated (\<lambda>n. 2 * n) sample_line (one_line_heap, OnLineDeleted sample_line one_line_sched))) = {}"
proof -
  have m: "sample_line \<in> monitored one_line_sched" by (simp add: one_line_monitored)
  show ?thesis
    using recreated_line_lost [OF one_line_inv m refl, of "\<lambda>n. 2 * n"]
      deleted_refines [OF one_line_inv m] by (simp add: one_line_monitored)
qed

text \<open>Workers are bound to queues that exist.\<close>

definition workers_ok :: "RouterScheduler \<Rightarrow> bool" where
  "workers_ok s \<longleftrightarrow> (\<forall>i\<in>set (s_workers s). i < s_next_queue s)
     \<and> (\<forall>d i q. s_queues s d = Some (i, q) \<longrightarrow> i < s_next_queue s)
     \<and> (\<forall>d d' i q q'. s_queues s d = Some (i, q) \<and> s_queues s d' = Some (i, q') \<longrightarrow> d = d')"

lemma workers_ok_ensure: "workers_ok s \<Longrightarrow> workers_ok (ensure_queue d s)"
  by (fastforce simp: workers_ok_def ensure_queue_def split: option.splits if_splits)

lemma workers_ok_with: "workers_ok s \<Longrightarrow> workers_ok (with_queue d f s)"
  by (fastforce simp: workers_ok_def with_queue_def split: option.splits if_splits)

lemma workers_ok_add: "workers_ok s \<Longrightarrow> workers_ok (add_to_queue l s)"
  by (simp add: add_to_queue_def workers_ok_ensure workers_ok_with)

text \<open>C34: A line created on a running scheduler is checked by a worker exactly when the queue of
  its interval was there before and has a worker: the queue made for a new interval gets no
  worker, so its lines are never checked.\<close>

theorem created_line_served:
  assumes "workers_ok s" "\<not> lineExistsLocked h s (l_IP l)" "l \<notin> monitored s" "sched_inv s"
  shows "served (snd (OnLineCreated grow l (h, s))) l \<longleftrightarrow>
     (\<exists>i q. s_queues s (l_Interval l) = Some (i, q) \<and> i \<in> set (s_workers s))"
proof -
  let ?s1 = "add_to_queue l s"
  have s1: "served (snd (OnLineCreated grow l (h, s))) l = served ?s1 l"
    using assms(2) by (simp add: OnLineCreated_def Let_def split_beta served_def)
  have "l \<in> set (queue_tasks ?s1 d) \<longleftrightarrow> d = l_Interval l" for d
    using tasks_monitored [OF assms(4), of l d] assms(3) by (auto simp: tasks_add)
  then have sv: "served ?s1 l \<longleftrightarrow> (\<exists>i q. s_queues ?s1 (l_Interval l) = Some (i, q) \<and> i \<in> set (s_workers s))"
    unfolding served_def add_to_queue_frame by (metis tasks_of)
  show ?thesis
  proof (cases "s_queues s (l_Interval l)")
    case None
    then have "\<exists>q. s_queues ?s1 (l_Interval l) = Some (s_next_queue s, q)"
      by (simp add: add_to_queue_def ensure_queue_def with_queue_def)
    with None show ?thesis using assms(1) unfolding s1 sv by (auto simp: workers_ok_def)
  next
    case (Some iq)
    then have "\<exists>q. s_queues ?s1 (l_Interval l) = Some (fst iq, q)"
      by (cases iq) (simp add: add_to_queue_def ensure_queue_def with_queue_def)
    with Some show ?thesis unfolding s1 sv by (cases iq) auto
  qed
qed

lemma one_line_queues:
  "s_queues one_line_sched = [3 * Minute \<mapsto> (0, Add sample_line (NewIntervalTaskQueue (3 * Minute)))]"
  "s_next_queue one_line_sched = 1" "s_workers one_line_sched = []"
  "s_lines one_line_sched = \<lparr>sl_arr = 0, sl_len = 1\<rparr>"
  by (simp_all add: one_line_sched_def initializeQueues_def one_line_heap_def slice_read_def
      add_to_queue_def ensure_queue_def with_queue_def) (simp_all add: sample_line_def)

definition second_line :: Line where
  "second_line = sample_line\<lparr>l_IP := ''10.0.0.2'', l_Interval := Minute\<rparr>"

theorem created_line_served_witness:
  "\<not> served (snd (OnLineCreated (\<lambda>n. 2 * n) second_line
      (one_line_heap, Scheduler_Start [3 * Minute] one_line_sched))) second_line"
proof -
  let ?s = "Scheduler_Start [3 * Minute] one_line_sched"
  have t: "queue_tasks ?s = queue_tasks one_line_sched" "s_lines ?s = s_lines one_line_sched"
      "s_queues ?s = s_queues one_line_sched"
    by (simp_all add: Scheduler_Start_def queue_tasks_def fun_eq_iff)
  have c: "workers_ok ?s" "s_queues ?s Minute = None"
    unfolding workers_ok_def Scheduler_Start_def by (simp_all add: one_line_queues)
  have e: "\<not> lineExistsLocked one_line_heap ?s (l_IP second_line)"
    unfolding lineExists_iff t(2)
    by (simp add: one_line_heap_def one_line_queues slice_read_def second_line_def sample_line_def)
  have m: "second_line \<notin> monitored ?s" "sched_inv ?s"
    using one_line_inv(1) unfolding sched_inv_def monitored_def t(1)
    by (simp_all add: one_line_tasks second_line_def)
  show ?thesis
    using created_line_served [OF c(1) e m, of "\<lambda>n. 2 * n"] c(2) by (simp add: second_line_def)
qed

section \<open>Semaphore and connections\<close>

text \<open>The connection a ping hands to the executor, if it gets that far.\<close>

definition in_flight :: "'c ping_env \<Rightarrow> 'c option" where
  "in_flight env = (if pe_done_at_semaphore env \<or> pe_done_before_get env \<or> pe_submit_error env \<noteq> None
     then None else case pe_conn env of Inl _ \<Rightarrow> None | Inr c \<Rightarrow> Some c)"

definition ping_run :: "'c ping_env \<Rightarrow> Router \<Rightarrow> CommandType \<Rightarrow> Line \<Rightarrow> Result \<Rightarrow> 'c ping_action list" where
  "ping_run env r ct line res = executeIndividualPing env r ct line
     @ (case in_flight env of None \<Rightarrow> [] | Some c \<Rightarrow> ping_callback c line res)"

lemma ping_run_shapes:
  obtains "ping_run env r ct line res = []" "in_flight env = None"
  | "ping_run env r ct line res = [AcquireSem, ReleaseSem]" "in_flight env = None"
  | x tc where "ping_run env r ct line res = [AcquireSem, GetConn x, SubmitTask x tc, ReleaseConn x, ReleaseSem]"
      "in_flight env = None"
  | x tc where "ping_run env r ct line res
      = [AcquireSem, GetConn x, SubmitTask x tc, ReleaseConn x, ReleaseSem, SubmitResult line res]"
      "in_flight env = Some x"
proof -
  note d = ping_run_def executeIndividualPing_def in_flight_def ping_callback_def
  consider "pe_done_at_semaphore env" | "\<not> pe_done_at_semaphore env" "pe_done_before_get env"
    | e where "\<not> pe_done_at_semaphore env" "\<not> pe_done_before_get env" "pe_conn env = Inl e"
    | x e where "\<not> pe_done_at_semaphore env" "\<not> pe_done_before_get env" "pe_conn env = Inr x"
        "pe_submit_error env = Some e"
    | x where "\<not> pe_done_at_semaphore env" "\<not> pe_done_before_get env" "pe_conn env = Inr x"
        "pe_submit_error env = None"
    by (cases "pe_conn env"; cases "pe_submit_error env") blast+
  then show thesis
  proof cases
    case 1
    then show thesis by (intro that(1)) (simp_all add: d)
  next
    case 2
    then show thesis by (intro that(2)) (simp_all add: d)
  next
    case 3
    then show thesis by (intro that(2)) (simp_all add: d)
  next
    case (4 x)
    then show thesis by (intro that(3) [of x "ping_context r ct line"]) (simp_all add: d)
  next
    case (5 x)
    then show thesis by (intro that(4) [of x "ping_context r ct line"]) (simp_all add: d)
  qed
qed


end
