(* ===== verification/Manager_Proofs.thy ===== *)
theory Manager_Proofs
  imports Manager Scheduler_Proofs
begin

text \<open>
  Correctness of the manager: although it shares the arrays of its line slices with the
  schedulers, its own lists follow the line events; the schedulers do not always.
\<close>

section \<open>Sharing of arrays\<close>

lemma append_frame:
  assumes "slice_append grow z x h s = (h', s')" "slice_ok h t" "sl_arr t \<noteq> sl_arr s"
  shows "slice_read h' t = slice_read h t" "slice_ok h' t"
  using assms by (auto simp: slice_append_def slice_read_def slice_ok_def Let_def split: if_splits)

lemma append_facts:
  assumes "slice_append grow z x h s = (h', s')" "slice_ok h s"
  shows "slice_ok h' s'" "slice_read h' s' = slice_read h s @ [x]" "sl_len s' = Suc (sl_len s)"
    and "sl_arr s' = sl_arr s \<or> sl_arr s' = sh_next h" "sh_next h \<le> sh_next h'"
    and "sl_arr s' = sl_arr s \<Longrightarrow> sl_len s < length (sh_arr h (sl_arr s))"
  using assms slice_append_ok [OF assms(2,1)] slice_read_append [OF assms(2), of grow z x]
  by (auto simp: slice_append_def slice_ok_def Let_def split: if_splits)

lemma append_same_array:
  assumes "slice_append grow z x h s = (h', s')" "slice_ok h t" "slice_ok h s" "sl_arr t = sl_arr s"
  shows "slice_ok h' t" and "sl_len t \<le> sl_len s \<Longrightarrow> slice_read h' t = slice_read h t"
    and "sl_arr s' = sl_arr s \<Longrightarrow> sl_len s < sl_len t \<Longrightarrow> x \<in> set (slice_read h' t)"
    and "sl_arr s' \<noteq> sl_arr s \<Longrightarrow> slice_read h' t = slice_read h t"
proof -
  let ?a = "sh_arr h (sl_arr s)" and ?n = "sl_len s"
  consider "?n < length ?a" "h' = h\<lparr>sh_arr := (sh_arr h)(sl_arr s := ?a[?n := x])\<rparr>" "s' = s\<lparr>sl_len := Suc ?n\<rparr>"
    | "sh_arr h' (sl_arr s) = ?a" "sl_arr s' \<noteq> sl_arr s" "sh_next h \<le> sh_next h'"
    using assms(1,3) by (auto simp: slice_append_def slice_ok_def Let_def split: if_splits)
  then have "slice_ok h' t \<and> (sl_len t \<le> ?n \<longrightarrow> slice_read h' t = slice_read h t)
      \<and> (sl_arr s' \<noteq> sl_arr s \<longrightarrow> slice_read h' t = slice_read h t)"
    by cases (use assms(2,4) in \<open>simp_all add: slice_read_def slice_ok_def\<close>)
  then show "slice_ok h' t" "sl_len t \<le> sl_len s \<Longrightarrow> slice_read h' t = slice_read h t"
    "sl_arr s' \<noteq> sl_arr s \<Longrightarrow> slice_read h' t = slice_read h t"
    by blast+
  assume "sl_arr s' = sl_arr s" "sl_len s < sl_len t"
  then have "slice_read h' t = (slice_read h t)[sl_len s := x]" "sl_len s < length (slice_read h t)"
    using slice_append_alias [OF assms(3,2) assms(4) [symmetric], of grow z x] assms(1,2)
    by (simp_all add: slice_ok_def slice_read_def)
  then show "x \<in> set (slice_read h' t)" by (simp add: set_update_memI)
qed

text \<open>The slices of the manager and of the schedulers: valid, those of different routers on
  different arrays, and on a shared array the scheduler's is at least as long.\<close>

definition share_inv :: "line_heap \<Rightarrow> (string \<rightharpoonup> slice) \<Rightarrow> (string \<rightharpoonup> slice) \<Rightarrow> bool" where
  "share_inv h rl ss \<longleftrightarrow>
     (\<forall>ip a. rl ip = Some a \<longrightarrow> slice_ok h a) \<and> (\<forall>ip a. ss ip = Some a \<longrightarrow> slice_ok h a)
   \<and> (\<forall>ip jp a b. rl ip = Some a \<and> rl jp = Some b \<and> ip \<noteq> jp \<longrightarrow> sl_arr a \<noteq> sl_arr b)
   \<and> (\<forall>ip jp a b. ss ip = Some a \<and> ss jp = Some b \<and> ip \<noteq> jp \<longrightarrow> sl_arr a \<noteq> sl_arr b)
   \<and> (\<forall>ip jp a b. rl ip = Some a \<and> ss jp = Some b \<and> sl_arr a = sl_arr b \<longrightarrow> ip = jp \<and> sl_len a \<le> sl_len b)"

lemma share_invD:
  assumes "share_inv h rl ss"
  shows "rl ip = Some a \<Longrightarrow> slice_ok h a" "ss ip = Some b \<Longrightarrow> slice_ok h b"
    and "rl ip = Some a \<Longrightarrow> rl jp = Some c \<Longrightarrow> ip \<noteq> jp \<Longrightarrow> sl_arr a \<noteq> sl_arr c"
    and "ss ip = Some b \<Longrightarrow> ss jp = Some d \<Longrightarrow> ip \<noteq> jp \<Longrightarrow> sl_arr b \<noteq> sl_arr d"
    and "rl ip = Some a \<Longrightarrow> ss jp = Some d \<Longrightarrow> sl_arr a = sl_arr d \<Longrightarrow> ip = jp \<and> sl_len a \<le> sl_len d"
  using assms unfolding share_inv_def by blast+

definition sched_slices :: "Manager \<Rightarrow> string \<rightharpoonup> slice" where
  "sched_slices m = (\<lambda>ip. map_option s_lines (m_schedulers m ip))"

definition m_inv :: "Manager \<Rightarrow> bool" where
  "m_inv m \<longleftrightarrow> share_inv (m_heap m) (m_routerLines m) (sched_slices m)"

text \<open>A write to the array \<open>arr\<close> of one router leaves the slices on other arrays alone.\<close>

lemma share_inv_change:
  assumes inv: "share_inv h rl ss"
    and frame: "\<And>t. slice_ok h t \<Longrightarrow> sl_arr t \<noteq> sl_arr a \<Longrightarrow> slice_ok h' t"
    and a: "rl ip = Some a" and new: "slice_ok h' a'" "sl_arr a' = sl_arr a \<or> sl_arr a' = sh_next h"
    and b: "case ss ip of None \<Rightarrow> True | Some b \<Rightarrow> slice_ok h' b
      \<and> (sl_arr a' = sl_arr b \<longrightarrow> sl_len a' \<le> sl_len b)"
  shows "share_inv h' (rl(ip \<mapsto> a')) ss"
proof -
  note d = share_invD [OF inv]
  have lt: "rl jp = Some c \<Longrightarrow> sl_arr c < sh_next h" "ss jp = Some c \<Longrightarrow> sl_arr c < sh_next h" for jp c
    using d(1,2) by (auto simp: slice_ok_def)
  have other: "sl_arr c \<noteq> sl_arr a \<and> sl_arr c \<noteq> sl_arr a'" if "rl jp = Some c" "jp \<noteq> ip" for jp c
    using that d(3) [OF a that(1)] lt new(2) by force
  have otherS: "sl_arr c \<noteq> sl_arr a \<and> sl_arr c \<noteq> sl_arr a'" if "ss jp = Some c" "jp \<noteq> ip" for jp c
    using that d(5) [OF a that(1)] lt new(2) by force
  show ?thesis
    unfolding share_inv_def
  proof (intro conjI allI impI)
    show "slice_ok h' c" if "(rl(ip \<mapsto> a')) jp = Some c" for jp c
      using that new(1) other frame d(1) by (cases "jp = ip") auto
    show "slice_ok h' c" if "ss jp = Some c" for jp c
      using that b otherS frame d(2) by (cases "jp = ip") auto
  next
    fix jp kp c e
    assume "(rl(ip \<mapsto> a')) jp = Some c \<and> (rl(ip \<mapsto> a')) kp = Some e \<and> jp \<noteq> kp"
    then show "sl_arr c \<noteq> sl_arr e"
      using other d(3) by (cases "jp = ip"; cases "kp = ip") (auto, fastforce+)
  next
    fix jp kp c e
    assume "ss jp = Some c \<and> ss kp = Some e \<and> jp \<noteq> kp"
    then show "sl_arr c \<noteq> sl_arr e" using d(4) by blast
  next
    fix jp kp c e
    assume as: "(rl(ip \<mapsto> a')) jp = Some c \<and> ss kp = Some e \<and> sl_arr c = sl_arr e"
    show "jp = kp"
    proof (cases "jp = ip")
      case True
      then show ?thesis using as otherS [of kp e] by force
    next
      case False
      then show ?thesis using as d(5) [of jp c kp e] by simp
    qed
    with as show "sl_len c \<le> sl_len e"
      using b d(5) [of jp c kp e] by (cases "jp = ip") auto
  qed
qed

lemma share_inv_sched:
  assumes inv: "share_inv h rl ss"
    and frame: "\<And>t. slice_ok h t \<Longrightarrow> sl_arr t \<noteq> sl_arr b \<Longrightarrow> slice_ok h' t"
    and b: "ss ip = Some b" and new: "slice_ok h' b'" "sl_arr b' = sl_arr b \<or> sl_arr b' = sh_next h"
    and a: "case rl ip of None \<Rightarrow> True | Some a \<Rightarrow> slice_ok h' a
      \<and> (sl_arr a = sl_arr b' \<longrightarrow> sl_len a \<le> sl_len b')"
  shows "share_inv h' rl (ss(ip \<mapsto> b'))"
proof -
  note d = share_invD [OF inv]
  have lt: "rl jp = Some c \<Longrightarrow> sl_arr c < sh_next h" "ss jp = Some c \<Longrightarrow> sl_arr c < sh_next h" for jp c
    using d(1,2) by (auto simp: slice_ok_def)
  have other: "sl_arr c \<noteq> sl_arr b \<and> sl_arr c \<noteq> sl_arr b'" if "ss jp = Some c" "jp \<noteq> ip" for jp c
    using that d(4) [OF b that(1)] lt new(2) by force
  have otherR: "sl_arr c \<noteq> sl_arr b \<and> sl_arr c \<noteq> sl_arr b'" if "rl jp = Some c" "jp \<noteq> ip" for jp c
    using that d(5) [OF that(1) b] lt new(2) by force
  show ?thesis
    unfolding share_inv_def
  proof (intro conjI allI impI)
    show "slice_ok h' c" if "(ss(ip \<mapsto> b')) jp = Some c" for jp c
      using that new(1) other frame d(2) by (cases "jp = ip") auto
    show "slice_ok h' c" if "rl jp = Some c" for jp c
      using that a otherR frame d(1) by (cases "jp = ip") auto
  next
    fix jp kp c e
    assume "(ss(ip \<mapsto> b')) jp = Some c \<and> (ss(ip \<mapsto> b')) kp = Some e \<and> jp \<noteq> kp"
    then show "sl_arr c \<noteq> sl_arr e"
      using other d(4) by (cases "jp = ip"; cases "kp = ip") (auto, fastforce+)
  next
    fix jp kp c e
    assume "rl jp = Some c \<and> rl kp = Some e \<and> jp \<noteq> kp"
    then show "sl_arr c \<noteq> sl_arr e" using d(3) by blast
  next
    fix jp kp c e
    assume as: "rl jp = Some c \<and> (ss(ip \<mapsto> b')) kp = Some e \<and> sl_arr c = sl_arr e"
    show "jp = kp"
    proof (cases "kp = ip")
      case True
      then show ?thesis using as otherR [of jp c] by force
    next
      case False
      then show ?thesis using as d(5) [of jp c kp e] by simp
    qed
    with as show "sl_len c \<le> sl_len e"
      using a d(5) [of jp c kp e] by (cases "kp = ip") auto
  qed
qed

lemma share_inv_new_sched:
  assumes "share_inv h rl ss" "rl ip = Some a" "ss ip = None"
  shows "share_inv h rl (ss(ip \<mapsto> a))"
proof -
  note d = share_invD [OF assms(1)]
  have free: "sl_arr b \<noteq> sl_arr a" if "ss jp = Some b" for jp b
    using d(5) [OF assms(2) that] assms(3) that by force
  show ?thesis
    unfolding share_inv_def
  proof (intro conjI allI impI)
    show "slice_ok h c" if "(ss(ip \<mapsto> a)) jp = Some c" for jp c
      using that d(1) [OF assms(2)] d(2) [of jp c] by (cases "jp = ip") auto
  next
    fix jp kp c e
    assume as: "rl jp = Some c \<and> (ss(ip \<mapsto> a)) kp = Some e \<and> sl_arr c = sl_arr e"
    show "jp = kp" using as d(3) [of jp c ip a] d(5) [of jp c kp e] assms(2) by (cases "kp = ip") auto
    with as show "sl_len c \<le> sl_len e" using d(5) [of jp c kp e] assms(2) by (cases "kp = ip") auto
  next
    fix jp kp c e
    assume as: "(ss(ip \<mapsto> a)) jp = Some c \<and> (ss(ip \<mapsto> a)) kp = Some e \<and> jp \<noteq> kp"
    then consider "c = a" "ss kp = Some e" | "e = a" "ss jp = Some c" | "ss jp = Some c" "ss kp = Some e"
      by (cases "jp = ip"; cases "kp = ip") simp_all
    then show "sl_arr c \<noteq> sl_arr e"
      by cases (use as free d(4) [of jp c kp e] in \<open>metis+\<close>)
  next
    show "slice_ok h c" if "rl jp = Some c" for jp c using that d(1) by blast
    show "sl_arr c \<noteq> sl_arr e" if "rl jp = Some c \<and> rl kp = Some e \<and> jp \<noteq> kp" for jp kp c e
      using that d(3) by blast
  qed
qed

lemma share_inv_make:
  assumes "share_inv h rl ss" "rl ip = None" "slice_make h = (h', a)"
  shows "share_inv h' (rl(ip \<mapsto> a)) ss"
    and "slice_read h' a = []" "slice_ok h t \<Longrightarrow> slice_read h' t = slice_read h t \<and> slice_ok h' t"
proof -
  note d = share_invD [OF assms(1)]
  have h: "h' = h\<lparr>sh_arr := (sh_arr h)(sh_next h := []), sh_next := Suc (sh_next h)\<rparr>"
      "a = \<lparr>sl_arr = sh_next h, sl_len = 0\<rparr>"
    using assms(3) by (auto simp: slice_make_def)
  show t: "slice_read h' t = slice_read h t \<and> slice_ok h' t" if "slice_ok h t" for t
    using that by (auto simp: h slice_ok_def slice_read_def)
  show "slice_read h' a = []" by (simp add: h slice_read_def)
  have a: "slice_ok h' a" by (simp add: h slice_ok_def)
  have free: "sl_arr c \<noteq> sl_arr a" if "slice_ok h c" for c
    using that by (auto simp: h slice_ok_def)
  show "share_inv h' (rl(ip \<mapsto> a)) ss"
    unfolding share_inv_def
  proof (intro conjI allI impI)
    fix jp kp c e
    assume as: "(rl(ip \<mapsto> a)) jp = Some c \<and> ss kp = Some e \<and> sl_arr c = sl_arr e"
    then have "slice_ok h e" using d(2) by blast
    then have "sl_arr e \<noteq> sl_arr a" by (rule free)
    then have "rl jp = Some c" using as by (cases "jp = ip") auto
    with as show "jp = kp" "sl_len c \<le> sl_len e" using d(5) [of jp c kp e] by auto
  next
    fix jp kp c e
    assume as: "(rl(ip \<mapsto> a)) jp = Some c \<and> (rl(ip \<mapsto> a)) kp = Some e \<and> jp \<noteq> kp"
    then consider "c = a" "rl kp = Some e" | "e = a" "rl jp = Some c" | "rl jp = Some c" "rl kp = Some e"
      by (cases "jp = ip"; cases "kp = ip") simp_all
    then show "sl_arr c \<noteq> sl_arr e"
      by cases (use as free d(1) d(3) [of jp c kp e] in \<open>metis+\<close>)
  next
    show "slice_ok h' c" if "(rl(ip \<mapsto> a)) jp = Some c" for jp c
      using that a t d(1) [of jp c] by (cases "jp = ip") auto
    show "slice_ok h' c" if "ss jp = Some c" for jp c using that t d(2) by blast
    show "sl_arr c \<noteq> sl_arr e" if "ss jp = Some c \<and> ss kp = Some e \<and> jp \<noteq> kp" for jp kp c e
      using that d(4) by blast
  qed
qed

section \<open>The manager's lists follow the events\<close>

fun abs_event :: "LineChangeEvent \<Rightarrow> (string \<Rightarrow> Line list) \<Rightarrow> string \<Rightarrow> Line list" where
  "abs_event e L = (let line = ev_Line e; ip = r_IP (l_Router line); same = (\<lambda>l. l_IP l = l_IP line)
     in L(ip := (case ev_Type e of
         LineCreate \<Rightarrow> if find_first same (L ip) \<noteq> None then L ip else L ip @ [line]
       | LineUpdate \<Rightarrow> replace_first same line (L ip)
       | LineDelete \<Rightarrow> remove_first same (L ip))))"

definition sched_append ::
  "(nat \<Rightarrow> nat) \<Rightarrow> Line \<Rightarrow> line_heap \<Rightarrow> slice \<Rightarrow> line_heap \<times> slice" where
  "sched_append grow l h t = (if l_IP l \<in> l_IP ` set (slice_read h t) then (h, t)
     else slice_append grow zero_line l h t)"

lemma OnLineCreated_slices:
  assumes "OnLineCreated grow l (h, s) = (h1, s1)"
  shows "(h1, s_lines s1) = sched_append grow l h (s_lines s)"
  using assms
  by (auto simp: OnLineCreated_def sched_append_def lineExists_iff Let_def split_beta split: if_splits)

text \<open>The manager appends a new line, then the scheduler of the router does. Either the scheduler
  sees the line already and keeps its slice, or the two slices are the same and so is the
  second write, or they are on different arrays.\<close>

lemma share_inv_drop: "share_inv h rl ss \<Longrightarrow> share_inv h rl (ss(ip := None))"
proof -
  assume i: "share_inv h rl ss"
  have s: "ss jp = Some c" if "(ss(ip := None)) jp = Some c" for jp c
    using that by (cases "jp = ip") simp_all
  show ?thesis using i s unfolding share_inv_def by meson
qed

lemma append_cases:
  assumes inv: "share_inv h rl ss" and a: "rl ip = Some a" and b: "ss ip = Some b"
    and ap: "slice_append grow z x h a = (h1, a1)" and fresh: "l_IP x \<notin> l_IP ` set (slice_read h a)"
  shows "if l_IP x \<in> l_IP ` set (slice_read h1 b)
    then sl_arr a1 = sl_arr b \<longrightarrow> sl_len a1 \<le> sl_len b
    else sl_arr a1 = sl_arr b \<longrightarrow> a = b \<and> sl_len a < length (sh_arr h (sl_arr a))"
proof -
  note d = share_invD [OF inv]
  note ok = d(1) [OF a] d(2) [OF b]
  note af = append_facts [OF ap ok(1)]
  show ?thesis
  proof (cases "sl_arr a1 = sl_arr b")
    case True
    then have same: "sl_arr a1 = sl_arr a" "sl_arr b = sl_arr a"
      using af(4) ok(2) by (auto simp: slice_ok_def)
    then have le: "sl_len a \<le> sl_len b" using d(5) [OF a b] by simp
    note bs = append_same_array [OF ap ok(2,1) same(2)]
    show ?thesis
    proof (cases "sl_len a < sl_len b")
      case True
      then show ?thesis using bs(3) [OF same(1)] af(3) by auto
    next
      case False
      then have "a = b" using le same(2) by simp
      then show ?thesis using bs(2) fresh af(6) [OF same(1)] by auto
    qed
  qed simp
qed

lemma append_both:
  assumes inv: "share_inv h rl ss" and a: "rl ip = Some a" and b: "ss ip = Some b"
    and ap: "slice_append grow zero_line x h a = (h1, a1)" and fresh: "l_IP x \<notin> l_IP ` set (slice_read h a)"
    and sa: "sched_append grow x h1 b = (h2, b2)"
  shows "share_inv h2 (rl(ip \<mapsto> a1)) (ss(ip \<mapsto> b2)) \<and> slice_read h2 a1 = slice_read h a @ [x]
    \<and> (\<forall>jp c. rl jp = Some c \<and> jp \<noteq> ip \<longrightarrow> slice_read h2 c = slice_read h c)"
proof -
  note d = share_invD [OF inv]
  note ok = d(1) [OF a] d(2) [OF b]
  note af = append_facts [OF ap ok(1)]
  note fr = append_frame [OF ap]
  note cs = append_cases [OF inv a b ap fresh]
  have okb: "slice_ok h1 b"
    using append_same_array(1) [OF ap ok(2,1)] fr(2) [OF ok(2)] by blast
  have rest: "sl_arr c \<noteq> sl_arr a" "sl_arr c \<noteq> sl_arr b" "slice_ok h c" if "rl jp = Some c" "jp \<noteq> ip" for jp c
    using d(1) [OF that(1)] d(3) [OF that(1) a that(2)] d(5) [OF that(1) b] that(2) by auto
  show ?thesis
  proof (cases "l_IP x \<in> l_IP ` set (slice_read h1 b)")
    case True
    then have e: "h2 = h1" "b2 = b" using sa by (auto simp: sched_append_def)
    have "share_inv h1 (rl(ip \<mapsto> a1)) ss"
      by (rule share_inv_change [OF inv fr(2) a af(1,4)]) (use b okb cs True in simp_all)
    moreover have "ss(ip \<mapsto> b) = ss" using b by auto
    ultimately show ?thesis using af(2) rest fr(1) by (auto simp: e)
  next
    case False
    then have sb: "slice_append grow zero_line x h1 b = (h2, b2)" using sa by (simp add: sched_append_def)
    show ?thesis
    proof (cases "sl_arr a1 = sl_arr b")
      case True
      then have ab: "a = b" "sl_len a < length (sh_arr h (sl_arr a))" using cs False by auto
      then have e: "h2 = h1" "b2 = a1" using ap sb by (auto simp: slice_append_def Let_def)
      have "share_inv h1 (rl(ip \<mapsto> a1)) (ss(ip := None))"
        by (rule share_inv_change [OF share_inv_drop [OF inv] fr(2) a af(1,4)]) simp_all
      then have "share_inv h1 (rl(ip \<mapsto> a1)) (ss(ip \<mapsto> a1))"
        using share_inv_new_sched [of h1 "rl(ip \<mapsto> a1)" "ss(ip := None)" ip a1] by simp
      then show ?thesis using af(2) rest fr(1) by (auto simp: e)
    next
      case ne: False
      note bf = append_facts [OF sb okb]
      note frb = append_frame [OF sb]
      have i1: "share_inv h1 (rl(ip \<mapsto> a1)) ss"
        by (rule share_inv_change [OF inv fr(2) a af(1,4)]) (use b okb ne in simp_all)
      have "sl_arr a1 \<noteq> sl_arr b2" using bf(4) ne af(1) by (auto simp: slice_ok_def)
      then have "share_inv h2 (rl(ip \<mapsto> a1)) (ss(ip \<mapsto> b2))"
        by (intro share_inv_sched [OF i1 frb(2) b bf(1,4)]) (use frb(2) [OF af(1) ne] in simp_all)
      moreover have "slice_read h2 c = slice_read h c" if "rl jp = Some c" "jp \<noteq> ip" for jp c
        using rest [OF that] fr [of c] frb(1) [of c] by simp
      ultimately show ?thesis using frb(1) [OF af(1) ne] af(2) by auto
    qed
  qed
qed

lemma createScheduler_lines: "createScheduler h sl = Some s \<Longrightarrow> s_lines s = sl"
  by (auto simp: createScheduler_def initializeQueues_def split: sum.splits elim!: NewRouterScheduler_InrD)

lemma router_lines_simp: "m_routerLines m ip = Some a \<Longrightarrow> router_lines m ip = slice_read (m_heap m) a"
  by (simp add: router_lines_def)

text \<open>The part of \<open>processCreate\<close> after the entry of the router exists and the address is new.\<close>

definition create_core :: "(nat \<Rightarrow> nat) \<Rightarrow> Line \<Rightarrow> string \<Rightarrow> Manager \<Rightarrow> Manager" where
  "create_core grow line ip m0 =
    (let (h1, sl1) = slice_append grow zero_line line (m_heap m0) (the (m_routerLines m0 ip));
       m1 = ensureScheduler ip sl1 (m0\<lparr>m_heap := h1, m_routerLines := (m_routerLines m0)(ip \<mapsto> sl1)\<rparr>)
     in (case m_schedulers m1 ip of None \<Rightarrow> m1
         | Some s \<Rightarrow> let (h2, s2) = OnLineCreated grow line (m_heap m1, s)
             in m1\<lparr>m_heap := h2, m_schedulers := (m_schedulers m1)(ip \<mapsto> s2)\<rparr>))"

lemma create_core_tracks:
  assumes inv: "m_inv m" and a: "m_routerLines m ip = Some a"
    and fresh: "l_IP line \<notin> l_IP ` set (router_lines m ip)"
  shows "m_inv (create_core grow line ip m)
    \<and> router_lines (create_core grow line ip m) = (router_lines m)(ip := router_lines m ip @ [line])"
proof -
  let ?rl = "m_routerLines m"
  obtain h1 a1 where ap: "slice_append grow zero_line line (m_heap m) a = (h1, a1)" by fastforce
  note i = inv [unfolded m_inv_def]
  note ok = share_invD(1) [OF i a]
  note af = append_facts [OF ap ok]
  note fr = append_frame [OF ap]
  have fresh': "l_IP line \<notin> l_IP ` set (slice_read (m_heap m) a)"
    using fresh by (simp add: router_lines_simp [OF a])
  have others: "slice_read h1 c = slice_read (m_heap m) c" if "?rl jp = Some c" "jp \<noteq> ip" for jp c
    using fr(1) [OF share_invD(1) [OF i that(1)]] share_invD(3) [OF i that(1) a that(2)] by simp
  show ?thesis
  proof (cases "m_schedulers m ip")
    case (Some s)
    then have b: "sched_slices m ip = Some (s_lines s)" by (simp add: sched_slices_def)
    obtain h2 s2 where oc: "OnLineCreated grow line (h1, s) = (h2, s2)" by fastforce
    have core: "create_core grow line ip m
        = m\<lparr>m_heap := h2, m_routerLines := ?rl(ip \<mapsto> a1), m_schedulers := (m_schedulers m)(ip \<mapsto> s2)\<rparr>"
      by (simp add: create_core_def a ap Some ensureScheduler_def oc)
    have parts: "sched_slices (create_core grow line ip m) = (sched_slices m)(ip \<mapsto> s_lines s2)"
        "m_heap (create_core grow line ip m) = h2"
        "m_routerLines (create_core grow line ip m) = ?rl(ip \<mapsto> a1)"
      by (auto simp: sched_slices_def core)
    note ab = append_both [OF i a b ap fresh' OnLineCreated_slices [OF oc, symmetric]]
    have "m_inv (create_core grow line ip m)" unfolding m_inv_def parts using ab by blast
    moreover have "router_lines (create_core grow line ip m) jp
        = ((router_lines m)(ip := router_lines m ip @ [line])) jp" for jp
      using ab by (cases "jp = ip") (auto simp: router_lines_def parts a split: option.splits)
    ultimately show ?thesis by blast
  next
    case None
    then have ss: "sched_slices m ip = None" by (simp add: sched_slices_def)
    have i1: "share_inv h1 (?rl(ip \<mapsto> a1)) (sched_slices m)"
      by (rule share_inv_change [OF i fr(2) a af(1,4)]) (simp_all add: ss)
    let ?m1 = "m\<lparr>m_heap := h1, m_routerLines := ?rl(ip \<mapsto> a1)\<rparr>"
    have r1: "router_lines ?m1 = (router_lines m)(ip := router_lines m ip @ [line])"
      using af(2) others by (auto simp: router_lines_def a fun_eq_iff split: option.splits)
    show ?thesis
    proof (cases "createScheduler h1 a1")
      case cNone: None
      then have "create_core grow line ip m = ?m1"
        by (simp add: create_core_def a ap None ensureScheduler_def)
      with i1 r1 show ?thesis by (simp add: m_inv_def sched_slices_def)
    next
      case (Some s)
      note sl = createScheduler_lines [OF Some]
      have "lineExistsLocked h1 s (l_IP line)" unfolding lineExists_iff sl af(2) by simp
      then have core: "create_core grow line ip m = ?m1\<lparr>m_schedulers := (m_schedulers m)(ip \<mapsto> s)\<rparr>"
        by (simp add: create_core_def a ap None Some ensureScheduler_def OnLineCreated_def)
      have parts: "sched_slices (create_core grow line ip m) = (sched_slices m)(ip \<mapsto> a1)"
          "m_heap (create_core grow line ip m) = h1"
          "m_routerLines (create_core grow line ip m) = ?rl(ip \<mapsto> a1)"
        by (auto simp: sched_slices_def core sl)
      have "m_inv (create_core grow line ip m)"
        unfolding m_inv_def parts using share_inv_new_sched [OF i1, of ip a1] ss by simp
      moreover have "router_lines (create_core grow line ip m) = router_lines ?m1"
        by (simp add: router_lines_def parts fun_eq_iff split: option.split)
      ultimately show ?thesis using r1 by simp
    qed
  qed
qed

lemma create_tracks:
  assumes "m_inv m"
  shows "m_inv (processCreate grow line m)
    \<and> router_lines (processCreate grow line m) = (let ip = r_IP (l_Router line); ls = router_lines m ip
      in (router_lines m)(ip := if find_first (\<lambda>l. l_IP l = l_IP line) ls \<noteq> None then ls else ls @ [line]))"
proof -
  let ?ip = "r_IP (l_Router line)"
  obtain h0 a0 where mk: "slice_make (m_heap m) = (h0, a0)" by fastforce
  define m0 where "m0 = (case m_routerLines m ?ip of Some _ \<Rightarrow> m
     | None \<Rightarrow> m\<lparr>m_heap := h0, m_routerLines := (m_routerLines m)(?ip \<mapsto> a0)\<rparr>)"
  note i = assms [unfolded m_inv_def]
  have m0: "m_inv m0 \<and> router_lines m0 = router_lines m \<and> (\<exists>a. m_routerLines m0 ?ip = Some a)"
  proof (cases "m_routerLines m ?ip")
    case None
    note sm = share_inv_make [OF i None mk]
    have "router_lines m0 jp = router_lines m jp" for jp
      using sm(2,3) None share_invD(1) [OF i, of jp]
      by (auto simp: m0_def router_lines_def split: option.splits)
    then show ?thesis using sm(1) None by (auto simp: m0_def m_inv_def sched_slices_def)
  qed (use assms in \<open>simp add: m0_def\<close>)
  then obtain a where a: "m_routerLines m0 ?ip = Some a" by blast
  have pc: "processCreate grow line m = (if find_first (\<lambda>l. l_IP l = l_IP line) (router_lines m0 ?ip) \<noteq> None
      then m0 else create_core grow line ?ip m0)"
    unfolding processCreate_def create_core_def Let_def mk prod.case m0_def by (rule refl)
  show ?thesis
  proof (cases "find_first (\<lambda>l. l_IP l = l_IP line) (router_lines m0 ?ip)")
    case None
    then have "l_IP line \<notin> l_IP ` set (router_lines m0 ?ip)" by (auto simp: image_iff)
    from create_core_tracks [OF _ a this, of grow] m0 None show ?thesis
      by (simp add: pc Let_def)
  next
    case (Some l)
    then show ?thesis using m0 by (simp add: pc Let_def del: find_first_None)
  qed
qed

lemma share_inv_heap: "(\<And>t. slice_ok h t \<Longrightarrow> slice_ok h' t) \<Longrightarrow> share_inv h rl ss \<Longrightarrow> share_inv h' rl ss"
  unfolding share_inv_def by meson

lemma slice_set_ok: "slice_ok h t \<Longrightarrow> slice_ok (slice_set i x h a) t"
  by (auto simp: slice_ok_def slice_set_def)

lemma slice_set_frame: "sl_arr t \<noteq> sl_arr a \<Longrightarrow> slice_read (slice_set i x h a) t = slice_read h t"
  by (simp add: slice_read_def slice_set_def)

lemma find_index_append: "find_index p xs = Some i \<Longrightarrow> find_index p (xs @ ys) = Some i"
  by (induction xs arbitrary: i) (auto split: if_splits)

lemma find_index_again: "find_index p xs = Some i \<Longrightarrow> p y \<Longrightarrow> find_index p (xs[i := y]) = Some i"
  by (induction xs arbitrary: i) (auto split: if_splits nat.splits)

text \<open>After the manager's write the scheduler's is the same write, or goes to another array.\<close>

lemma replace_in_lines_again:
  assumes "slice_ok h a" "find_index (\<lambda>l. l_IP l = l_IP line) (slice_read h a) = Some i"
    and "l_IP old = l_IP line" "sl_arr b = sl_arr a" "sl_len a \<le> sl_len b"
  shows "replace_in_lines old line (slice_set i line h a) b = slice_set i line h a"
proof -
  let ?h = "slice_set i line h a"
  have i: "i < length (slice_read h a)" using find_index_SomeD [OF assms(2)] by simp
  then have "slice_read ?h a = (slice_read h a)[i := line]" by (intro slice_read_set) (simp add: slice_read_def)
  then have "find_index (\<lambda>l. l_IP l = l_IP old) (slice_read ?h a) = Some i"
    using find_index_again [OF assms(2), of line] assms(3) by simp
  moreover obtain ys where "slice_read ?h b = slice_read ?h a @ ys"
    using assms(4,5) unfolding slice_read_def by (metis le_add_diff_inverse take_add)
  ultimately have "find_index (\<lambda>l. l_IP l = l_IP old) (slice_read ?h b) = Some i"
    using find_index_append by metis
  then show ?thesis by (simp add: replace_in_lines_def slice_set_def assms(4))
qed

lemma update_tracks:
  assumes "m_inv m"
  shows "m_inv (processUpdate line m)
    \<and> router_lines (processUpdate line m) = (let ip = r_IP (l_Router line)
      in (router_lines m)(ip := replace_first (\<lambda>l. l_IP l = l_IP line) line (router_lines m ip)))"
proof -
  let ?ip = "r_IP (l_Router line)" and ?same = "\<lambda>l. l_IP l = l_IP line"
  note inv = assms [unfolded m_inv_def]
  show ?thesis
  proof (cases "m_routerLines m ?ip")
    case None
    then show ?thesis using assms by (auto simp: processUpdate_def router_lines_def fun_eq_iff)
  next
    case (Some a)
    note a = Some and ok = share_invD(1) [OF inv Some]
    show ?thesis
    proof (cases "find_index ?same (slice_read (m_heap m) a)")
      case None
      then have "replace_first ?same line (router_lines m ?ip) = router_lines m ?ip"
        by (simp add: router_lines_simp [OF a] find_index_None)
      then show ?thesis using assms a None by (simp add: processUpdate_def Let_def)
    next
      case (Some i)
      let ?h1 = "slice_set i line (m_heap m) a"
      define old where "old = slice_read (m_heap m) a ! i"
      have i: "i < length (slice_read (m_heap m) a)" "l_IP old = l_IP line"
        using find_index_SomeD [OF Some] by (auto simp: old_def)
      define h2 where "h2 = (case m_schedulers m ?ip of None \<Rightarrow> ?h1 | Some s \<Rightarrow> replace_in_lines old line ?h1 (s_lines s))"
      have parts: "m_heap (processUpdate line m) = h2" "m_routerLines (processUpdate line m) = m_routerLines m"
          "sched_slices (processUpdate line m) = sched_slices m"
        by (auto simp: processUpdate_def Let_def a Some old_def [symmetric] h2_def OnLineUpdated_def
            sched_slices_def fun_eq_iff split: option.split)
      have h2: "h2 = ?h1 \<or> (\<exists>j b. sched_slices m ?ip = Some b \<and> sl_arr b \<noteq> sl_arr a \<and> h2 = slice_set j line ?h1 b)"
      proof (cases "m_schedulers m ?ip")
        case (Some s)
        then have b: "sched_slices m ?ip = Some (s_lines s)" by (simp add: sched_slices_def)
        show ?thesis
        proof (cases "sl_arr (s_lines s) = sl_arr a")
          case True
          then show ?thesis
            using replace_in_lines_again [OF ok \<open>find_index _ _ = Some i\<close> i(2) True]
              share_invD(5) [OF inv a b] Some by (simp add: h2_def)
        next
          case False
          then show ?thesis using Some b by (auto simp: h2_def replace_in_lines_def split: option.split)
        qed
      qed (simp add: h2_def)
      then have "slice_ok (m_heap m) t \<Longrightarrow> slice_ok h2 t" for t by (auto simp: slice_set_ok)
      then have "m_inv (processUpdate line m)"
        unfolding m_inv_def parts using share_inv_heap inv by blast
      moreover have "slice_read h2 a = (slice_read (m_heap m) a)[i := line]"
        using h2 slice_set_frame slice_read_set [of i a line "m_heap m"] i(1)
        by (auto simp: slice_read_def slice_set_frame [unfolded slice_read_def])
      moreover have "slice_read h2 c = slice_read (m_heap m) c" if "m_routerLines m jp = Some c" "jp \<noteq> ?ip" for jp c
        using h2 share_invD(3) [OF inv that(1) a that(2)] share_invD(5) [OF inv that(1)] that(2)
        by (auto simp: slice_set_frame) (metis slice_set_frame)
      ultimately show ?thesis
        using find_index_update [OF Some, of line]
        by (auto simp: router_lines_def parts a fun_eq_iff Let_def split: option.splits)
    qed
  qed
qed

lemma slice_delete_facts:
  assumes "slice_ok h a" "i < sl_len a" "slice_delete i h a = (h', a')"
  shows "slice_ok h t \<Longrightarrow> slice_ok h' t" "sl_arr a' = sl_arr a" "sl_len a' = sl_len a - 1"
    and "sl_arr t \<noteq> sl_arr a \<Longrightarrow> slice_read h' t = slice_read h t"
proof -
  from slice_parts [OF assms(1,2)] obtain xs y ys zs where p: "sh_arr h (sl_arr a) = xs @ y # ys @ zs"
    "i = length xs" "sl_len a = Suc (length xs + length ys)" .
  have "length (sh_arr h' (sl_arr a)) = length (sh_arr h (sl_arr a))"
    using slice_delete_array [OF p(1,3)] assms(3) p by simp
  moreover have "b \<noteq> sl_arr a \<Longrightarrow> sh_arr h' b = sh_arr h b" "sh_next h' = sh_next h" for b
    using assms(3) by (auto simp: slice_delete_def Let_def)
  ultimately show "slice_ok h t \<Longrightarrow> slice_ok h' t" "sl_arr t \<noteq> sl_arr a \<Longrightarrow> slice_read h' t = slice_read h t"
    unfolding slice_ok_def slice_read_def by metis+
  show "sl_arr a' = sl_arr a" "sl_len a' = sl_len a - 1"
    using assms(3) by (auto simp: slice_delete_def Let_def)
qed

lemma OnLineDeleted_lines [simp]: "s_lines (OnLineDeleted l s) = s_lines s"
  by (simp add: OnLineDeleted_def Let_def split: option.split)

lemma delete_tracks:
  assumes "m_inv m"
  shows "m_inv (processDelete line m)
    \<and> router_lines (processDelete line m) = (let ip = r_IP (l_Router line)
      in (router_lines m)(ip := remove_first (\<lambda>l. l_IP l = l_IP line) (router_lines m ip)))"
proof -
  let ?ip = "r_IP (l_Router line)" and ?same = "\<lambda>l. l_IP l = l_IP line"
  note inv = assms [unfolded m_inv_def]
  define m1 where "m1 = (case m_routerLines m ?ip of None \<Rightarrow> m
     | Some sl \<Rightarrow> (case find_index ?same (slice_read (m_heap m) sl) of
         None \<Rightarrow> m
       | Some i \<Rightarrow> let (h, sl1) = slice_delete i (m_heap m) sl
           in m\<lparr>m_heap := h, m_routerLines := (m_routerLines m)(?ip \<mapsto> sl1)\<rparr>))"
  have parts: "m_heap (processDelete line m) = m_heap m1" "m_routerLines (processDelete line m) = m_routerLines m1"
      "sched_slices (processDelete line m) = sched_slices m1"
    by (auto simp: processDelete_def m1_def [symmetric] Let_def sched_slices_def fun_eq_iff split: option.split)
  have m1: "m_inv m1 \<and> router_lines m1 = (router_lines m)(?ip := remove_first ?same (router_lines m ?ip))"
  proof (cases "m_routerLines m ?ip")
    case None
    then show ?thesis using assms by (auto simp: m1_def router_lines_def fun_eq_iff)
  next
    case (Some a)
    note a = Some and ok = share_invD(1) [OF inv Some]
    show ?thesis
    proof (cases "find_index ?same (slice_read (m_heap m) a)")
      case None
      then have "remove_first ?same (router_lines m ?ip) = router_lines m ?ip"
        by (simp add: router_lines_simp [OF a] find_index_None)
      then show ?thesis using assms a None by (simp add: m1_def)
    next
      case (Some i)
      obtain h1 a1 where sd: "slice_delete i (m_heap m) a = (h1, a1)" by fastforce
      have i: "i < sl_len a" using find_index_SomeD [OF Some] by (simp add: slice_read_def)
      note sf = slice_delete_facts [OF ok i sd]
      have e: "m1 = m\<lparr>m_heap := h1, m_routerLines := (m_routerLines m)(?ip \<mapsto> a1)\<rparr>"
        by (simp add: m1_def a Some sd)
      have oka: "slice_ok h1 a1" using sf(1) [OF ok] sf(2,3) by (auto simp: slice_ok_def)
      have lb: "sl_len a1 \<le> sl_len b" if "sched_slices m ?ip = Some b" "sl_arr a1 = sl_arr b" for b
        using share_invD(5) [OF inv a that(1)] that(2) sf(2,3) by simp
      have "share_inv h1 ((m_routerLines m)(?ip \<mapsto> a1)) (sched_slices m)"
        by (rule share_inv_change [OF inv sf(1) a oka])
          (use sf(1,2) lb share_invD(2) [OF inv] in \<open>auto split: option.split\<close>)
      moreover have "slice_read h1 a1 = remove_first ?same (slice_read (m_heap m) a)"
        using slice_read_delete [OF ok i] find_index_remove [OF Some] by (simp add: sd)
      moreover have "slice_read h1 c = slice_read (m_heap m) c" if "m_routerLines m jp = Some c" "jp \<noteq> ?ip" for jp c
        using sf(4) [of c] share_invD(3) [OF inv that(1) a that(2)] by simp
      ultimately show ?thesis
        by (auto simp: e m_inv_def sched_slices_def router_lines_def a fun_eq_iff split: option.split)
    qed
  qed
  have "router_lines (processDelete line m) = router_lines m1"
    by (simp add: router_lines_def parts fun_eq_iff split: option.split)
  then show ?thesis using m1 unfolding m_inv_def parts by (simp add: Let_def)
qed

text \<open>C2: The manager's lists follow the line events in every state it can share with its
  schedulers: a created line is appended to the list of its router unless its address is
  there, an update replaces and a deletion removes the line with the address, and the lists
  of the other routers do not change, whatever the schedulers write to the shared arrays.\<close>

theorem manager_tracks_events:
  assumes "m_inv m"
  shows "m_inv (processLineEvent grow e m)
    \<and> router_lines (processLineEvent grow e m) = abs_event e (router_lines m)"
  using create_tracks [OF assms, of grow "ev_Line e"] update_tracks [OF assms, of "ev_Line e"]
    delete_tracks [OF assms, of "ev_Line e"]
  by (cases "ev_Type e") (simp_all add: processLineEvent_def Let_def del: find_first_None)

lemma m_inv_New: "m_inv NewManager"
  by (simp add: m_inv_def share_inv_def NewManager_def sched_slices_def)

theorem manager_tracks_events_witness:
  "router_lines (processLineEvent (\<lambda>n. 2 * n) \<lparr>ev_Type = LineCreate, ev_Line = sample_line, ev_Version = 1\<rparr> NewManager)
     ''10.1.1.1'' = [sample_line]"
  using manager_tracks_events [OF m_inv_New, of "\<lambda>n. 2 * n"
      "\<lparr>ev_Type = LineCreate, ev_Line = sample_line, ev_Version = 1\<rparr>"]
  by (simp add: sample_line_def router_lines_def NewManager_def)

section \<open>A created line that the scheduler ignores\<close>

lemma processDelete_found:
  assumes "m_routerLines m ip = Some a" "m_schedulers m ip = Some s" "ip = r_IP (l_Router line)"
    and "find_index (\<lambda>l. l_IP l = l_IP line) (slice_read (m_heap m) a) = Some i"
    and "slice_delete i (m_heap m) a = (h1, a1)"
  shows "m_heap (processDelete line m) = h1" "m_routerLines (processDelete line m) ip = Some a1"
    "m_schedulers (processDelete line m) ip = Some (OnLineDeleted line s)"
  using assms by (simp_all add: processDelete_def Let_def)

text \<open>C10: After a full synchronisation the scheduler works on the manager's own array. When a line
  of the router is deleted and another one created, the manager writes the new line into the
  cell the deletion freed, the scheduler finds it in its longer slice, takes the creation for
  a duplicate and never queues the line, although the manager lists it.\<close>

theorem create_after_delete_ignored:
  assumes "m_inv m" "m_routerLines m ip = Some a" "m_schedulers m ip = Some s" "s_lines s = a"
    and "old \<in> set (router_lines m ip)" "r_IP (l_Router old) = ip"
    and "r_IP (l_Router new) = ip" "l_IP new \<notin> l_IP ` set (router_lines m ip)"
  shows "let m2 = processCreate grow new (processDelete old m) in
    new \<in> set (router_lines m2 ip) \<and> m_schedulers m2 ip = Some (OnLineDeleted old s)"
proof -
  define m2 where "m2 = processCreate grow new (processDelete old m)"
  let ?m1 = "processDelete old m"
  note inv = assms(1) [unfolded m_inv_def]
  note ok = share_invD(1) [OF inv assms(2)]
  note dt = delete_tracks [OF assms(1), of old]
  have rl: "router_lines m ip = slice_read (m_heap m) a" by (rule router_lines_simp [OF assms(2)])
  then obtain i where i: "find_index (\<lambda>l. l_IP l = l_IP old) (slice_read (m_heap m) a) = Some i"
    using assms(5) find_index_None [of "\<lambda>l. l_IP l = l_IP old" "slice_read (m_heap m) a"] by fastforce
  obtain h1 a1 where sd: "slice_delete i (m_heap m) a = (h1, a1)" by fastforce
  have il: "i < sl_len a" using find_index_SomeD [OF i] by (simp add: slice_read_def)
  note sf = slice_delete_facts [OF ok il sd]
  note pd = processDelete_found [OF assms(2,3) assms(6) [symmetric] i sd]
  have ok1: "slice_ok h1 a1" "slice_ok h1 a" using sf(1) [OF ok] sf(2,3) by (auto simp: slice_ok_def)
  have lt: "sl_len a1 < sl_len a" using il sf(3) by simp
  obtain h2 a2 where ap: "slice_append grow zero_line new h1 a1 = (h2, a2)" by fastforce
  have arr: "sl_arr a2 = sl_arr a1"
    using ap lt ok1(2) sf(2) by (auto simp: slice_append_def slice_ok_def Let_def split: if_splits)
  have fresh: "l_IP new \<notin> l_IP ` set (router_lines ?m1 ip)"
    using dt assms(6,8) set_remove_first_subset [of "\<lambda>l. l_IP l = l_IP old" "router_lines m ip"]
    by (auto simp: Let_def)
  have "new \<in> set (slice_read h2 a)"
    using append_same_array(3) [OF ap ok1(2,1) _ arr lt] sf(2) by simp
  then have ex: "lineExistsLocked h2 (OnLineDeleted old s) (l_IP new)"
    by (auto simp: lineExists_iff assms(4))
  have "find_first (\<lambda>l. l_IP l = l_IP new) (router_lines ?m1 ip) = None"
    unfolding find_first_None using fresh by (metis image_eqI)
  then have "m_schedulers m2 ip = Some (OnLineDeleted old s)"
    using ex by (simp add: m2_def processCreate_def assms(7) pd ap Let_def ensureScheduler_def OnLineCreated_def
        del: find_first_None)
  moreover have "router_lines m2 ip = router_lines ?m1 ip @ [new]"
    using create_tracks [of ?m1 grow new] dt \<open>find_first _ _ = None\<close> assms(7)
    by (simp add: m2_def Let_def del: find_first_None)
  ultimately show ?thesis by (simp add: m2_def [symmetric])
qed

text \<open>A manager in that state: two lines of one router, one array, a scheduler on it.\<close>

definition line_b :: Line where "line_b = sample_line\<lparr>l_ID := ''8'', l_IP := ''10.0.0.2''\<rparr>"
definition line_c :: Line where "line_c = sample_line\<lparr>l_ID := ''9'', l_IP := ''10.0.0.3''\<rparr>"

definition shared_manager :: Manager where
  "shared_manager = \<lparr>m_schedulers = [''10.1.1.1'' \<mapsto> one_line_sched\<lparr>s_lines := \<lparr>sl_arr = 0, sl_len = 2\<rparr>\<rparr>],
     m_routerLines = [''10.1.1.1'' \<mapsto> \<lparr>sl_arr = 0, sl_len = 2\<rparr>],
     m_heap = \<lparr>sh_arr = (\<lambda>_. [sample_line, line_b]), sh_next = 1\<rparr>, m_delayed = []\<rparr>"

theorem create_after_delete_ignored_witness:
  "line_c \<in> set (router_lines (processCreate (\<lambda>n. 2 * n) line_c (processDelete sample_line shared_manager)) ''10.1.1.1'')"
proof -
  have inv: "m_inv shared_manager"
    by (simp add: m_inv_def share_inv_def shared_manager_def sched_slices_def slice_ok_def)
  have rl: "router_lines shared_manager ''10.1.1.1'' = [sample_line, line_b]"
    by (simp add: router_lines_def shared_manager_def slice_read_def)
  have "m_routerLines shared_manager ''10.1.1.1'' = Some \<lparr>sl_arr = 0, sl_len = 2\<rparr>"
    "m_schedulers shared_manager ''10.1.1.1'' = Some (one_line_sched\<lparr>s_lines := \<lparr>sl_arr = 0, sl_len = 2\<rparr>\<rparr>)"
    by (simp_all add: shared_manager_def)
  from create_after_delete_ignored [OF inv this, of sample_line line_c "\<lambda>n. 2 * n"] show ?thesis
    by (simp add: rl Let_def) (simp add: line_b_def line_c_def sample_line_def)
qed

section \<open>Full synchronisation\<close>

definition lines_at :: "line_heap \<Rightarrow> (string \<rightharpoonup> slice) \<Rightarrow> string \<Rightarrow> Line list" where
  "lines_at h rl ip = (case rl ip of None \<Rightarrow> [] | Some a \<Rightarrow> slice_read h a)"

definition unshared :: "(string \<rightharpoonup> slice) \<Rightarrow> (string \<rightharpoonup> slice) \<Rightarrow> bool" where
  "unshared rl ss \<longleftrightarrow> (\<forall>ip jp a b. rl ip = Some a \<and> ss jp = Some b \<longrightarrow> sl_arr a \<noteq> sl_arr b)"

lemma append_to_router:
  assumes "share_inv h rl ss" "unshared rl ss" "rl ip = Some a" "slice_append grow z x h a = (h1, a1)"
  shows "share_inv h1 (rl(ip \<mapsto> a1)) ss \<and> unshared (rl(ip \<mapsto> a1)) ss
    \<and> lines_at h1 (rl(ip \<mapsto> a1)) = (lines_at h rl)(ip := lines_at h rl ip @ [x])"
proof -
  note d = share_invD [OF assms(1)]
  note af = append_facts [OF assms(4) d(1) [OF assms(3)]]
  note fr = append_frame [OF assms(4)]
  have new: "sl_arr a1 \<noteq> sl_arr b \<and> sl_arr a \<noteq> sl_arr b \<and> slice_ok h b" if "ss jp = Some b" for jp b
    using that assms(2,3) d(2) [OF that] af(4) by (auto simp: unshared_def slice_ok_def)
  have b: "case ss ip of None \<Rightarrow> True | Some b \<Rightarrow> slice_ok h1 b \<and> (sl_arr a1 = sl_arr b \<longrightarrow> sl_len a1 \<le> sl_len b)"
  proof (cases "ss ip")
    case (Some b)
    then show ?thesis using new [OF Some] fr(2) [of b] by fastforce
  qed simp
  have "share_inv h1 (rl(ip \<mapsto> a1)) ss"
    by (rule share_inv_change [OF assms(1) fr(2) assms(3) af(1,4) b])
  moreover have "unshared (rl(ip \<mapsto> a1)) ss"
    unfolding unshared_def using assms(2) [unfolded unshared_def] new by (metis fun_upd_apply option.inject)
  moreover have "lines_at h1 (rl(ip \<mapsto> a1)) jp = ((lines_at h rl)(ip := lines_at h rl ip @ [x])) jp" for jp
  proof (cases "jp = ip")
    case True
    then show ?thesis using af(2) assms(3) by (simp add: lines_at_def)
  next
    case False
    then have "rl jp = Some c \<Longrightarrow> slice_read h1 c = slice_read h c" for c
      using fr(1) [of c] d(1) [of jp c] d(3) [of jp c ip a] assms(3) by simp
    then show ?thesis using False by (cases "rl jp") (simp_all add: lines_at_def)
  qed
  ultimately show ?thesis by blast
qed

lemma group_step:
  assumes "share_inv h rl ss" "unshared rl ss" "append_router_line grow l (h, rl) = (h', rl')"
  shows "share_inv h' rl' ss \<and> unshared rl' ss \<and> dom rl' = insert (r_IP (l_Router l)) (dom rl)
    \<and> lines_at h' rl' = (lines_at h rl)(r_IP (l_Router l) := lines_at h rl (r_IP (l_Router l)) @ [l])"
proof (cases "rl (r_IP (l_Router l))")
  case (Some a)
  obtain h1 a1 where ap: "slice_append grow zero_line l h a = (h1, a1)" by fastforce
  have e: "h' = h1" "rl' = rl(r_IP (l_Router l) \<mapsto> a1)"
    using assms(3) by (simp_all add: append_router_line_def Let_def Some ap)
  show ?thesis using append_to_router [OF assms(1,2) Some ap] Some unfolding e by auto
next
  case None
  let ?ip = "r_IP (l_Router l)"
  obtain h0 a0 where mk: "slice_make h = (h0, a0)" by fastforce
  note sm = share_inv_make [OF assms(1) None mk]
  have a0: "sl_arr a0 = sh_next h" using mk by (auto simp: slice_make_def)
  have "sl_arr b < sh_next h" if "ss jp = Some b" for jp b
    using share_invD(2) [OF assms(1) that] by (simp add: slice_ok_def)
  then have u: "unshared (rl(?ip \<mapsto> a0)) ss"
    unfolding unshared_def using assms(2) [unfolded unshared_def] a0 by (metis fun_upd_apply less_irrefl option.inject)
  have "lines_at h0 (rl(?ip \<mapsto> a0)) jp = lines_at h rl jp" for jp
    using sm(2) sm(3) [OF share_invD(1) [OF assms(1)], of jp] None
    by (cases "jp = ?ip"; cases "rl jp") (simp_all add: lines_at_def)
  then have l0: "lines_at h0 (rl(?ip \<mapsto> a0)) = lines_at h rl" by blast
  obtain h1 a1 where ap: "slice_append grow zero_line l h0 a0 = (h1, a1)" by fastforce
  have e: "h' = h1" "rl' = rl(?ip \<mapsto> a1)"
    using assms(3) by (simp_all add: append_router_line_def Let_def None mk ap)
  show ?thesis
    using append_to_router [OF sm(1) u _ ap, of ?ip] l0 None unfolding e by auto
qed

lemma group_lines_spec:
  assumes "share_inv h rl ss" "unshared rl ss" "fold (append_router_line grow) ls (h, rl) = (h', rl')"
  shows "share_inv h' rl' ss \<and> unshared rl' ss \<and> dom rl' = dom rl \<union> (\<lambda>l. r_IP (l_Router l)) ` set ls
    \<and> (\<forall>ip. lines_at h' rl' ip = lines_at h rl ip @ filter (\<lambda>l. r_IP (l_Router l) = ip) ls)"
  using assms
proof (induction ls arbitrary: h rl)
  case (Cons l ls)
  obtain h1 rl1 where s: "append_router_line grow l (h, rl) = (h1, rl1)" by fastforce
  note g = group_step [OF Cons.prems(1,2) s]
  from Cons.IH [of h1 rl1] g Cons.prems(3) s show ?case by auto
qed auto

lemma ensure_facts:
  "m_heap (ensureScheduler ip sl m) = m_heap m" "m_routerLines (ensureScheduler ip sl m) = m_routerLines m"
  "m_schedulers (ensureScheduler ip sl m) jp = (if jp = ip \<and> m_schedulers m ip = None
     then createScheduler (m_heap m) sl else m_schedulers m jp)"
  by (auto simp: ensureScheduler_def split: option.split)

definition ensure_all :: "(string \<rightharpoonup> slice) \<Rightarrow> string list \<Rightarrow> Manager \<Rightarrow> Manager" where
  "ensure_all rl ro m = fold (\<lambda>ip m. ensureScheduler ip (the (rl ip)) m) ro m"

lemma fold_ensure:
  "m_heap (ensure_all rl ro m) = m_heap m \<and> m_routerLines (ensure_all rl ro m) = m_routerLines m
    \<and> (\<forall>ip. m_schedulers (ensure_all rl ro m) ip = (case m_schedulers m ip of Some s \<Rightarrow> Some s
        | None \<Rightarrow> if ip \<in> set ro then createScheduler (m_heap m) (the (rl ip)) else None))"
  unfolding ensure_all_def
  by (induction ro arbitrary: m) (auto simp: ensure_facts split: option.splits)

lemma ensure_inv:
  assumes "m_inv m" "m_routerLines m ip = Some sl"
  shows "m_inv (ensureScheduler ip sl m)"
proof (cases "m_schedulers m ip = None \<and> createScheduler (m_heap m) sl \<noteq> None")
  case True
  then obtain s where s: "createScheduler (m_heap m) sl = Some s" by blast
  have "sched_slices (ensureScheduler ip sl m) = (sched_slices m)(ip \<mapsto> sl)"
    using True s createScheduler_lines [OF s] by (auto simp: sched_slices_def ensure_facts fun_eq_iff)
  moreover have "sched_slices m ip = None" using True by (simp add: sched_slices_def)
  ultimately show ?thesis
    using assms share_inv_new_sched [of "m_heap m" "m_routerLines m" "sched_slices m" ip sl]
    by (simp add: m_inv_def ensure_facts)
next
  case False
  then have "ensureScheduler ip sl m = m" by (auto simp: ensureScheduler_def split: option.split)
  then show ?thesis using assms by simp
qed

lemma fold_ensure_inv:
  "m_inv m \<Longrightarrow> m_routerLines m = rl \<Longrightarrow> set ro \<subseteq> dom rl \<Longrightarrow>
     m_inv (ensure_all rl ro m)"
  unfolding ensure_all_def by (induction ro arbitrary: m) (auto simp: ensure_inv ensure_facts)

lemma share_inv_subset:
  assumes "share_inv h rl ss" "\<And>ip a. ss' ip = Some a \<Longrightarrow> ss ip = Some a"
  shows "share_inv h rl ss'"
  using assms unfolding share_inv_def by meson

lemma share_inv_fewer:
  assumes "share_inv h rl ss" "\<And>ip a. rl' ip = Some a \<Longrightarrow> rl ip = Some a"
  shows "share_inv h rl' ss"
  using assms unfolding share_inv_def by meson

text \<open>The state after a synchronisation that found lines, with the schedulers before the clean-up.\<close>

lemma fullSync_parts:
  assumes inv: "m_inv m" and polls: "sync_lines polls = Some lines"
    and ro: "set ro = (\<lambda>k. r_IP (l_Router (the (lines k)))) ` set lo"
  shows "m_schedulers (fullSync grow lo ro polls m) ip = (if m_routerLines (fullSync grow lo ro polls m) ip = None
       then None else case m_schedulers m ip of Some s \<Rightarrow> Some s | None \<Rightarrow>
         createScheduler (m_heap (fullSync grow lo ro polls m)) (the (m_routerLines (fullSync grow lo ro polls m) ip)))"
    and "m_inv (fullSync grow lo ro polls m)" "dom (m_routerLines (fullSync grow lo ro polls m)) = set ro"
    and "router_lines (fullSync grow lo ro polls m) ip
      = filter (\<lambda>l. r_IP (l_Router l) = ip) (map (\<lambda>k. the (lines k)) lo)"
proof -
  let ?ls = "map (\<lambda>k. the (lines k)) lo"
  obtain h rl where g: "group_lines grow ?ls (m_heap m) = (h, rl)" by fastforce
  let ?m0 = "m\<lparr>m_heap := h, m_routerLines := rl\<rparr>"
  let ?m1 = "ensure_all rl ro ?m0"
  let ?F = "fullSync grow lo ro polls m"
  have F: "?F = ?m1\<lparr>m_schedulers := (\<lambda>ip. if rl ip = None then None else m_schedulers ?m1 ip)\<rparr>"
    unfolding fullSync_def polls option.case g prod.case Let_def ensure_all_def by (rule refl)
  have e1: "share_inv (m_heap m) Map.empty (sched_slices m)"
    by (rule share_inv_fewer [OF inv [unfolded m_inv_def]]) simp
  have e2: "unshared Map.empty (sched_slices m)" by (simp add: unshared_def)
  note gs = group_lines_spec [OF e1 e2 g [unfolded group_lines_def]]
  from gs have gl: "share_inv h rl (sched_slices m)" by (rule conjunct1)
  have dom: "dom rl = set ro"
    unfolding gs [THEN conjunct2, THEN conjunct2, THEN conjunct1] ro by (simp add: image_image)
  have ls: "lines_at h rl ip = filter (\<lambda>l. r_IP (l_Router l) = ip) ?ls" for ip
    unfolding gs [THEN conjunct2, THEN conjunct2, THEN conjunct2, THEN spec]
    by (simp add: lines_at_def)
  have "m_inv ?m0" using gl by (simp add: m_inv_def sched_slices_def)
  then have i1: "m_inv ?m1" using dom by (intro fold_ensure_inv) simp_all
  note fe = fold_ensure [of rl ro ?m0]
  have rl1: "m_heap ?m1 = h" "m_routerLines ?m1 = rl" using fe by simp_all
  have parts: "m_heap ?F = h" "m_routerLines ?F = rl" using rl1 by (simp_all add: F)
  have sub: "sched_slices ?m1 ip = Some a" if "sched_slices ?F ip = Some a" for ip a
    using that by (simp add: F sched_slices_def split: if_splits)
  show "m_inv ?F"
    unfolding m_inv_def parts by (rule share_inv_subset [OF i1 [unfolded m_inv_def rl1] sub])
  show "dom (m_routerLines ?F) = set ro" unfolding parts by (rule dom)
  have "m_schedulers ?F ip = (if rl ip = None then None else m_schedulers ?m1 ip)" by (simp add: F)
  then show "m_schedulers ?F ip = (if m_routerLines ?F ip = None then None
       else case m_schedulers m ip of Some s \<Rightarrow> Some s | None \<Rightarrow> createScheduler (m_heap ?F) (the (m_routerLines ?F ip)))"
    unfolding parts
    using fe [THEN conjunct2, THEN conjunct2, THEN spec, of ip] dom by (cases "rl ip") (auto split: option.split)
  show "router_lines ?F ip = filter (\<lambda>l. r_IP (l_Router l) = ip) ?ls"
    using ls [of ip] by (simp add: router_lines_def lines_at_def parts split: option.splits)
qed

text \<open>C32: A full synchronisation that finds lines groups exactly them by router, keeps a scheduler
  only for routers that have lines, and gives a new scheduler the manager's own slice and
  exactly the router's lines, each in the queue of its interval; a scheduler that exists
  stays as it is, its queues are not brought up to date.\<close>

theorem fullSync_spec:
  assumes "m_inv m" "sync_lines polls = Some lines"
    and "set ro = (\<lambda>k. r_IP (l_Router (the (lines k)))) ` set lo"
  shows "let m' = fullSync grow lo ro polls m in
      (\<forall>ip. router_lines m' ip = filter (\<lambda>l. r_IP (l_Router l) = ip) (map (\<lambda>k. the (lines k)) lo))
    \<and> (\<forall>ip s. m_schedulers m' ip = Some s \<longrightarrow> router_lines m' ip \<noteq> []
        \<and> (m_schedulers m ip = None \<longrightarrow> m_routerLines m' ip = Some (s_lines s)
            \<and> (\<forall>d. queue_tasks s d = filter (\<lambda>l. l_Interval l = d) (router_lines m' ip))))
    \<and> (\<forall>ip s. m_schedulers m ip = Some s \<and> router_lines m' ip \<noteq> [] \<longrightarrow> m_schedulers m' ip = Some s)
    \<and> m_inv m'"
proof -
  let ?F = "fullSync grow lo ro polls m" and ?ls = "map (\<lambda>k. the (lines k)) lo"
  note F = fullSync_parts [OF assms, where grow = grow]
  have ne: "router_lines ?F ip \<noteq> [] \<longleftrightarrow> m_routerLines ?F ip \<noteq> None" for ip
  proof -
    have "router_lines ?F ip \<noteq> [] \<longleftrightarrow> ip \<in> set ro"
      unfolding F(4) assms(3) by (auto simp: filter_empty_conv)
    then show ?thesis using F(3) by blast
  qed
  have new: "m_routerLines ?F ip = Some (s_lines s)
      \<and> (\<forall>d. queue_tasks s d = filter (\<lambda>l. l_Interval l = d) (router_lines ?F ip))"
    if "m_schedulers ?F ip = Some s" "m_schedulers m ip = None" for ip s
  proof -
    from that obtain a where a: "m_routerLines ?F ip = Some a" "createScheduler (m_heap ?F) a = Some s"
      using F(1) [of ip] by (auto split: if_splits)
    then have "NewRouterScheduler (m_heap ?F) a = Inr s" by (auto simp: createScheduler_def split: sum.splits)
    then obtain s0 where "s = initializeQueues (m_heap ?F) s0" "s_lines s0 = a" "s_queues s0 = Map.empty"
      by (rule NewRouterScheduler_InrD)
    then have "queue_tasks s d = filter (\<lambda>l. l_Interval l = d) (slice_read (m_heap ?F) a)" for d
      by (simp add: initializeQueues_def fold_add_tasks) (simp add: queue_tasks_def)
    then show ?thesis using a createScheduler_lines [OF a(2)] router_lines_simp [OF a(1)] by simp
  qed
  have some: "router_lines ?F ip \<noteq> []" if "m_schedulers ?F ip = Some s" for ip s
    using that F(1) [of ip] ne [of ip] by (auto split: if_splits)
  have kept: "m_schedulers ?F ip = Some s" if "m_schedulers m ip = Some s" "router_lines ?F ip \<noteq> []" for ip s
    using that F(1) [of ip] ne [of ip] by simp
  show ?thesis
    unfolding Let_def using F(2,4) some kept new by blast
qed

lemma sync_lines_one: "lines \<noteq> Map.empty \<Longrightarrow> sync_lines [lines] = Some lines"
  by (simp add: sync_lines_def)

theorem fullSync_spec_witness:
  "router_lines (fullSync (\<lambda>n. 2 * n) [''10.0.0.1''] [''10.1.1.1''] [[''10.0.0.1'' \<mapsto> sample_line]] NewManager)
     ''10.1.1.1'' = [sample_line]"
proof -
  have s: "sync_lines [[''10.0.0.1'' \<mapsto> sample_line]] = Some [''10.0.0.1'' \<mapsto> sample_line]"
    by (rule sync_lines_one) (simp add: fun_eq_iff)
  have "set [''10.1.1.1''] = (\<lambda>k. r_IP (l_Router (the ([''10.0.0.1'' \<mapsto> sample_line] k)))) ` set [''10.0.0.1'']"
    by (simp add: sample_line_def)
  from fullSync_spec [OF m_inv_New s this, of "\<lambda>n. 2 * n"] show ?thesis
    by (simp add: Let_def) (simp add: sample_line_def)
qed

text \<open>An update event that carries a new router address is lost when the new router does not
  list the line: nothing changes, the old router keeps checking it with the old data.\<close>

theorem update_with_new_router_lost:
  assumes "ev_Type e = LineUpdate" "l_IP (ev_Line e) \<notin> l_IP ` set (router_lines m (r_IP (l_Router (ev_Line e))))"
  shows "processLineEvent grow e m = m"
proof (cases "m_routerLines m (r_IP (l_Router (ev_Line e)))")
  case (Some a)
  then have "find_index (\<lambda>l. l_IP l = l_IP (ev_Line e)) (slice_read (m_heap m) a) = None"
    unfolding find_index_None using assms(2) router_lines_simp [OF Some] by (metis image_eqI)
  then show ?thesis using assms(1) Some by (simp add: processLineEvent_def processUpdate_def Let_def)
qed (use assms(1) in \<open>simp add: processLineEvent_def processUpdate_def\<close>)

theorem update_with_new_router_lost_witness:
  "processLineEvent (\<lambda>n. 2 * n) \<lparr>ev_Type = LineUpdate,
     ev_Line = sample_line\<lparr>l_Router := (l_Router sample_line)\<lparr>r_IP := ''10.9.9.9''\<rparr>\<rparr>, ev_Version = 2\<rparr> shared_manager
   = shared_manager"
  by (rule update_with_new_router_lost) (simp_all add: router_lines_def shared_manager_def)

text \<open>\<open>Stop\<close> stops every scheduler but removes none from the map, so the clean-up report that
  follows is never complete once a scheduler existed.\<close>

theorem cleanup_after_stop_incomplete:
  assumes "m_schedulers m ip = Some s" "ip \<in> set sips"
  shows "m_schedulers (Manager_Stop m) ip = Some (Scheduler_Stop s) \<and> s_stopped (Scheduler_Stop s)
    \<and> \<not> cleanup_complete chan ips sips (Manager_Stop m)"
  using assms by (auto simp: Manager_Stop_def cleanup_complete_def Scheduler_Stop_def filter_empty_conv)

theorem cleanup_after_stop_incomplete_witness:
  "\<not> cleanup_complete True [''10.1.1.1''] [''10.1.1.1''] (Manager_Stop shared_manager)"
  using cleanup_after_stop_incomplete [of shared_manager "''10.1.1.1''" _ "[''10.1.1.1'']" True "[''10.1.1.1'']"]
  by (auto simp: shared_manager_def)

end
