(* ===== verification/Aggregator.thy ===== *)
theory Aggregator
  imports Lines Registry
begin

text \<open>
  The result aggregator (\<open>task/aggregator.go\<close>): a bounded event channel, a pool of workers that
  move events into a shared buffer, a manager that flushes it by timer, and the handlers every
  flushed batch is dispatched to. Each goroutine is a thread with a program point; one action is
  what a goroutine does between two points at which another one can interleave (a channel
  operation, a critical section, a handler call). Threads \<open>0 .. workers - 1\<close> are the workers,
  thread \<open>workers\<close> is the buffer manager and the last one is the caller of \<open>Stop\<close>.
\<close>

record ResultEvent =
  e_LineID :: string
  e_IP :: string
  e_RouterIP :: string
  e_TaskType :: TaskType
  e_Timestamp :: gtime
  e_Success :: bool
  e_Data :: gmap
  e_Error :: string
  e_Duration :: duration

text \<open>A call of a handler returns, with or without an error, or never returns.\<close>

datatype handled = Returned "string option" | Blocked

type_synonym handler = "ResultEvent list \<Rightarrow> handled"

datatype thread = is_Idle: TIdle | TGot ResultEvent | TStored ResultEvent bool | TFlush
  | THandle "ResultEvent list" nat | TStopping | TWaiting | TClosing | is_Done: TDone

lemmas thread_points [simp] = is_Idle_def is_Done_def

record Aggregator =
  a_handlers :: "handler list"
  a_eventChan :: "ResultEvent list"
  a_chan_closed :: bool
  a_workers :: nat
  a_buffer :: "ResultEvent list"
  a_bufferSize :: nat
  a_stopped :: bool
  a_cancelled :: bool
  a_totalEvents :: nat
  a_successEvents :: nat
  a_failedEvents :: nat
  a_lastFlush :: gtime
  a_threads :: "thread list"

definition NewAggregator :: "nat \<Rightarrow> nat \<Rightarrow> Aggregator" where
  "NewAggregator workers bufferSize = \<lparr>a_handlers = [], a_eventChan = [], a_chan_closed = False,
     a_workers = workers, a_buffer = [], a_bufferSize = bufferSize, a_stopped = False,
     a_cancelled = False, a_totalEvents = 0, a_successEvents = 0, a_failedEvents = 0,
     a_lastFlush = 0, a_threads = []\<rparr>"

definition chan_cap :: "Aggregator \<Rightarrow> nat" where
  "chan_cap a = a_workers a * 200"

definition AddHandler :: "handler \<Rightarrow> Aggregator \<Rightarrow> Aggregator" where
  "AddHandler h a = a\<lparr>a_handlers := a_handlers a @ [h]\<rparr>"

definition Aggregator_Start :: "Aggregator \<Rightarrow> Aggregator" where
  "Aggregator_Start a = a\<lparr>a_threads := replicate (a_workers a + 2) TIdle\<rparr>"

section \<open>Submission\<close>

text \<open>
  The \<open>select\<close> of \<open>Submit\<close>: a send on a closed channel counts as ready and panics; when both
  cases are ready the runtime picks one (\<open>pick\<close>).
\<close>

datatype submitted = Accepted | ContextCancelled | ErrQueueFull | SubmitPanic

definition Submit :: "bool \<Rightarrow> ResultEvent \<Rightarrow> Aggregator \<Rightarrow> submitted \<times> Aggregator" where
  "Submit pick e a =
    (if (a_chan_closed a \<or> length (a_eventChan a) < chan_cap a) \<and> (\<not> a_cancelled a \<or> pick)
     then if a_chan_closed a then (SubmitPanic, a)
       else (Accepted, a\<lparr>a_eventChan := a_eventChan a @ [e]\<rparr>)
     else if a_cancelled a then (ContextCancelled, a)
     else (ErrQueueFull, a))"

definition result_event :: "gtime \<Rightarrow> Line \<Rightarrow> TaskType \<Rightarrow> Result \<Rightarrow> duration \<Rightarrow> ResultEvent" where
  "result_event now line taskType result d = \<lparr>e_LineID = l_ID line, e_IP = l_IP line,
     e_RouterIP = r_IP (l_Router line), e_TaskType = taskType, e_Timestamp = now,
     e_Success = res_Success result, e_Data = res_Data result, e_Error = res_Error result,
     e_Duration = d\<rparr>"

definition SubmitTaskResult ::
  "bool \<Rightarrow> gtime \<Rightarrow> Line \<Rightarrow> TaskType \<Rightarrow> Result \<Rightarrow> duration \<Rightarrow> Aggregator \<Rightarrow> submitted \<times> Aggregator" where
  "SubmitTaskResult pick now line taskType result d a =
     Submit pick (result_event now line taskType result d) a"

section \<open>Steps of the goroutines\<close>

definition set_thread :: "nat \<Rightarrow> thread \<Rightarrow> Aggregator \<Rightarrow> Aggregator" where
  "set_thread i t a = a\<lparr>a_threads := (a_threads a)[i := t]\<rparr>"

text \<open>\<open>worker\<close>: the receive and the stop case of its \<open>select\<close>.\<close>

definition worker_receive :: "nat \<Rightarrow> Aggregator \<Rightarrow> Aggregator option" where
  "worker_receive i a = (case a_eventChan a of
     [] \<Rightarrow> if a_chan_closed a then Some (set_thread i TDone a) else None
   | e # q \<Rightarrow> Some (set_thread i (TGot e) (a\<lparr>a_eventChan := q\<rparr>)))"

definition see_stop :: "nat \<Rightarrow> Aggregator \<Rightarrow> Aggregator option" where
  "see_stop i a = (if a_stopped a then Some (set_thread i TDone a) else None)"

text \<open>\<open>processEvent\<close>: the critical section, then the statistics and the decision to flush.\<close>

definition processEvent_store :: "nat \<Rightarrow> ResultEvent \<Rightarrow> Aggregator \<Rightarrow> Aggregator" where
  "processEvent_store i e a = (let b = a_buffer a @ [e] in
     set_thread i (TStored e (length b \<ge> a_bufferSize a)) (a\<lparr>a_buffer := b\<rparr>))"

definition updateStats :: "ResultEvent \<Rightarrow> Aggregator \<Rightarrow> Aggregator" where
  "updateStats e a = (let a1 = a\<lparr>a_totalEvents := a_totalEvents a + 1\<rparr> in
     if e_Success e then a1\<lparr>a_successEvents := a_successEvents a1 + 1\<rparr>
     else a1\<lparr>a_failedEvents := a_failedEvents a1 + 1\<rparr>)"

definition processEvent_count :: "nat \<Rightarrow> ResultEvent \<Rightarrow> bool \<Rightarrow> Aggregator \<Rightarrow> Aggregator" where
  "processEvent_count i e shouldFlush a =
     set_thread i (if shouldFlush then TFlush else TIdle) (updateStats e a)"

text \<open>\<open>flush\<close>: the swap of the buffer, one handler call after the other, the flush time. A worker
  and the manager return to their loops; \<open>Stop\<close> goes on to close the channel.\<close>

definition after_flush :: "nat \<Rightarrow> Aggregator \<Rightarrow> thread" where
  "after_flush i a = (if i = Suc (a_workers a) then TClosing else TIdle)"

definition flush_swap :: "nat \<Rightarrow> Aggregator \<Rightarrow> Aggregator" where
  "flush_swap i a = (if length (a_buffer a) = 0 then set_thread i (after_flush i a) a
     else set_thread i (THandle (a_buffer a) 0) (a\<lparr>a_buffer := []\<rparr>))"

definition handleEvents_next :: "nat \<Rightarrow> ResultEvent list \<Rightarrow> nat \<Rightarrow> Aggregator \<Rightarrow> Aggregator option" where
  "handleEvents_next i events k a =
    (if k < length (a_handlers a)
     then case (a_handlers a ! k) events of
         Blocked \<Rightarrow> None
       | Returned err \<Rightarrow> Some (set_thread i (THandle events (Suc k)) a)
     else None)"

definition flush_done :: "nat \<Rightarrow> gtime \<Rightarrow> Aggregator \<Rightarrow> Aggregator" where
  "flush_done i now a = set_thread i (after_flush i a) (a\<lparr>a_lastFlush := now\<rparr>)"

text \<open>\<open>Stop\<close>, called once: a second call would close a closed channel.\<close>

definition Stop_begin :: "Aggregator \<Rightarrow> Aggregator" where
  "Stop_begin a = set_thread (Suc (a_workers a)) TStopping (a\<lparr>a_stopped := True\<rparr>)"

definition Stop_cancel :: "Aggregator \<Rightarrow> Aggregator" where
  "Stop_cancel a = set_thread (Suc (a_workers a)) TWaiting (a\<lparr>a_cancelled := True\<rparr>)"

definition Stop_join :: "Aggregator \<Rightarrow> Aggregator option" where
  "Stop_join a = (if \<forall>t\<in>set (take (Suc (a_workers a)) (a_threads a)). is_Done t
     then Some (set_thread (Suc (a_workers a)) TFlush a) else None)"

definition Stop_close :: "Aggregator \<Rightarrow> Aggregator" where
  "Stop_close a = set_thread (Suc (a_workers a)) TDone (a\<lparr>a_chan_closed := True\<rparr>)"

text \<open>The actions of the whole system. \<open>Step i now\<close> lets goroutine \<open>i\<close> run to its next point; at
  the \<open>select\<close> of a worker or of the manager, \<open>Select_stop i\<close> takes the stop case instead.\<close>

datatype action = Submission bool ResultEvent | Step nat gtime | Select_stop nat

definition step_idle :: "nat \<Rightarrow> Aggregator \<Rightarrow> Aggregator option" where
  "step_idle i a = (if i < a_workers a then worker_receive i a
     else if i = a_workers a then Some (set_thread i TFlush a)
     else Some (Stop_begin a))"

definition thread_step :: "nat \<Rightarrow> gtime \<Rightarrow> Aggregator \<Rightarrow> Aggregator option" where
  "thread_step i now a = (if i < length (a_threads a) then (case a_threads a ! i of
       TIdle \<Rightarrow> step_idle i a
     | TGot e \<Rightarrow> Some (processEvent_store i e a)
     | TStored e f \<Rightarrow> Some (processEvent_count i e f a)
     | TFlush \<Rightarrow> Some (flush_swap i a)
     | THandle evs k \<Rightarrow> if k = length (a_handlers a) then Some (flush_done i now a)
         else handleEvents_next i evs k a
     | TStopping \<Rightarrow> Some (Stop_cancel a)
     | TWaiting \<Rightarrow> Stop_join a
     | TClosing \<Rightarrow> Some (Stop_close a)
     | TDone \<Rightarrow> None) else None)"

definition agg_step :: "action \<Rightarrow> Aggregator \<Rightarrow> Aggregator option" where
  "agg_step act a = (case act of
     Submission pick e \<Rightarrow> Some (snd (Submit pick e a))
   | Step i now \<Rightarrow> thread_step i now a
   | Select_stop i \<Rightarrow> if i \<le> a_workers a \<and> i < length (a_threads a) \<and> is_Idle (a_threads a ! i)
       then see_stop i a else None)"

section \<open>Statistics and the provided handlers\<close>

record AggregatorStats =
  as_TotalEvents :: nat
  as_SuccessEvents :: nat
  as_FailedEvents :: nat
  as_LastFlush :: gtime
  as_QueueLength :: nat
  as_BufferLength :: nat

definition Aggregator_GetStats :: "Aggregator \<Rightarrow> AggregatorStats" where
  "Aggregator_GetStats a = \<lparr>as_TotalEvents = a_totalEvents a, as_SuccessEvents = a_successEvents a,
     as_FailedEvents = a_failedEvents a, as_LastFlush = a_lastFlush a,
     as_QueueLength = length (a_eventChan a), as_BufferLength = length (a_buffer a)\<rparr>"

fun countSuccessEvents :: "ResultEvent list \<Rightarrow> nat" where
  "countSuccessEvents [] = 0"
| "countSuccessEvents (e # es) = (if e_Success e then Suc (countSuccessEvents es) else countSuccessEvents es)"

definition LogHandler_HandleResult :: handler where
  "LogHandler_HandleResult events = Returned None"

definition MetricsHandler_HandleResult :: handler where
  "MetricsHandler_HandleResult events = Returned None"

text \<open>\<open>JSONFileHandler\<close> takes its mutex in every round of its loop and releases it only when the
  call returns; a Go mutex is not reentrant. \<open>marshal\<close> is the encoder's error.\<close>

fun json_events :: "(ResultEvent \<Rightarrow> string option) \<Rightarrow> bool \<Rightarrow> ResultEvent list \<Rightarrow> handled" where
  "json_events marshal locked [] = Returned None"
| "json_events marshal locked (e # es) = (if locked then Blocked
     else case marshal e of Some err \<Rightarrow> Returned (Some err) | None \<Rightarrow> json_events marshal True es)"

definition JSONFileHandler_HandleResult :: "(ResultEvent \<Rightarrow> string option) \<Rightarrow> handler" where
  "JSONFileHandler_HandleResult marshal events = json_events marshal False events"

end
