(* ===== verification/Aggregator_Proofs.thy ===== *)
theory Aggregator_Proofs
  imports Aggregator
begin

text \<open>
  Runs of the aggregator under every interleaving of submissions, workers, buffer manager and
  \<open>Stop\<close>: delivery of each accepted event to each handler, statistics, the bound of the
  buffer, what \<open>Stop\<close> leaves behind, and progress while the handlers return.
\<close>

section \<open>Runs\<close>

definition started :: "handler list \<Rightarrow> nat \<Rightarrow> nat \<Rightarrow> Aggregator" where
  "started hs workers bufferSize = Aggregator_Start (fold AddHandler hs (NewAggregator workers bufferSize))"

definition accepted_by :: "action \<Rightarrow> Aggregator \<Rightarrow> ResultEvent list" where
  "accepted_by act a = (case act of
     Submission pick e \<Rightarrow> if fst (Submit pick e a) = Accepted then [e] else []
   | _ \<Rightarrow> [])"

definition calls_by :: "action \<Rightarrow> Aggregator \<Rightarrow> (nat \<times> ResultEvent list) list" where
  "calls_by act a = (case act of
     Step i now \<Rightarrow> (case a_threads a ! i of
         THandle evs k \<Rightarrow> if k < length (a_handlers a) then [(k, evs)] else []
       | _ \<Rightarrow> [])
   | _ \<Rightarrow> [])"

text \<open>\<open>agg_run a0 accepted calls a\<close>: from \<open>a0\<close> the system can reach \<open>a\<close>; \<open>accepted\<close> are the events
  whose submission succeeded and \<open>calls\<close> the completed handler calls, both in order.\<close>

inductive agg_run ::
  "Aggregator \<Rightarrow> ResultEvent list \<Rightarrow> (nat \<times> ResultEvent list) list \<Rightarrow> Aggregator \<Rightarrow> bool" where
  agg_init: "agg_run a0 [] [] a0"
| agg_next: "agg_run a0 acc calls a \<Longrightarrow> agg_step act a = Some a'
    \<Longrightarrow> agg_run a0 (acc @ accepted_by act a) (calls @ calls_by act a) a'"

lemma agg_run_invariant:
  assumes "P a0" "agg_run a0 acc calls a" "\<And>act a a'. agg_step act a = Some a' \<Longrightarrow> P a \<Longrightarrow> P a'"
  shows "P a"
  using assms(2,1) by (induction rule: agg_run.induct) (auto intro: assms(3))

text \<open>Runs along a given schedule.\<close>

fun agg_exec :: "action list \<Rightarrow> ResultEvent list \<times> (nat \<times> ResultEvent list) list \<times> Aggregator
    \<Rightarrow> (ResultEvent list \<times> (nat \<times> ResultEvent list) list \<times> Aggregator) option" where
  "agg_exec [] s = Some s"
| "agg_exec (act # acts) (acc, calls, a) = (case agg_step act a of
     None \<Rightarrow> None
   | Some a' \<Rightarrow> agg_exec acts (acc @ accepted_by act a, calls @ calls_by act a, a'))"

lemma agg_exec_run:
  "agg_exec acts (acc, calls, a) = Some (acc', calls', a') \<Longrightarrow> agg_run a0 acc calls a
    \<Longrightarrow> agg_run a0 acc' calls' a'"
  by (induction acts "(acc, calls, a)" arbitrary: acc calls a rule: agg_exec.induct)
    (auto split: option.splits intro: agg_next)

lemma agg_exec_witness:
  assumes "case agg_exec acts ([], [], a0) of None \<Rightarrow> False | Some (acc, calls, a) \<Rightarrow> P acc calls a"
  obtains acc calls a where "agg_run a0 acc calls a" "P acc calls a"
proof (cases "agg_exec acts ([], [], a0)")
  case (Some r)
  obtain acc calls a where r: "r = (acc, calls, a)" by (metis prod_cases3)
  then have "agg_run a0 acc calls a" using agg_exec_run [OF _ agg_init] Some by blast
  with assms Some r that show thesis by simp
qed (use assms in simp)

definition sample_event :: ResultEvent where
  "sample_event = result_event 0 sample_line ''ping'' \<lparr>res_Success = True, res_Data = Map.empty, res_Error = []\<rparr> Second"

definition sample_schedule :: "action list" where
  "sample_schedule = Submission True sample_event # map (\<lambda>i. Step i 0) [0, 0, 0, 1, 1, 1, 1, 2, 2]
     @ [Select_stop 0, Select_stop 1] @ map (\<lambda>i. Step i 0) [2, 2, 2]"

lemmas agg_defs = agg_step_def thread_step_def step_idle_def worker_receive_def see_stop_def
  processEvent_store_def processEvent_count_def updateStats_def flush_swap_def handleEvents_next_def
  flush_done_def Stop_begin_def Stop_cancel_def Stop_join_def Stop_close_def set_thread_def

lemma fold_AddHandler: "fold AddHandler hs a = a\<lparr>a_handlers := a_handlers a @ hs\<rparr>"
  by (induction hs arbitrary: a) (simp_all add: AddHandler_def)

lemma started_fields [simp]:
  "a_handlers (started hs w b) = hs" "a_eventChan (started hs w b) = []"
  "a_chan_closed (started hs w b) = False" "a_workers (started hs w b) = w"
  "a_buffer (started hs w b) = []" "a_bufferSize (started hs w b) = b"
  "a_stopped (started hs w b) = False" "a_cancelled (started hs w b) = False"
  "a_totalEvents (started hs w b) = 0" "a_successEvents (started hs w b) = 0"
  "a_failedEvents (started hs w b) = 0" "a_threads (started hs w b) = replicate (w + 2) TIdle"
  by (simp_all add: started_def Aggregator_Start_def fold_AddHandler NewAggregator_def)

text \<open>Case analysis of a step, with the thread it moves.\<close>

lemma agg_step_cases [consumes 1, case_names submit closed receive stop store count_ev timer
    swap_empty swap handle flushed stop_begin stop_cancel stop_join stop_close]:
  assumes "agg_step act a = Some a'"
  obtains pick e where "act = Submission pick e" "a' = snd (Submit pick e a)"
  | i now where "act = Step i now" "i < length (a_threads a)" "i < a_workers a" "a_threads a ! i = TIdle"
      "a_eventChan a = []" "a_chan_closed a" "a' = set_thread i TDone a"
  | i now e q where "act = Step i now" "i < length (a_threads a)" "i < a_workers a" "a_threads a ! i = TIdle"
      "a_eventChan a = e # q" "a' = set_thread i (TGot e) (a\<lparr>a_eventChan := q\<rparr>)"
  | i where "act = Select_stop i" "i < length (a_threads a)" "i \<le> a_workers a" "a_threads a ! i = TIdle"
      "a_stopped a" "a' = set_thread i TDone a"
  | i now e where "act = Step i now" "i < length (a_threads a)" "a_threads a ! i = TGot e"
      "a' = processEvent_store i e a"
  | i now e f where "act = Step i now" "i < length (a_threads a)" "a_threads a ! i = TStored e f"
      "a' = processEvent_count i e f a"
  | i now where "act = Step i now" "i < length (a_threads a)" "i = a_workers a" "a_threads a ! i = TIdle"
      "a' = set_thread i TFlush a"
  | i now where "act = Step i now" "i < length (a_threads a)" "a_threads a ! i = TFlush"
      "a_buffer a = []" "a' = set_thread i (after_flush i a) a"
  | i now where "act = Step i now" "i < length (a_threads a)" "a_threads a ! i = TFlush"
      "a_buffer a \<noteq> []" "a' = set_thread i (THandle (a_buffer a) 0) (a\<lparr>a_buffer := []\<rparr>)"
  | i now evs k err where "act = Step i now" "i < length (a_threads a)" "a_threads a ! i = THandle evs k"
      "k < length (a_handlers a)" "(a_handlers a ! k) evs = Returned err"
      "a' = set_thread i (THandle evs (Suc k)) a"
  | i now evs where "act = Step i now" "i < length (a_threads a)"
      "a_threads a ! i = THandle evs (length (a_handlers a))" "a' = flush_done i now a"
  | i now where "act = Step i now" "i < length (a_threads a)" "a_workers a < i" "a_threads a ! i = TIdle"
      "a' = Stop_begin a"
  | i now where "act = Step i now" "i < length (a_threads a)" "a_threads a ! i = TStopping" "a' = Stop_cancel a"
  | i now where "act = Step i now" "i < length (a_threads a)" "a_threads a ! i = TWaiting"
      "\<forall>t\<in>set (take (Suc (a_workers a)) (a_threads a)). t = TDone"
      "a' = set_thread (Suc (a_workers a)) TFlush a"
  | i now where "act = Step i now" "i < length (a_threads a)" "a_threads a ! i = TClosing" "a' = Stop_close a"
proof (cases act)
  case (Submission pick e)
  with assms that(1) show thesis by (simp add: agg_step_def)
next
  case (Select_stop i)
  with assms that(4) show thesis by (auto simp: agg_step_def see_stop_def split: if_splits)
next
  case (Step i now)
  with assms have i: "i < length (a_threads a)" and s: "thread_step i now a = Some a'"
    by (auto simp: agg_step_def thread_step_def split: if_splits)
  show thesis
  proof (cases "a_threads a ! i")
    case TIdle
    then show thesis using s i Step that(2,3,7,12)
      by (auto simp: thread_step_def step_idle_def worker_receive_def split: if_splits list.splits)
  next
    case (THandle evs k)
    then show thesis using s i Step that(10,11)
      by (auto simp: thread_step_def handleEvents_next_def split: if_splits handled.splits)
  next
    case TFlush
    then show thesis using s i Step that(8,9)
      by (auto simp: thread_step_def flush_swap_def split: if_splits)
  next
    case TWaiting
    then show thesis using s i Step that(14)
      by (auto simp: thread_step_def Stop_join_def split: if_splits)
  qed (use s i Step that(5,6,13,15) in \<open>auto simp: thread_step_def\<close>)
qed

section \<open>Shape of the reachable states\<close>

fun thread_ok :: "nat \<Rightarrow> nat \<Rightarrow> nat \<Rightarrow> thread \<Rightarrow> bool" where
  "thread_ok w n i TStopping \<longleftrightarrow> i = Suc w"
| "thread_ok w n i TWaiting \<longleftrightarrow> i = Suc w"
| "thread_ok w n i TClosing \<longleftrightarrow> i = Suc w"
| "thread_ok w n i (THandle evs k) \<longleftrightarrow> k \<le> n"
| "thread_ok w n i (TGot e) \<longleftrightarrow> i < w"
| "thread_ok w n i (TStored e f) \<longleftrightarrow> i < w"
| "thread_ok w n i _ \<longleftrightarrow> True"

definition agg_wf :: "Aggregator \<Rightarrow> bool" where
  "agg_wf a \<longleftrightarrow> length (a_threads a) = a_workers a + 2
   \<and> (\<forall>i<length (a_threads a). thread_ok (a_workers a) (length (a_handlers a)) i (a_threads a ! i))"

definition stopper :: "Aggregator \<Rightarrow> thread" where
  "stopper a = a_threads a ! Suc (a_workers a)"

definition workers_done :: "Aggregator \<Rightarrow> bool" where
  "workers_done a \<longleftrightarrow> (\<forall>i\<le>a_workers a. a_threads a ! i = TDone)"

lemma set_thread_fields [simp]:
  "a_handlers (set_thread i t a) = a_handlers a" "a_eventChan (set_thread i t a) = a_eventChan a"
  "a_chan_closed (set_thread i t a) = a_chan_closed a" "a_workers (set_thread i t a) = a_workers a"
  "a_buffer (set_thread i t a) = a_buffer a" "a_bufferSize (set_thread i t a) = a_bufferSize a"
  "a_stopped (set_thread i t a) = a_stopped a" "a_cancelled (set_thread i t a) = a_cancelled a"
  "a_totalEvents (set_thread i t a) = a_totalEvents a" "a_successEvents (set_thread i t a) = a_successEvents a"
  "a_failedEvents (set_thread i t a) = a_failedEvents a" "a_threads (set_thread i t a) = (a_threads a)[i := t]"
  by (simp_all add: set_thread_def)

lemmas step_defs = processEvent_store_def processEvent_count_def updateStats_def flush_done_def
  Stop_begin_def Stop_cancel_def Stop_close_def Let_def

lemma Submit_fields [simp]:
  "a_handlers (snd (Submit p e a)) = a_handlers a" "a_workers (snd (Submit p e a)) = a_workers a"
  "a_threads (snd (Submit p e a)) = a_threads a" "a_buffer (snd (Submit p e a)) = a_buffer a"
  "a_bufferSize (snd (Submit p e a)) = a_bufferSize a" "a_stopped (snd (Submit p e a)) = a_stopped a"
  "a_cancelled (snd (Submit p e a)) = a_cancelled a" "a_chan_closed (snd (Submit p e a)) = a_chan_closed a"
  "a_totalEvents (snd (Submit p e a)) = a_totalEvents a" "a_successEvents (snd (Submit p e a)) = a_successEvents a"
  "a_failedEvents (snd (Submit p e a)) = a_failedEvents a"
  "a_eventChan (snd (Submit p e a)) = a_eventChan a @ accepted_by (Submission p e) a"
  by (simp_all add: Submit_def accepted_by_def)

lemma agg_step_params:
  "agg_step act a = Some a' \<Longrightarrow>
    a_handlers a' = a_handlers a \<and> a_workers a' = a_workers a \<and> a_bufferSize a' = a_bufferSize a
    \<and> length (a_threads a') = length (a_threads a)"
  by (elim agg_step_cases; hypsubst; simp add: step_defs)

lemma agg_wf_set:
  assumes "agg_wf a" "thread_ok (a_workers a) (length (a_handlers a)) i t"
    "a_threads a' = a_threads a" "a_workers a' = a_workers a" "a_handlers a' = a_handlers a"
  shows "agg_wf (set_thread i t a')"
  using assms unfolding agg_wf_def
  by (cases "i < length (a_threads a)") (auto simp: nth_list_update)

lemma agg_wfD:
  "agg_wf a \<Longrightarrow> i < length (a_threads a) \<Longrightarrow>
    thread_ok (a_workers a) (length (a_handlers a)) i (a_threads a ! i)"
  by (simp add: agg_wf_def)

lemma agg_step_wf:
  assumes "agg_step act a = Some a'" "agg_wf a"
  shows "agg_wf a'"
  using assms(1)
proof (cases rule: agg_step_cases)
  case submit
  with assms(2) show ?thesis by (simp add: agg_wf_def)
next
  case (store i now e)
  then show ?thesis using agg_wfD [OF assms(2) store(2)]
    by (auto simp: step_defs intro!: agg_wf_set [OF assms(2)])
qed (use agg_wfD [OF assms(2)] in
    \<open>auto simp: step_defs after_flush_def intro!: agg_wf_set [OF assms(2)]\<close>)

lemma stopper_upd [simp]:
  "stopper (a\<lparr>a_eventChan := q\<rparr>) = stopper a" "stopper (a\<lparr>a_buffer := b\<rparr>) = stopper a"
  "stopper (a\<lparr>a_lastFlush := x\<rparr>) = stopper a" "stopper (a\<lparr>a_stopped := y\<rparr>) = stopper a"
  "stopper (a\<lparr>a_cancelled := y\<rparr>) = stopper a" "stopper (a\<lparr>a_chan_closed := y\<rparr>) = stopper a"
  "stopper (a\<lparr>a_totalEvents := n, a_successEvents := m\<rparr>) = stopper a"
  "stopper (a\<lparr>a_totalEvents := n, a_failedEvents := m\<rparr>) = stopper a"
  by (simp_all add: stopper_def)

lemma agg_wf_upd [simp]:
  "agg_wf (a\<lparr>a_eventChan := q\<rparr>) = agg_wf a" "agg_wf (a\<lparr>a_buffer := b\<rparr>) = agg_wf a"
  "agg_wf (a\<lparr>a_lastFlush := x\<rparr>) = agg_wf a" "agg_wf (a\<lparr>a_stopped := y\<rparr>) = agg_wf a"
  "agg_wf (a\<lparr>a_cancelled := y\<rparr>) = agg_wf a" "agg_wf (a\<lparr>a_chan_closed := y\<rparr>) = agg_wf a"
  "agg_wf (a\<lparr>a_totalEvents := n, a_successEvents := m\<rparr>) = agg_wf a"
  "agg_wf (a\<lparr>a_totalEvents := n, a_failedEvents := m\<rparr>) = agg_wf a"
  by (simp_all add: agg_wf_def)

text \<open>A thread other than the caller of \<open>Stop\<close> that can move is not done, so \<open>Stop\<close> has not passed
  its wait.\<close>

definition stop_point_ok :: "Aggregator \<Rightarrow> thread \<Rightarrow> bool" where
  "stop_point_ok a t \<longleftrightarrow> (a_stopped a \<longleftrightarrow> t \<noteq> TIdle)
   \<and> (a_cancelled a \<longleftrightarrow> t \<notin> {TIdle, TStopping})
   \<and> (a_chan_closed a \<longleftrightarrow> t = TDone)
   \<and> (t \<in> {TIdle, TStopping, TWaiting} \<or> workers_done a)
   \<and> ((\<exists>evs k. t = THandle evs k) \<or> t \<in> {TClosing, TDone} \<longrightarrow> a_buffer a = [])"

definition stop_inv :: "Aggregator \<Rightarrow> bool" where
  "stop_inv a \<longleftrightarrow> stop_point_ok a (stopper a)"

lemma stop_inv_set:
  assumes "agg_wf a" "stop_inv a" "i < length (a_threads a)" "a_threads a ! i \<noteq> TDone"
    "a_workers a' = a_workers a" "a_threads a' = a_threads a"
    "i \<noteq> Suc (a_workers a) \<Longrightarrow>
       a_stopped a' = a_stopped a \<and> a_cancelled a' = a_cancelled a \<and> a_chan_closed a' = a_chan_closed a"
    "i = Suc (a_workers a) \<Longrightarrow> stop_point_ok a' t"
  shows "stop_inv (set_thread i t a')"
proof (cases "i = Suc (a_workers a)")
  case True
  have s: "stopper (set_thread i t a') = t"
    using assms(1,5,6) True by (simp add: stopper_def agg_wf_def)
  have w: "workers_done (set_thread i t a') = workers_done a'"
    using assms(5,6) True by (simp add: workers_done_def)
  have "stop_point_ok (set_thread i t a') t = stop_point_ok a' t"
    unfolding stop_point_ok_def w by simp
  then show ?thesis unfolding stop_inv_def s using assms(8) [OF True] by (rule iffD2)
next
  case False
  then have le: "i \<le> a_workers a" using assms(1,3) by (simp add: agg_wf_def)
  have n: "stopper a \<in> {TIdle, TStopping, TWaiting}"
    using assms(2,4) le by (auto simp: stop_inv_def stop_point_ok_def workers_done_def)
  have s: "stopper (set_thread i t a') = stopper a"
    using assms(5,6) False by (simp add: stopper_def)
  have "stop_point_ok (set_thread i t a') (stopper a)"
    using assms(2) assms(7) [OF False] n
    by (elim insertE emptyE) (simp_all add: stop_inv_def stop_point_ok_def)
  then show ?thesis unfolding stop_inv_def s .
qed

lemma workers_done_upd [simp]:
  "workers_done (a\<lparr>a_eventChan := q\<rparr>) = workers_done a" "workers_done (a\<lparr>a_buffer := b\<rparr>) = workers_done a"
  "workers_done (a\<lparr>a_lastFlush := x\<rparr>) = workers_done a" "workers_done (a\<lparr>a_stopped := y\<rparr>) = workers_done a"
  "workers_done (a\<lparr>a_cancelled := y\<rparr>) = workers_done a" "workers_done (a\<lparr>a_chan_closed := y\<rparr>) = workers_done a"
  by (simp_all add: workers_done_def)

lemma agg_step_stop_inv:
  assumes "agg_step act a = Some a'" and wf: "agg_wf a" and inv: "stop_inv a"
  shows "stop_inv a'"
  using assms(1)
proof (cases rule: agg_step_cases)
  case submit
  with inv show ?thesis by (simp add: stop_inv_def stop_point_ok_def stopper_def workers_done_def)
next
  case (stop_begin i now)
  then have "i = Suc (a_workers a)" using wf by (simp add: agg_wf_def)
  with stop_begin inv show ?thesis unfolding stop_begin(5) step_defs
    by (intro stop_inv_set [OF wf inv]) (auto simp: stop_inv_def stop_point_ok_def stopper_def)
next
  case (stop_cancel i now)
  then have "i = Suc (a_workers a)" using agg_wfD [OF wf stop_cancel(2)] by simp
  with stop_cancel inv show ?thesis unfolding stop_cancel(4) step_defs
    by (intro stop_inv_set [OF wf inv]) (auto simp: stop_inv_def stop_point_ok_def stopper_def)
next
  case (stop_join i now)
  then have "i = Suc (a_workers a)" using agg_wfD [OF wf stop_join(2)] by simp
  moreover have "workers_done a"
    unfolding workers_done_def
  proof (intro allI impI)
    fix j assume "j \<le> a_workers a"
    with wf have "a_threads a ! j \<in> set (take (Suc (a_workers a)) (a_threads a))"
      by (auto simp: agg_wf_def in_set_conv_nth intro!: exI [of _ j])
    with stop_join(4) show "a_threads a ! j = TDone" by blast
  qed
  ultimately show ?thesis using stop_join inv unfolding stop_join(5)
    by (intro stop_inv_set [OF wf inv]) (auto simp: stop_inv_def stop_point_ok_def stopper_def)
next
  case (stop_close i now)
  then have "i = Suc (a_workers a)" using agg_wfD [OF wf stop_close(2)] by simp
  with stop_close inv show ?thesis unfolding stop_close(4) step_defs
    by (intro stop_inv_set [OF wf inv]) (auto simp: stop_inv_def stop_point_ok_def stopper_def)
next
  case (store i now e)
  then show ?thesis using agg_wfD [OF wf store(2)] unfolding store(4) step_defs
    by (intro stop_inv_set [OF wf inv]) auto
next
  case (count_ev i now e f)
  then show ?thesis using agg_wfD [OF wf count_ev(2)] unfolding count_ev(4) step_defs
    by (auto intro!: stop_inv_set [OF wf inv])
next
  case (swap_empty i now)
  then show ?thesis using inv unfolding swap_empty(5)
    by (intro stop_inv_set [OF wf inv]) (auto simp: stop_inv_def stop_point_ok_def stopper_def after_flush_def)
next
  case (swap i now)
  then show ?thesis using inv unfolding swap(5)
    by (intro stop_inv_set [OF wf inv]) (auto simp: stop_inv_def stop_point_ok_def stopper_def)
next
  case (handle i now evs k err)
  then show ?thesis using inv unfolding handle(6)
    by (intro stop_inv_set [OF wf inv]) (auto simp: stop_inv_def stop_point_ok_def stopper_def)
next
  case (flushed i now evs)
  then show ?thesis using inv unfolding flushed(4) step_defs
    by (intro stop_inv_set [OF wf inv]) (auto simp: stop_inv_def stop_point_ok_def stopper_def after_flush_def)
qed (auto intro!: stop_inv_set [OF wf inv])

lemma started_wf: "agg_wf (started hs w b)"
  by (simp add: agg_wf_def nth_append del: replicate_Suc)

lemma started_stop_inv: "stop_inv (started hs w b)"
  by (simp add: stop_inv_def stop_point_ok_def stopper_def del: replicate_Suc)

lemma agg_run_inv:
  assumes "agg_run (started hs w b) acc calls a"
  shows "agg_wf a \<and> stop_inv a \<and> a_handlers a = hs \<and> a_workers a = w \<and> a_bufferSize a = b"
  using assms
proof (induction "started hs w b" acc calls a rule: agg_run.induct)
  case agg_init
  show ?case by (simp add: started_wf started_stop_inv)
next
  case (agg_next acc calls a act a')
  then show ?case using agg_step_wf agg_step_stop_inv agg_step_params by metis
qed

section \<open>Conservation of events\<close>

text \<open>Events that handler \<open>k\<close> has not been given yet but a goroutine holds.\<close>

fun held :: "nat \<Rightarrow> thread \<Rightarrow> ResultEvent multiset" where
  "held k (TGot e) = {#e#}"
| "held k (THandle evs j) = (if j \<le> k then mset evs else {#})"
| "held k _ = {#}"

definition given :: "nat \<Rightarrow> (nat \<times> ResultEvent list) list \<Rightarrow> ResultEvent list" where
  "given k calls = concat (map snd (filter (\<lambda>c. fst c = k) calls))"

definition pending :: "nat \<Rightarrow> Aggregator \<Rightarrow> ResultEvent multiset" where
  "pending k a = mset (a_eventChan a) + mset (a_buffer a) + (\<Sum>t\<in>#mset (a_threads a). held k t)"

lemma given_append [simp]: "given k (xs @ ys) = given k xs @ given k ys"
  by (simp add: given_def)

lemma pending_set:
  "i < length (a_threads a) \<Longrightarrow>
    pending k (set_thread i t a) + held k (a_threads a ! i) = pending k a + held k t"
  using sum_mset_list_update [of i "a_threads a" "held k" t] by (simp add: pending_def ac_simps)

lemma pending_set_empty:
  "i < length (a_threads a) \<Longrightarrow> held k (a_threads a ! i) = {#}
    \<Longrightarrow> pending k (set_thread i t a) = pending k a + held k t"
  using pending_set [of i a k t] by simp

lemma updateStats_fields [simp]:
  "a_threads (updateStats e a) = a_threads a" "a_eventChan (updateStats e a) = a_eventChan a"
  "a_buffer (updateStats e a) = a_buffer a"
  by (simp_all add: updateStats_def Let_def)

lemma pending_upd [simp]:
  "pending k (a\<lparr>a_lastFlush := x\<rparr>) = pending k a" "pending k (a\<lparr>a_stopped := y\<rparr>) = pending k a"
  "pending k (a\<lparr>a_cancelled := y\<rparr>) = pending k a" "pending k (a\<lparr>a_chan_closed := y\<rparr>) = pending k a"
  "pending k (updateStats e a) = pending k a"
  by (simp_all add: pending_def updateStats_def Let_def)

lemma held_after_flush [simp]: "held k (after_flush i a) = {#}"
  by (simp add: after_flush_def)

lemma pending_step:
  assumes "agg_step act a = Some a'" "agg_wf a" "k < length (a_handlers a)"
  shows "pending k a' + mset (given k (calls_by act a)) = pending k a + mset (accepted_by act a)"
  using assms(1)
proof (cases rule: agg_step_cases)
  case submit
  then show ?thesis by (simp add: pending_def calls_by_def given_def)
next
  case (store i now e)
  have "pending k a' + held k (TGot e) = pending k (a\<lparr>a_buffer := a_buffer a @ [e]\<rparr>) + {#}"
    using pending_set [of i "a\<lparr>a_buffer := a_buffer a @ [e]\<rparr>" k] store
    by (simp add: processEvent_store_def Let_def)
  then show ?thesis using store by (simp add: pending_def calls_by_def accepted_by_def given_def)
next
  case (handle i now evs j err)
  then show ?thesis using pending_set [of i a k "THandle evs (Suc j)"]
    by (cases j k rule: linorder_cases) (simp_all add: calls_by_def accepted_by_def given_def)
next
  case (stop_begin i now)
  then have "i = Suc (a_workers a)" using assms(2) by (simp add: agg_wf_def)
  with stop_begin show ?thesis
    by (simp add: pending_set_empty calls_by_def accepted_by_def given_def Stop_begin_def)
next
  case (stop_cancel i now)
  with agg_wfD [OF assms(2) stop_cancel(2)] show ?thesis
    by (simp add: pending_set_empty calls_by_def accepted_by_def given_def Stop_cancel_def)
next
  case (stop_join i now)
  with agg_wfD [OF assms(2) stop_join(2)] show ?thesis
    by (simp add: pending_set_empty calls_by_def accepted_by_def given_def)
next
  case (stop_close i now)
  with agg_wfD [OF assms(2) stop_close(2)] show ?thesis
    by (simp add: pending_set_empty calls_by_def accepted_by_def given_def Stop_close_def)
next
  case (receive i now e q)
  then show ?thesis by (simp add: pending_set_empty calls_by_def accepted_by_def given_def) (simp add: pending_def)
next
  case (swap i now)
  then show ?thesis by (simp add: pending_set_empty calls_by_def accepted_by_def given_def) (simp add: pending_def)
next
  case (count_ev i now e f)
  then show ?thesis
    by (simp add: pending_set_empty calls_by_def accepted_by_def given_def processEvent_count_def
        updateStats_def Let_def) (simp add: pending_def)
next
  case (flushed i now evs)
  then show ?thesis using assms(3)
    by (simp add: pending_set_empty calls_by_def accepted_by_def given_def flush_done_def)
qed (simp_all add: pending_set_empty calls_by_def accepted_by_def given_def)

lemma pending_run:
  assumes "agg_run (started hs w b) acc calls a" "k < length hs"
  shows "mset acc = mset (given k calls) + pending k a"
  using assms
proof (induction "started hs w b" acc calls a rule: agg_run.induct)
  case agg_init
  have "(\<Sum>t\<in>#replicate_mset n TIdle. held k t) = {#}" for n by (induction n) simp_all
  then show ?case by (simp add: pending_def given_def mset_replicate del: replicate_Suc replicate_mset_Suc)
next
  case (agg_next acc calls a act a')
  have "pending k a' + mset (given k (calls_by act a)) = pending k a + mset (accepted_by act a)"
    using agg_run_inv [OF agg_next(1)] agg_next(3,4) by (intro pending_step) auto
  with agg_next(2) [OF agg_next(4)] show ?case by (simp add: ac_simps)
qed

lemma all_done:
  assumes "agg_wf a" "stop_inv a" "stopper a = TDone"
  shows "set (a_threads a) = {TDone}"
proof -
  have "a_threads a ! i = TDone" if "i < length (a_threads a)" for i
    using that assms by (cases "i = Suc (a_workers a)")
      (auto simp: stop_inv_def stop_point_ok_def workers_done_def agg_wf_def stopper_def)
  then have "set (a_threads a) \<subseteq> {TDone}" by (auto simp: in_set_conv_nth)
  moreover have "a_threads a \<noteq> []" using assms(1) by (auto simp: agg_wf_def)
  ultimately show ?thesis by (metis set_empty subset_singletonD)
qed

lemma pending_stopped:
  assumes "agg_wf a" "stop_inv a" "stopper a = TDone"
  shows "pending k a = mset (a_eventChan a)"
proof -
  have "(\<Sum>t\<in>#mset (a_threads a). held k t) = (\<Sum>t\<in>#mset (a_threads a). {#})"
    using all_done [OF assms] by (intro arg_cong [of _ _ sum_mset] image_mset_cong) auto
  then show ?thesis using assms(2,3) by (simp add: pending_def stop_inv_def stop_point_ok_def)
qed

text \<open>C4: Whatever the interleaving, every accepted event is at any moment exactly once in one place
  for each handler: in a completed call of that handler, in the channel, in the buffer, or with a
  goroutine that is on its way to it. Once \<open>Stop\<close> has returned, the accepted events a handler was
  not given are exactly those still in the channel.\<close>

theorem aggregator_delivers:
  assumes "agg_run (started hs w b) acc calls a" "k < length hs"
  shows "mset acc = mset (given k calls) + mset (a_eventChan a) + mset (a_buffer a)
           + (\<Sum>t\<in>#mset (a_threads a). held k t)
    \<and> (stopper a = TDone \<longrightarrow> mset acc = mset (given k calls) + mset (a_eventChan a))"
  using pending_run [OF assms] pending_stopped [of a k] agg_run_inv [OF assms(1)]
  by (simp add: pending_def ac_simps)

theorem aggregator_delivers_witness:
  "\<exists>acc calls a. agg_run (started [LogHandler_HandleResult] 1 2) acc calls a \<and> length acc = 1
     \<and> stopper a = TDone \<and> mset acc = mset (given 0 calls) + mset (a_eventChan a)"
proof -
  have "case agg_exec sample_schedule ([], [], started [LogHandler_HandleResult] 1 2) of None \<Rightarrow> False
      | Some (acc, calls, a) \<Rightarrow> length acc = 1 \<and> is_Done (stopper a)" by code_simp
  then obtain acc calls a where r: "agg_run (started [LogHandler_HandleResult] 1 2) acc calls a"
      "length acc = 1 \<and> is_Done (stopper a)" by (rule agg_exec_witness)
  with aggregator_delivers [OF r(1), of 0] show ?thesis by auto
qed

section \<open>Statistics\<close>

fun uncounted :: "thread \<Rightarrow> ResultEvent multiset" where
  "uncounted (TGot e) = {#e#}"
| "uncounted (TStored e f) = {#e#}"
| "uncounted _ = {#}"

definition not_counted :: "Aggregator \<Rightarrow> ResultEvent multiset" where
  "not_counted a = mset (a_eventChan a) + (\<Sum>t\<in>#mset (a_threads a). uncounted t)"

lemma not_counted_set:
  "i < length (a_threads a) \<Longrightarrow>
    not_counted (set_thread i t a) + uncounted (a_threads a ! i) = not_counted a + uncounted t"
  using sum_mset_list_update [of i "a_threads a" uncounted t] by (simp add: not_counted_def ac_simps)

lemma not_counted_same:
  "i < length (a_threads a) \<Longrightarrow> uncounted (a_threads a ! i) = {#}
    \<Longrightarrow> not_counted (set_thread i t a) = not_counted a + uncounted t"
  using not_counted_set [of i a t] by simp

lemma not_counted_upd [simp]:
  "not_counted (a\<lparr>a_lastFlush := x\<rparr>) = not_counted a" "not_counted (a\<lparr>a_stopped := y\<rparr>) = not_counted a"
  "not_counted (a\<lparr>a_cancelled := y\<rparr>) = not_counted a" "not_counted (a\<lparr>a_chan_closed := y\<rparr>) = not_counted a"
  "not_counted (a\<lparr>a_buffer := z\<rparr>) = not_counted a" "not_counted (updateStats e a) = not_counted a"
  by (simp_all add: not_counted_def updateStats_def Let_def)

lemma uncounted_after_flush [simp]: "uncounted (after_flush i a) = {#}"
  by (simp add: after_flush_def)

definition counted_inv :: "ResultEvent multiset \<Rightarrow> Aggregator \<Rightarrow> bool" where
  "counted_inv C a \<longleftrightarrow> a_totalEvents a = size C
     \<and> a_successEvents a = size (filter_mset e_Success C)
     \<and> a_failedEvents a = size (filter_mset (\<lambda>e. \<not> e_Success e) C)"

definition counts_step :: "Aggregator \<Rightarrow> ResultEvent multiset \<Rightarrow> Aggregator \<Rightarrow> bool" where
  "counts_step a new a' \<longleftrightarrow> (\<exists>D. not_counted a' + D = not_counted a + new
     \<and> (\<forall>C. counted_inv C a \<longrightarrow> counted_inv (C + D) a'))"

lemma counts_stepI:
  "not_counted a' = not_counted a + new \<Longrightarrow> a_totalEvents a' = a_totalEvents a
   \<Longrightarrow> a_successEvents a' = a_successEvents a \<Longrightarrow> a_failedEvents a' = a_failedEvents a
   \<Longrightarrow> counts_step a new a'"
  unfolding counts_step_def by (intro exI [of _ "{#}"]) (simp add: counted_inv_def)

lemma agg_step_counts:
  assumes "agg_step act a = Some a'" "agg_wf a"
  shows "counts_step a (mset (accepted_by act a)) a'"
  using assms(1)
proof (cases rule: agg_step_cases)
  case submit
  then show ?thesis by (intro counts_stepI) (simp_all add: not_counted_def)
next
  case (count_ev i now e f)
  have "not_counted a' + {#e#} = not_counted a"
    using not_counted_set [of i "updateStats e a" "if f then TFlush else TIdle"] count_ev
    by (simp add: processEvent_count_def split: if_splits)
  moreover have "counted_inv (C + {#e#}) a'" if "counted_inv C a" for C
    using that count_ev by (simp add: counted_inv_def processEvent_count_def updateStats_def Let_def)
  ultimately show ?thesis using count_ev(1) unfolding counts_step_def
    by (intro exI [of _ "{#e#}"]) (simp add: accepted_by_def)
next
  case (store i now e)
  have "not_counted a' + uncounted (TGot e) = not_counted a + {#e#}"
    using not_counted_set [of i "a\<lparr>a_buffer := a_buffer a @ [e]\<rparr>"] store
    by (simp add: processEvent_store_def Let_def)
  then show ?thesis using store
    by (intro counts_stepI) (simp_all add: accepted_by_def processEvent_store_def Let_def)
next
  case (stop_begin i now)
  then have "i = Suc (a_workers a)" using assms(2) by (simp add: agg_wf_def)
  with stop_begin show ?thesis
    by (intro counts_stepI) (simp_all add: not_counted_same accepted_by_def Stop_begin_def)
next
  case (stop_cancel i now)
  with agg_wfD [OF assms(2) stop_cancel(2)] show ?thesis
    by (intro counts_stepI) (simp_all add: not_counted_same accepted_by_def Stop_cancel_def)
next
  case (stop_join i now)
  with agg_wfD [OF assms(2) stop_join(2)] show ?thesis
    by (intro counts_stepI) (simp_all add: not_counted_same accepted_by_def)
next
  case (stop_close i now)
  with agg_wfD [OF assms(2) stop_close(2)] show ?thesis
    by (intro counts_stepI) (simp_all add: not_counted_same accepted_by_def Stop_close_def)
next
  case (receive i now e q)
  then have "not_counted a' = not_counted (a\<lparr>a_eventChan := q\<rparr>) + {#e#}"
    by (simp add: not_counted_same)
  with receive show ?thesis
    by (intro counts_stepI) (simp_all add: not_counted_def accepted_by_def)
qed (intro counts_stepI; simp add: not_counted_same accepted_by_def flush_done_def)+

text \<open>The statistics agree with the events: total is successes plus failures, and the events
  not counted yet are the ones in the channel and those workers are processing.\<close>

theorem aggregator_stats:
  assumes "agg_run (started hs w b) acc calls a"
  shows "as_TotalEvents (Aggregator_GetStats a)
           = as_SuccessEvents (Aggregator_GetStats a) + as_FailedEvents (Aggregator_GetStats a)
    \<and> as_TotalEvents (Aggregator_GetStats a) + size (not_counted a) = length acc
    \<and> as_SuccessEvents (Aggregator_GetStats a) + size (filter_mset e_Success (not_counted a)) = countSuccessEvents acc"
proof -
  have "\<exists>C. mset acc = C + not_counted a \<and> counted_inv C a"
    using assms
  proof (induction "started hs w b" acc calls a rule: agg_run.induct)
    case agg_init
    have "(\<Sum>t\<in>#replicate_mset n TIdle. uncounted t) = {#}" for n by (induction n) simp_all
    then show ?case
      by (simp add: not_counted_def counted_inv_def mset_replicate del: replicate_Suc replicate_mset_Suc)
  next
    case (agg_next acc calls a act a')
    then obtain C where C: "mset acc = C + not_counted a" "counted_inv C a" by blast
    obtain D where "not_counted a' + D = not_counted a + mset (accepted_by act a)" "counted_inv (C + D) a'"
      using agg_step_counts [OF agg_next(3)] agg_run_inv [OF agg_next(1)] C(2)
      unfolding counts_step_def by blast
    with C(1) show ?case by (intro exI [of _ "C + D"]) (simp add: ac_simps)
  qed
  then obtain C where C: "mset acc = C + not_counted a" "counted_inv C a" by blast
  have s: "countSuccessEvents es = size (filter_mset e_Success (mset es))" for es
    by (induction es) simp_all
  have "size (filter_mset e_Success C) + size (filter_mset (\<lambda>e. \<not> e_Success e) C) = size C"
    by (metis multiset_partition size_union)
  with C show ?thesis
    by (simp add: Aggregator_GetStats_def counted_inv_def s flip: size_mset)
qed

theorem aggregator_stats_witness:
  "\<exists>acc calls a. agg_run (started [LogHandler_HandleResult] 1 2) acc calls a \<and> length acc = 1
     \<and> as_TotalEvents (Aggregator_GetStats a) + size (not_counted a) = 1"
proof -
  have "case agg_exec sample_schedule ([], [], started [LogHandler_HandleResult] 1 2) of None \<Rightarrow> False
      | Some (acc, calls, a) \<Rightarrow> length acc = 1" by code_simp
  then obtain acc calls a where r: "agg_run (started [LogHandler_HandleResult] 1 2) acc calls a"
      "length acc = 1" by (rule agg_exec_witness)
  with aggregator_stats [OF r(1)] show ?thesis by auto
qed

section \<open>Bounds\<close>

text \<open>Threads that will swap the buffer before they do anything else with it.\<close>

fun flushing :: "thread \<Rightarrow> nat" where
  "flushing (TStored e f) = (if f then 1 else 0)"
| "flushing TFlush = 1"
| "flushing _ = 0"

definition flushers :: "Aggregator \<Rightarrow> nat" where
  "flushers a = (\<Sum>t\<in>#mset (a_threads a). flushing t)"

lemma flushers_set:
  "i < length (a_threads a) \<Longrightarrow>
    flushers (set_thread i t a) + flushing (a_threads a ! i) = flushers a + flushing t"
  using sum_mset_list_update [of i "a_threads a" flushing t] by (simp add: flushers_def)

lemma flushers_upd [simp]:
  "flushers (a\<lparr>a_lastFlush := x\<rparr>) = flushers a" "flushers (a\<lparr>a_stopped := y\<rparr>) = flushers a"
  "flushers (a\<lparr>a_cancelled := y\<rparr>) = flushers a" "flushers (a\<lparr>a_chan_closed := y\<rparr>) = flushers a"
  "flushers (a\<lparr>a_buffer := z\<rparr>) = flushers a" "flushers (a\<lparr>a_eventChan := z\<rparr>) = flushers a"
  "flushers (updateStats e a) = flushers a" "flushers (snd (Submit p e a)) = flushers a"
  by (simp_all add: flushers_def updateStats_def Let_def)

lemma flushers_bound:
  assumes "agg_wf a" "stop_inv a"
  shows "flushers a \<le> Suc (a_workers a)"
proof -
  let ?f = "\<lambda>i. flushing (a_threads a ! i)"
  have le: "?f i \<le> 1" for i by (cases "a_threads a ! i") simp_all
  have "flushers a = sum_list (map flushing (a_threads a))"
    by (simp add: flushers_def sum_mset_sum_list flip: mset_map)
  also have "\<dots> = (\<Sum>i<a_workers a + 2. ?f i)"
    using assms(1) by (simp add: sum_list_sum_nth agg_wf_def atLeast0LessThan)
  also have "\<dots> = (\<Sum>i<Suc (a_workers a). ?f i) + flushing (stopper a)"
    by (simp add: stopper_def)
  also have "\<dots> \<le> Suc (a_workers a)"
  proof (cases "workers_done a")
    case True
    then have "(\<Sum>i<Suc (a_workers a). ?f i) = 0" by (auto simp: workers_done_def)
    then show ?thesis using le [of "Suc (a_workers a)"] by (simp add: stopper_def)
  next
    case False
    then have "stopper a \<in> {TIdle, TStopping, TWaiting}"
      using assms(2) by (auto simp: stop_inv_def stop_point_ok_def)
    then have "flushing (stopper a) = 0" by auto
    moreover have "(\<Sum>i<Suc (a_workers a). ?f i) \<le> (\<Sum>i<Suc (a_workers a). 1)"
      by (intro sum_mono le)
    ultimately show ?thesis by simp
  qed
  finally show ?thesis .
qed

definition buffer_inv :: "Aggregator \<Rightarrow> bool" where
  "buffer_inv a \<longleftrightarrow> length (a_buffer a) < a_bufferSize a + flushers a
     \<and> length (a_eventChan a) \<le> chan_cap a"

lemma agg_step_buffer:
  assumes "agg_step act a = Some a'" "agg_wf a" "buffer_inv a" "0 < a_bufferSize a"
  shows "buffer_inv a'"
  using assms(1)
proof (cases rule: agg_step_cases)
  case submit
  with assms(3) show ?thesis by (auto simp: buffer_inv_def accepted_by_def Submit_def chan_cap_def)
next
  case (store i now e)
  let ?f = "a_bufferSize a \<le> Suc (length (a_buffer a))"
  have "flushers a' = flushers a + flushing (TStored e ?f)"
    using flushers_set [of i "a\<lparr>a_buffer := a_buffer a @ [e]\<rparr>"] store
    by (simp add: processEvent_store_def)
  then show ?thesis using store assms(3) by (auto simp: buffer_inv_def processEvent_store_def chan_cap_def)
next
  case (count_ev i now e f)
  have "flushers a' = flushers a"
    using flushers_set [of i "updateStats e a" "if f then TFlush else TIdle"] count_ev
    by (cases f) (simp_all add: processEvent_count_def)
  then show ?thesis using count_ev assms(3)
    by (auto simp: buffer_inv_def processEvent_count_def chan_cap_def updateStats_def Let_def)
next
  case (stop_begin i now)
  then have "i = Suc (a_workers a)" using assms(2) by (simp add: agg_wf_def)
  with stop_begin have "flushers a' = flushers a"
    using flushers_set [of i "a\<lparr>a_stopped := True\<rparr>"] by (simp add: Stop_begin_def)
  with stop_begin assms(3) show ?thesis by (simp add: buffer_inv_def Stop_begin_def chan_cap_def)
next
  case (stop_cancel i now)
  with agg_wfD [OF assms(2) stop_cancel(2)] have "flushers a' = flushers a"
    using flushers_set [of i "a\<lparr>a_cancelled := True\<rparr>"] by (simp add: Stop_cancel_def)
  with stop_cancel assms(3) show ?thesis by (simp add: buffer_inv_def Stop_cancel_def chan_cap_def)
next
  case (stop_join i now)
  with agg_wfD [OF assms(2) stop_join(2)] have "flushers a \<le> flushers a'"
    using flushers_set [of i a TFlush] by simp
  with stop_join assms(3) show ?thesis by (simp add: buffer_inv_def chan_cap_def)
next
  case (stop_close i now)
  with agg_wfD [OF assms(2) stop_close(2)] have "flushers a' = flushers a"
    using flushers_set [of i "a\<lparr>a_chan_closed := True\<rparr>"] by (simp add: Stop_close_def)
  with stop_close assms(3) show ?thesis by (simp add: buffer_inv_def Stop_close_def chan_cap_def)
next
  case (flushed i now evs)
  have "flushers a' = flushers a"
    using flushers_set [of i "a\<lparr>a_lastFlush := now\<rparr>" "after_flush i a"] flushed
    by (simp add: flush_done_def after_flush_def split: if_splits)
  with flushed assms(3) show ?thesis by (simp add: buffer_inv_def flush_done_def chan_cap_def)
next
  case (receive i now e q)
  have "flushers a' = flushers a"
    using flushers_set [of i "a\<lparr>a_eventChan := q\<rparr>"] receive by simp
  with receive assms(3) show ?thesis by (simp add: buffer_inv_def chan_cap_def)
next
  case (handle i now evs j err)
  have "flushers a' = flushers a" using flushers_set [of i a] handle by simp
  with handle assms(3) show ?thesis by (simp add: buffer_inv_def chan_cap_def)
next
  case (closed i now)
  have "flushers a' = flushers a" using flushers_set [of i a] closed by simp
  with closed assms(3) show ?thesis by (simp add: buffer_inv_def chan_cap_def)
next
  case (stop i)
  have "flushers a' = flushers a" using flushers_set [of i a] stop by simp
  with stop assms(3) show ?thesis by (simp add: buffer_inv_def chan_cap_def)
next
  case (timer i now)
  have "flushers a \<le> flushers a'" using flushers_set [of i a TFlush] timer by simp
  with timer assms(3) show ?thesis by (simp add: buffer_inv_def chan_cap_def)
qed (use assms(3,4) in \<open>auto simp: buffer_inv_def chan_cap_def\<close>)

text \<open>With a positive buffer size the channel never holds more than 200 events per worker, the
  buffer and every batch given to a handler never more than the buffer size plus the number of
  workers, and no handler is ever called with an empty batch.\<close>

theorem aggregator_bounds:
  assumes "agg_run (started hs w b) acc calls a" "0 < b"
  shows "length (a_eventChan a) \<le> 200 * w \<and> length (a_buffer a) \<le> b + w
    \<and> (\<forall>(k, evs)\<in>set calls. evs \<noteq> [] \<and> length evs \<le> b + w)"
proof -
  let ?batch = "\<lambda>evs. evs \<noteq> [] \<and> length evs \<le> b + w"
  have B: "length (a_buffer a) \<le> b + w" if "agg_run (started hs w b) acc calls a" "buffer_inv a" for acc calls a
    using that(2) flushers_bound [of a] agg_run_inv [OF that(1)] by (auto simp: buffer_inv_def)
  have "buffer_inv a \<and> (\<forall>i<length (a_threads a). \<forall>evs k. a_threads a ! i = THandle evs k \<longrightarrow> ?batch evs)
      \<and> (\<forall>(k, evs)\<in>set calls. ?batch evs)"
    using assms(1)
  proof (induction "started hs w b" acc calls a rule: agg_run.induct)
    case agg_init
    have "a_threads (started hs w b) ! i = TIdle" if "i < w + 2" for i
      using that by (simp del: replicate_Suc)
    then show ?case using assms(2) by (auto simp: buffer_inv_def chan_cap_def)
  next
    case (agg_next acc calls a act a')
    note inv = agg_run_inv [OF agg_next(1)]
    have c: "\<forall>(k, evs)\<in>set (calls_by act a). ?batch evs"
      using agg_next(2,3) by (auto simp: calls_by_def agg_step_def thread_step_def split: action.splits thread.splits if_splits)
    have l: "Suc (a_workers a) < length (a_threads a)" using inv by (simp add: agg_wf_def)
    have t: "?batch evs" if "j < length (a_threads a')" "a_threads a' ! j = THandle evs k" for j evs k
      using agg_next(3) that agg_next(2) B [OF agg_next(1)] inv l
      by (cases rule: agg_step_cases)
        (auto simp: nth_list_update step_defs after_flush_def split: if_splits)
    show ?case using agg_step_buffer [OF agg_next(3)] agg_next(2) inv assms(2) c t by auto
  qed
  then show ?thesis using B [OF assms(1)] agg_run_inv [OF assms(1)] by (auto simp: buffer_inv_def chan_cap_def)
qed

theorem aggregator_bounds_witness:
  "\<exists>acc calls a. agg_run (started [LogHandler_HandleResult] 1 2) acc calls a \<and> length acc = 1
     \<and> length (a_buffer a) \<le> 3"
proof -
  have "case agg_exec sample_schedule ([], [], started [LogHandler_HandleResult] 1 2) of None \<Rightarrow> False
      | Some (acc, calls, a) \<Rightarrow> length acc = 1" by code_simp
  then obtain acc calls a where r: "agg_run (started [LogHandler_HandleResult] 1 2) acc calls a"
      "length acc = 1" by (rule agg_exec_witness)
  with aggregator_bounds [OF r(1)] show ?thesis by auto
qed

section \<open>Handlers that return\<close>

text \<open>What the aggregator needs of its handlers: every call returns. Then \<open>Stop\<close> can always run to
  its end without a further submission, along a run on which the weights below go down.\<close>

fun thread_weight :: "nat \<Rightarrow> thread \<Rightarrow> nat" where
  "thread_weight n TDone = 0"
| "thread_weight n TIdle = 1"
| "thread_weight n TClosing = 1"
| "thread_weight n (THandle evs k) = 2 + (n - k)"
| "thread_weight n TFlush = n + 3"
| "thread_weight n (TStored e f) = n + 4"
| "thread_weight n (TGot e) = n + 5"
| "thread_weight n TWaiting = n + 4"
| "thread_weight n TStopping = n + 5"

definition weight :: "Aggregator \<Rightarrow> nat" where
  "weight a = (\<Sum>t\<in>#mset (a_threads a). thread_weight (length (a_handlers a)) t)"

lemma weight_set:
  "i < length (a_threads a) \<Longrightarrow> thread_weight (length (a_handlers a)) t < thread_weight (length (a_handlers a)) (a_threads a ! i)
    \<Longrightarrow> weight (set_thread i t a) < weight a"
  using sum_mset_list_update [of i "a_threads a" "thread_weight (length (a_handlers a))" t]
  by (simp add: weight_def)

lemma weight_upd [simp]:
  "weight (a\<lparr>a_lastFlush := x\<rparr>) = weight a" "weight (a\<lparr>a_cancelled := y\<rparr>) = weight a"
  "weight (a\<lparr>a_chan_closed := y\<rparr>) = weight a" "weight (a\<lparr>a_buffer := z\<rparr>) = weight a"
  "weight (updateStats e a) = weight a"
  by (simp_all add: weight_def updateStats_def Let_def)

lemma stopped_kept: "agg_step act a = Some a' \<Longrightarrow> a_stopped a \<Longrightarrow> a_stopped a'"
  by (elim agg_step_cases; hypsubst; simp add: step_defs)

locale returning_handlers =
  fixes hs :: "handler list"
  assumes returns: "h \<in> set hs \<Longrightarrow> h evs \<noteq> Blocked"
begin

lemma handler_step:
  assumes "a_handlers a = hs" "i < length (a_threads a)" "a_threads a ! i = THandle evs k"
    "k \<le> length hs"
  shows "\<exists>a'. agg_step (Step i 0) a = Some a' \<and> weight a' < weight a"
proof (cases "k = length hs")
  case True
  then show ?thesis using assms weight_set [of i "a\<lparr>a_lastFlush := 0\<rparr>" "after_flush i a"]
    by (auto simp: agg_step_def thread_step_def flush_done_def after_flush_def)
next
  case False
  with assms(4) have k: "k < length hs" by simp
  obtain err where "(hs ! k) evs = Returned err"
    using returns [of "hs ! k" evs] k by (cases "(hs ! k) evs") auto
  then show ?thesis using assms k weight_set [of i a "THandle evs (Suc k)"]
    by (auto simp: agg_step_def thread_step_def handleEvents_next_def)
qed

lemma worker_moves:
  assumes "a_handlers a = hs" "agg_wf a" "a_stopped a" "i \<le> a_workers a" "a_threads a ! i \<noteq> TDone"
  shows "\<exists>act a'. agg_step act a = Some a' \<and> accepted_by act a = [] \<and> weight a' < weight a"
proof -
  have i: "i < length (a_threads a)" using assms(2,4) by (simp add: agg_wf_def)
  note ok = agg_wfD [OF assms(2) i]
  show ?thesis
  proof (cases "a_threads a ! i")
    case TIdle
    then show ?thesis using assms(3,4) i weight_set [of i a TDone]
      by (intro exI [of _ "Select_stop i"]) (simp add: agg_step_def see_stop_def accepted_by_def)
  next
    case (THandle evs k)
    then show ?thesis using handler_step [OF assms(1) i THandle] ok assms(1)
      by (intro exI [of _ "Step i 0"]) (auto simp: accepted_by_def)
  next
    case (TGot e)
    then show ?thesis using i weight_set [of i "a\<lparr>a_buffer := a_buffer a @ [e]\<rparr>"]
      by (intro exI [of _ "Step i 0"])
        (simp add: agg_step_def thread_step_def processEvent_store_def Let_def accepted_by_def)
  next
    case (TStored e f)
    have "a_handlers (updateStats e a) = a_handlers a" by (simp add: updateStats_def Let_def)
    then show ?thesis using TStored i weight_set [of i "updateStats e a" "if f then TFlush else TIdle"]
      by (intro exI [of _ "Step i 0"])
        (simp add: agg_step_def thread_step_def processEvent_count_def accepted_by_def)
  next
    case TFlush
    then show ?thesis using i weight_set [of i a "after_flush i a"]
        weight_set [of i "a\<lparr>a_buffer := []\<rparr>" "THandle (a_buffer a) 0"]
      by (intro exI [of _ "Step i 0"])
        (simp add: agg_step_def thread_step_def flush_swap_def accepted_by_def after_flush_def)
  qed (use assms(4,5) ok in auto)
qed

lemma stopper_moves:
  assumes "a_handlers a = hs" "agg_wf a" "stop_inv a" "a_stopped a" "workers_done a" "stopper a \<noteq> TDone"
  shows "\<exists>act a'. agg_step act a = Some a' \<and> accepted_by act a = [] \<and> weight a' < weight a"
proof -
  let ?i = "Suc (a_workers a)"
  have i: "?i < length (a_threads a)" using assms(2) by (simp add: agg_wf_def)
  have s: "a_threads a ! ?i = stopper a" by (simp add: stopper_def)
  note ok = agg_wfD [OF assms(2) i]
  have "\<exists>a'. agg_step (Step ?i 0) a = Some a' \<and> weight a' < weight a"
  proof (cases "stopper a")
    case TFlush
    then show ?thesis using i s weight_set [of ?i a TClosing]
        weight_set [of ?i "a\<lparr>a_buffer := []\<rparr>" "THandle (a_buffer a) 0"]
      by (simp add: agg_step_def thread_step_def flush_swap_def after_flush_def)
  next
    case (THandle evs k)
    then show ?thesis using handler_step [OF assms(1) i] ok s assms(1) by auto
  next
    case TStopping
    then show ?thesis using i s weight_set [of ?i "a\<lparr>a_cancelled := True\<rparr>" TWaiting]
      by (simp add: agg_step_def thread_step_def Stop_cancel_def)
  next
    case TWaiting
    moreover have "\<forall>t\<in>set (take ?i (a_threads a)). t = TDone"
      using assms(5) i by (auto simp: workers_done_def in_set_conv_nth)
    ultimately show ?thesis using i s weight_set [of ?i a TFlush]
      by (simp add: agg_step_def thread_step_def Stop_join_def)
  next
    case TClosing
    then show ?thesis using i s weight_set [of ?i "a\<lparr>a_chan_closed := True\<rparr>" TDone]
      by (simp add: agg_step_def thread_step_def Stop_close_def)
  next
    case TIdle
    then show ?thesis using assms(3,4) by (simp add: stop_inv_def stop_point_ok_def)
  qed (use assms(6) ok s in simp_all)
  then show ?thesis by (intro exI [of _ "Step ?i 0"]) (simp add: accepted_by_def)
qed

lemma Stop_can_finish:
  assumes "agg_run (started hs w b) acc calls a" "a_stopped a"
  shows "\<exists>calls' a'. agg_run (started hs w b) acc calls' a' \<and> stopper a' = TDone"
  using assms
proof (induction "weight a" arbitrary: calls a rule: less_induct)
  case less
  note inv = agg_run_inv [OF less(2)]
  show ?case
  proof (cases "stopper a = TDone")
    case True
    with less(2) show ?thesis by blast
  next
    case False
    have "\<exists>act a'. agg_step act a = Some a' \<and> accepted_by act a = [] \<and> weight a' < weight a"
    proof (cases "workers_done a")
      case True
      then show ?thesis using stopper_moves [of a] inv False less(3) by blast
    next
      case False
      then show ?thesis using worker_moves [of a] inv less(3) unfolding workers_done_def by blast
    qed
    then obtain act a' where s: "agg_step act a = Some a'" "accepted_by act a = []" "weight a' < weight a"
      by blast
    have "agg_run (started hs w b) acc (calls @ calls_by act a) a'"
      using agg_next [OF less(2) s(1)] s(2) by simp
    then show ?thesis using less(1) [OF s(3)] stopped_kept [OF s(1) less(3)] by blast
  qed
qed

end

text \<open>The handlers without input or output of their own.\<close>

interpretation local_handlers: returning_handlers
  "[LogHandler_HandleResult, MetricsHandler_HandleResult]"
  by unfold_locales (auto simp: LogHandler_HandleResult_def MetricsHandler_HandleResult_def)

section \<open>After Stop\<close>

text \<open>Once \<open>Stop\<close> has returned no submission is accepted, and the result is not always an
  error: whenever the runtime picks the send case, the caller panics.\<close>

theorem Submit_after_Stop:
  assumes "agg_run (started hs w b) acc calls a" "stopper a = TDone"
  shows "Submit pick e a = (if pick then SubmitPanic else ContextCancelled, a)"
  using agg_run_inv [OF assms(1)] assms(2)
  by (simp add: stop_inv_def stop_point_ok_def Submit_def)

theorem Submit_after_Stop_witness:
  "\<exists>acc calls a. agg_run (started [LogHandler_HandleResult] 1 2) acc calls a
     \<and> Submit True sample_event a = (SubmitPanic, a) \<and> Submit False sample_event a = (ContextCancelled, a)"
proof -
  have "case agg_exec sample_schedule ([], [], started [LogHandler_HandleResult] 1 2) of None \<Rightarrow> False
      | Some (acc, calls, a) \<Rightarrow> is_Done (stopper a)" by code_simp
  then obtain acc calls a where r: "agg_run (started [LogHandler_HandleResult] 1 2) acc calls a"
      "is_Done (stopper a)" by (rule agg_exec_witness)
  from Submit_after_Stop [OF r(1), of True sample_event] Submit_after_Stop [OF r(1), of False sample_event] r
  have "Submit True sample_event a = (SubmitPanic, a)" "Submit False sample_event a = (ContextCancelled, a)"
    by simp_all
  with r(1) show ?thesis by blast
qed

section \<open>The JSON handler\<close>

lemma json_blocks:
  "marshal e1 = None \<Longrightarrow> JSONFileHandler_HandleResult marshal (e1 # e2 # es) = Blocked"
  by (simp add: JSONFileHandler_HandleResult_def)

text \<open>C35: The JSON file handler returns from a batch of at most one event and blocks for ever on a
  batch of two or more whose first event can be encoded. A worker or the buffer manager that
  hands it such a batch never comes back, and \<open>Stop\<close> then never closes the channel.\<close>

theorem JSONFileHandler_deadlock:
  assumes "agg_run (started hs w b) acc calls a" "i \<le> w" "a_threads a ! i = THandle (e1 # e2 # es) k"
    "k < length hs" "hs ! k = JSONFileHandler_HandleResult marshal" "marshal e1 = None"
    "agg_run a acc' calls' a'"
  shows "a_threads a' ! i = THandle (e1 # e2 # es) k \<and> stopper a' \<noteq> TDone \<and> \<not> a_chan_closed a'"
proof -
  note inv = agg_run_inv [OF assms(1)]
  let ?t = "THandle (e1 # e2 # es) k"
  let ?P = "\<lambda>a. a_threads a ! i = ?t \<and> agg_wf a \<and> stop_inv a \<and> a_handlers a = hs \<and> a_workers a = w"
  have keep: "?P x \<Longrightarrow> ?P x'" if "agg_step act x = Some x'" for act x x'
  proof -
    assume P: "?P x"
    then have i: "i < length (a_threads x)" "i < Suc (a_workers x)" using assms(2) by (auto simp: agg_wf_def)
    have nb: "(a_handlers x ! k) (e1 # e2 # es) = Blocked"
      using P assms(5,6) by (simp add: json_blocks)
    have "a_threads x' ! i = ?t"
      using that P i nb assms(4)
      by (cases rule: agg_step_cases) (auto simp: nth_list_update step_defs split: if_splits)
    with P that show "?P x'"
      using agg_step_wf [OF that] agg_step_stop_inv [OF that] agg_step_params [OF that] by metis
  qed
  have "?P a" using assms(3) inv by simp
  then have "?P a'" using assms(7) keep by (rule agg_run_invariant)
  then have "\<not> workers_done a'" using assms(2) by (auto simp: workers_done_def)
  with \<open>?P a'\<close> show ?thesis by (auto simp: stop_inv_def stop_point_ok_def)
qed

definition json_sample :: Aggregator where
  "json_sample = started [JSONFileHandler_HandleResult (\<lambda>_. None)] 1 2"

theorem JSONFileHandler_deadlock_witness:
  "\<exists>acc calls a. agg_run json_sample acc calls a \<and> length acc = 2
     \<and> stopper a \<noteq> TDone \<and> \<not> a_chan_closed a"
proof -
  have "case agg_exec (replicate 2 (Submission True sample_event) @ replicate 7 (Step 0 0)) ([], [], json_sample)
      of None \<Rightarrow> False
      | Some (acc, calls, a) \<Rightarrow> length acc = 2 \<and> (case a_threads a ! 0 of
          THandle (e1 # e2 # es) k \<Rightarrow> k = 0 | _ \<Rightarrow> False)" by code_simp
  then obtain acc calls a where r: "agg_run json_sample acc calls a"
      "length acc = 2 \<and> (case a_threads a ! 0 of THandle (e1 # e2 # es) k \<Rightarrow> k = 0 | _ \<Rightarrow> False)"
    by (rule agg_exec_witness)
  then obtain e1 e2 es where t: "a_threads a ! 0 = THandle (e1 # e2 # es) 0"
    by (auto split: thread.splits list.splits)
  show ?thesis
    using JSONFileHandler_deadlock [OF r(1) [unfolded json_sample_def] _ t _ _ _ agg_init] r by auto
qed

end
