(* ===== verification/Ping_Proofs.thy ===== *)
theory Ping_Proofs
  imports Ping
begin

text \<open>
  Correctness of the ping task: what validation guarantees to command construction, the shape
  of every parse result, and, per platform, the loss a summary line with rate \<open>n\<close> is reported
  with. The per-platform theorems are exact, so they also pin down the rates that the
  substring tests of the parsers misread.
\<close>

section \<open>Unique occurrences\<close>

lemma Contains_TrimSpace: "Contains (TrimSpace s) p \<Longrightarrow> Contains s p"
proof -
  assume a: "Contains (TrimSpace s) p"
  let ?d = "dropWhile is_space s"
  have "?d = TrimSpace s @ rev (takeWhile is_space (rev ?d))"
    unfolding TrimSpace_def by (metis rev_append rev_rev_ident takeWhile_dropWhile_id)
  then have "Contains ?d p" using a Contains_appendI1 by metis
  moreover have "s = takeWhile is_space s @ ?d" by simp
  ultimately show ?thesis using Contains_appendI2 by metis
qed

definition rstrip :: "string \<Rightarrow> string" where
  "rstrip s = rev (dropWhile is_space (rev s))"

lemma rstrip_prefix: "\<exists>t. s = rstrip s @ t"
  unfolding rstrip_def by (metis rev_append rev_rev_ident takeWhile_dropWhile_id)

lemma dropWhile_append_nonspace:
  "w \<noteq> [] \<Longrightarrow> \<not> is_space (last w) \<Longrightarrow>
   dropWhile is_space (rev (w @ r)) = dropWhile is_space (rev r) @ rev w"
  by (cases w rule: rev_cases) (auto simp: dropWhile_append)

lemma TrimSpace_rstrip:
  assumes "w \<noteq> []" "\<not> is_space (hd w)" "\<not> is_space (last w)"
  shows "TrimSpace (w @ r) = w @ rstrip r"
proof -
  have "dropWhile is_space (w @ r) = w @ r"
    using assms by (cases w) auto
  then show ?thesis
    using assms dropWhile_append_nonspace [of w r] by (simp add: TrimSpace_def rstrip_def)
qed

text \<open>A character that occurs once splits a string in one way only.\<close>

lemma split_unique:
  assumes "a @ c # b = x @ c # y" "c \<notin> set a" "c \<notin> set b"
  shows "a = x \<and> b = y"
  using append_Cons_eq_iff [OF assms(2,3), THEN iffD1, OF assms(1)] .

lemma Contains_around:
  assumes "c \<notin> set a" "c \<notin> set b"
  shows "Contains (a @ c # b) (p @ c # q) \<longleftrightarrow> HasSuffix a p \<and> HasPrefix b q"
proof
  assume "Contains (a @ c # b) (p @ c # q)"
  then obtain u v where "a @ c # b = (u @ p) @ c # (q @ v)"
    by (auto simp: Contains_iff)
  from split_unique [OF this assms] have "a = u @ p" "b = q @ v" by simp_all
  then show "HasSuffix a p \<and> HasPrefix b q" by (auto simp: HasSuffix_iff HasPrefix_iff)
next
  assume "HasSuffix a p \<and> HasPrefix b q"
  then obtain u v where "a = u @ p" "b = q @ v" by (auto simp: HasSuffix_iff HasPrefix_iff)
  then show "Contains (a @ c # b) (p @ c # q)"
    unfolding Contains_iff by (metis append.assoc append_Cons)
qed

lemma Contains_char: "c \<in> set p \<Longrightarrow> c \<notin> set s \<Longrightarrow> \<not> Contains s p"
  by (auto simp: Contains_iff)

text \<open>The number at the end of a text that stops before it: a suffix test on the whole is one on
  the number with the blank (or nothing) before it.\<close>

lemma HasSuffix_snoc [simp]: "HasSuffix (s @ [c]) (p @ [d]) \<longleftrightarrow> c = d \<and> HasSuffix s p"
  by (simp add: HasSuffix_def)

lemma HasSuffix_Nil [simp]: "HasSuffix s [] = True" "HasSuffix [] (c # p) = False"
  by (auto simp: HasSuffix_iff)

lemma HasSuffix_single: "HasSuffix (s @ [c]) [d] \<longleftrightarrow> c = d"
  using HasSuffix_snoc [of s c "[]" d] by simp

lemma last_nat_dec: "last (nat_dec n) = digit_char (n mod 10)"
  by (subst nat_dec.simps) simp

lemma nat_dec_split: "nat_dec n = (if n < 10 then [] else nat_dec (n div 10)) @ [digit_char (n mod 10)]"
  by (subst nat_dec.simps) simp

lemma digit_char_eq: "i < 10 \<Longrightarrow> j < 10 \<Longrightarrow> digit_char i = digit_char j \<longleftrightarrow> i = j"
  by (metis digit_val_char)

lemma digit_0: "CHR ''0'' = digit_char 0" and digit_1: "CHR ''1'' = digit_char 1"
  by (simp_all add: digit_char_def char_of_def bit_Suc_0_iff)

lemma HasSuffix_0: "HasSuffix (a @ nat_dec n) ''0'' \<longleftrightarrow> n mod 10 = 0"
proof -
  obtain b where "nat_dec n = b @ [digit_char (n mod 10)]" using nat_dec_split by blast
  then show ?thesis
    using HasSuffix_single [of "a @ b" "digit_char (n mod 10)" "CHR ''0''"]
    by (simp add: digit_0 digit_char_eq)
qed

lemma nat_dec_100: "nat_dec 100 = ''100''"
  by (simp add: nat_dec.simps digit_char_def char_of_def bit_Suc_0_iff)

lemma HasSuffix_100:
  assumes "n \<le> 100" "a = [] \<or> \<not> is_digit (last a)"
  shows "HasSuffix (a @ nat_dec n) ''100'' \<longleftrightarrow> n = 100"
proof
  assume h: "HasSuffix (a @ nat_dec n) ''100''"
  show "n = 100"
  proof (rule ccontr)
    assume "n \<noteq> 100"
    with assms have lt: "n < 100" by simp
    obtain r where r: "a @ nat_dec n = (r @ ''1'') @ ''00''"
      using h by (auto simp: HasSuffix_iff)
    have "n div 10 < 10" using lt by linarith
    then have "length (nat_dec n) \<le> 2"
      using lt nat_dec.simps [of n] nat_dec.simps [of "n div 10"] by simp
    moreover have "0 < length (nat_dec n)" using nat_dec_nonempty by simp
    ultimately consider "length (nat_dec n) = 1" | "length (nat_dec n) = 2" by linarith
    then show False
    proof cases
      case 1
      then obtain d where "nat_dec n = [d]" by (cases "nat_dec n") auto
      with r have "a = r @ ''10''" by (metis append.assoc append1_eq_conv append_Cons append_Nil)
      with assms show False by (auto simp: is_digit_def)
    next
      case 2
      then have "a = r @ ''1''" using r append_eq_append_conv [of a "r @ ''1''" "nat_dec n" "''00''"] by simp
      with assms show False by (auto simp: is_digit_def)
    qed
  qed
next
  assume "n = 100"
  then show "HasSuffix (a @ nat_dec n) ''100''" by (auto simp: nat_dec_100 HasSuffix_iff)
qed


section \<open>Every parse result\<close>

text \<open>A report: the status is a string and agrees with the success flag; a loss comes with the
  complementary success rate, and only with a success.\<close>

definition report_ok :: "bool \<times> gmap \<Rightarrow> bool" where
  "report_ok r \<longleftrightarrow> (let (ok, d) = r in
     d ''status'' = Some (VString (if ok then StatusCheckFinished else StatusParseFailed))
   \<and> (case d ''packet_loss'' of None \<Rightarrow> d ''success_rate'' = None
      | Some v \<Rightarrow> ok \<and> (\<exists>n. v = VInt n \<and> d ''success_rate'' = Some (VInt (100 - n)))))"

definition fresh :: "gmap \<Rightarrow> bool" where
  "fresh d \<longleftrightarrow> d ''packet_loss'' = None \<and> d ''success_rate'' = None"

lemmas report_defs = report_ok_def fresh_def finished_def parse_failed_def put_status_def
  put_rates_def

lemma report_finished [simp]: "report_ok (finished n d)"
  by (simp add: report_defs)

lemma report_failed [simp]: "fresh d \<Longrightarrow> report_ok (parse_failed d)"
  by (simp add: report_defs)

lemma report_bare [simp]: "fresh d \<Longrightarrow> report_ok (True, put_status StatusCheckFinished d)"
  by (simp add: report_defs)

lemma fresh_note [simp]:
  "fresh d \<Longrightarrow> key \<notin> {''packet_loss'', ''success_rate''} \<Longrightarrow> fresh (note_line key l b d)"
  by (auto simp: fresh_def note_line_def)

lemma cisco_report: "fresh d \<Longrightarrow> report_ok (cisco_lines ls d)"
  by (induction ls d rule: cisco_lines.induct)
    (auto simp: cisco_rate_line_def Let_def split: option.split)

lemma nxos_report: "fresh d \<Longrightarrow> report_ok (nxos_lines ls d)"
  by (induction ls d rule: nxos_lines.induct)
    (auto simp: nxos_loss_line_def Let_def split: option.split)

lemma huawei_report: "fresh d \<Longrightarrow> report_ok (huawei_lines ls d)"
  by (induction ls d rule: huawei_lines.induct)
    (auto simp: huawei_loss_line_def Let_def split: option.split)

lemma h3c_report: "fresh d \<Longrightarrow> report_ok (parseH3COutput output d)"
  by (auto simp: parseH3COutput_def Let_def report_defs split: h3c_scan.split option.split)

lemma generic_report: "fresh d \<Longrightarrow> report_ok (parseGenericOutput output d)"
  by (simp add: parseGenericOutput_def Let_def)

lemma platform_report: "fresh d \<Longrightarrow> report_ok (parse_platform pl output d)"
  by (simp add: parse_platform_def parseCiscoOutput_def parseCiscoNxosOutput_def
      parseHuaweiOutput_def cisco_report nxos_report huawei_report h3c_report generic_report)

lemma parse_report:
  "report_ok (res_Success (fst (ParseOutput ctx raw)), res_Data (fst (ParseOutput ctx raw)))
   \<and> (snd (ParseOutput ctx raw) = None \<longleftrightarrow>
        (\<exists>s. raw = VString s \<or> raw = VBytes s) \<and> as_string (tc_Params ctx ''target_ip'') \<noteq> None)"
proof (cases "as_string (tc_Params ctx ''target_ip'')")
  case None
  then show ?thesis by (cases raw) (simp_all add: ParseOutput_def report_ok_def)
next
  case (Some ip)
  have "report_ok (parse_platform (tc_Platform ctx) out
      [''target_ip'' \<mapsto> VString ip, ''raw_output'' \<mapsto> VString out])" for out
    by (rule platform_report) (simp add: fresh_def)
  with Some show ?thesis
    by (cases raw) (simp_all add: ParseOutput_def report_ok_def split_beta)
qed


section \<open>Validation and command construction\<close>

lemma validated_build:
  assumes "ValidateParams (tc_Params ctx) = None"
  obtains ip rep to pwd where "tc_Params ctx ''target_ip'' = Some (VString ip)" "ip \<noteq> []"
    "0 < rep" "rep \<le> 100" "0 < to" "to \<le> 60 * Second"
    "BuildCommand ctx = build_payload (tc_CommandType ctx) (tc_Platform ctx) ip rep to pwd"
proof -
  let ?p = "tc_Params ctx"
  from assms obtain ip where ip: "?p ''target_ip'' = Some (VString ip)" "ip \<noteq> []"
      and v: "validate_repeat ?p = None" "validate_timeout ?p = None"
    by (auto simp: ValidateParams_def split: option.splits gvalue.splits if_splits)
  obtain rep where rep: "0 < rep" "rep \<le> 100" "(case ?p ''repeat'' of None \<Rightarrow> Some 5
      | Some (VInt n) \<Rightarrow> Some n | Some _ \<Rightarrow> None) = Some rep"
    using v(1) by (auto simp: validate_repeat_def split: option.splits gvalue.splits if_splits)
  obtain to where to: "0 < to" "to \<le> 60 * Second" "(case ?p ''timeout'' of None \<Rightarrow> Some (2 * Second)
      | Some (VDuration d) \<Rightarrow> Some d | Some _ \<Rightarrow> None) = Some to"
    using v(2) by (auto simp: validate_timeout_def split: option.splits gvalue.splits if_splits)
  show thesis
    by (rule that [OF ip rep(1,2) to(1,2)]) (simp add: BuildCommand_def Let_def ip rep(3) to(3))
qed

definition pings :: "Command \<Rightarrow> CommandType \<Rightarrow> string \<Rightarrow> bool" where
  "pings c ct ip \<longleftrightarrow> cmd_Type c = ct \<and> (case cmd_Payload c of
     PCommands cs \<Rightarrow> ct = CommandTypeCommands \<and> cs \<noteq> [] \<and> HasPrefix (last cs) ''ping '' \<and> Contains (last cs) ip
   | PEvents es \<Rightarrow> ct = CommandTypeInteractiveEvent \<and> es \<noteq> []
       \<and> HasPrefix (ChannelInput (last es)) ''ping '' \<and> Contains (ChannelInput (last es)) ip
   | POther \<Rightarrow> False)"

lemma Contains_here: "Contains (p @ s) p"
  by (metis Contains_iff append_Nil)

lemma Contains_self: "Contains p p"
  by (metis Contains_here append_Nil2)

lemma Contains_ConsI: "Contains s p \<Longrightarrow> Contains (c # s) p"
  by simp

lemma build_payload_pings:
  "build_payload ct pl ip rep to pwd = Inr c \<Longrightarrow> pings c ct ip"
  by (auto simp: build_payload_def pings_def buildCiscoCommand_def buildHuaweiCommand_def
      buildH3CCommand_def buildCiscoEvent_def buildHuaweiEvent_def buildH3CEvent_def
      split: if_splits simp del: Contains.simps
      intro!: Contains_ConsI Contains_here)
    (rule Contains_self Contains_ConsI Contains_appendI2)+

lemma build_payload_ok:
  "(\<exists>c. build_payload ct pl ip rep to pwd = Inr c) \<longleftrightarrow>
     (ct = CommandTypeCommands \<or> ct = CommandTypeInteractiveEvent)
   \<and> pl \<in> set (cisco_platforms @ [PlatformHuaweiVRP, PlatformH3CComware])"
  by (simp add: build_payload_def)

text \<open>Parameters that pass validation make a command of the requested type for each of the
  five platforms and both command types, with a ping of the validated target as its last
  line; another platform or command type is an error.\<close>

theorem BuildCommand_after_validation:
  assumes "ValidateParams (tc_Params ctx) = None"
  shows "((\<exists>c. BuildCommand ctx = Inr c) \<longleftrightarrow>
      (tc_CommandType ctx = CommandTypeCommands \<or> tc_CommandType ctx = CommandTypeInteractiveEvent)
      \<and> tc_Platform ctx \<in> set (cisco_platforms @ [PlatformHuaweiVRP, PlatformH3CComware]))
    \<and> (\<forall>c. BuildCommand ctx = Inr c \<longrightarrow> (\<exists>ip. tc_Params ctx ''target_ip'' = Some (VString ip)
      \<and> ip \<noteq> [] \<and> pings c (tc_CommandType ctx) ip))"
proof -
  obtain ip rep to pwd where
    b: "tc_Params ctx ''target_ip'' = Some (VString ip)" "ip \<noteq> []"
      "0 < rep" "rep \<le> 100" "0 < to" "to \<le> 60 * Second"
      "BuildCommand ctx = build_payload (tc_CommandType ctx) (tc_Platform ctx) ip rep to pwd"
    by (rule validated_build [OF assms])
  show ?thesis
  proof (rule conjI, unfold b(7), rule build_payload_ok, intro allI impI)
    fix c
    assume "build_payload (tc_CommandType ctx) (tc_Platform ctx) ip rep to pwd = Inr c"
    then show "\<exists>ip. tc_Params ctx ''target_ip'' = Some (VString ip) \<and> ip \<noteq> [] \<and> pings c (tc_CommandType ctx) ip"
      using b(1,2) build_payload_pings by blast
  qed
qed

definition ping_ctx :: "Platform \<Rightarrow> TaskContext" where
  "ping_ctx pl = \<lparr>tc_TaskType = ''ping'', tc_Platform = pl, tc_Protocol = ProtocolScrapli,
     tc_CommandType = CommandTypeCommands,
     tc_Params = [''target_ip'' \<mapsto> VString ''10.0.0.1'', ''repeat'' \<mapsto> VInt 5]\<rparr>"

theorem BuildCommand_after_validation_witness:
  "\<exists>c. BuildCommand (ping_ctx PlatformHuaweiVRP) = Inr c"
proof -
  have "ValidateParams (tc_Params (ping_ctx PlatformHuaweiVRP)) = None"
    by (simp add: ping_ctx_def ValidateParams_def validate_repeat_def validate_timeout_def
        validate_enable_def)
  from BuildCommand_after_validation [OF this] show ?thesis
    by (simp add: ping_ctx_def cisco_platforms_def)
qed

section \<open>Cisco IOS XE and XR\<close>

lemma percent_unique:
  assumes "u @ ''percent'' @ r = x @ ''percent'' @ y" "CHR ''p'' \<notin> set u" "\<not> Contains r ''percent''"
  shows "x = u \<and> y = r"
proof -
  from assms(1) obtain us where
    "u = x @ us \<and> us @ ''percent'' @ r = ''percent'' @ y \<or> u @ us = x \<and> ''percent'' @ r = us @ ''percent'' @ y"
    by (auto simp: append_eq_append_conv2)
  then show ?thesis
  proof
    assume "u = x @ us \<and> us @ ''percent'' @ r = ''percent'' @ y"
    with assms(2) show ?thesis by (cases us) auto
  next
    assume a: "u @ us = x \<and> ''percent'' @ r = us @ ''percent'' @ y"
    have "us = []"
    proof (rule ccontr)
      assume "us \<noteq> []"
      with a have "\<exists>t. r = t @ ''percent'' @ y" by (auto simp: Cons_eq_append_conv)
      with assms(3) show False by (auto simp: Contains_iff)
    qed
    with a show ?thesis by simp
  qed
qed

lemma Contains_percent:
  assumes "CHR ''p'' \<notin> set u" "\<not> Contains r ''percent''"
  shows "Contains (u @ ''percent'' @ r) (q @ ''percent'') \<longleftrightarrow> HasSuffix u q"
proof
  assume "Contains (u @ ''percent'' @ r) (q @ ''percent'')"
  then obtain x y where "u @ ''percent'' @ r = (x @ q) @ ''percent'' @ y"
    unfolding Contains_iff by (metis append.assoc)
  with percent_unique [OF this assms] show "HasSuffix u q" by (auto simp: HasSuffix_iff)
next
  assume "HasSuffix u q"
  then show "Contains (u @ ''percent'' @ r) (q @ ''percent'')"
    unfolding HasSuffix_iff Contains_iff by (metis append.assoc)
qed

lemma nat_dec_no_char: "\<not> is_digit c \<Longrightarrow> c \<notin> set (nat_dec n)"
  using nat_dec_digits by (auto simp: list_all_iff)

lemma nat_dec_no_space: "\<forall>c\<in>set (nat_dec n). \<not> is_space c"
  using nat_dec_digits is_digit_not_space by (auto simp: list_all_iff)

definition rate_line :: "nat \<Rightarrow> string \<Rightarrow> string" where
  "rate_line n r = ''Success rate is '' @ nat_dec n @ '' '' @ ''percent'' @ r"

lemma Fields_word: "\<forall>c\<in>set w. \<not> is_space c \<Longrightarrow> w \<noteq> [] \<Longrightarrow> s = [] \<or> is_space (hd s) \<Longrightarrow>
    \<exists>ws. Fields (w @ s) = w # ws"
  using Fields_Cons_word Fields_last_word by (cases s) auto

lemma Fields_rate_line:
  assumes "r = [] \<or> is_space (hd r)"
  shows "\<exists>ws. Fields (rate_line n r) = ''Success'' # ''rate'' # ''is'' # nat_dec n # ''percent'' # ws"
proof -
  obtain ws where "Fields (''percent'' @ r) = ''percent'' # ws"
    using Fields_word [of "''percent''" r] assms by (auto simp: is_space_def)
  then have f: "Fields (nat_dec n @ CHR '' '' # ''percent'' @ r) = nat_dec n # ''percent'' # ws"
    using Fields_Cons_word [OF nat_dec_no_space nat_dec_nonempty, of "CHR '' ''"]
    by (simp add: is_space_def)
  have "Fields (''Success'' @ CHR '' '' # ''rate'' @ CHR '' '' # ''is'' @ CHR '' '' # s)
      = ''Success'' # ''rate'' # ''is'' # Fields s" for s
    by (simp add: Fields_Cons_word is_space_def del: append.simps)
  from this [of "nat_dec n @ CHR '' '' # ''percent'' @ r"] f show ?thesis
    by (simp add: rate_line_def)
qed

lemma rate_line_contains:
  assumes "n \<le> 100" "\<not> Contains r ''percent''"
  shows "Contains (rate_line n r) ''Success rate is''"
    and "Contains (rate_line n r) ''100 percent'' \<longleftrightarrow> n = 100"
    and "Contains (rate_line n r) ''0 percent'' \<longleftrightarrow> n mod 10 = 0"
proof -
  let ?u = "''Success rate is '' @ nat_dec n @ '' ''"
  have p: "CHR ''p'' \<notin> set ?u" by (simp add: nat_dec_no_char is_digit_def)
  have s: "HasSuffix ?u (q @ '' '') \<longleftrightarrow> HasSuffix (''Success rate is '' @ nat_dec n) q" for q
    using HasSuffix_snoc [of "''Success rate is '' @ nat_dec n" "CHR '' ''" q "CHR '' ''"] by simp
  have c: "Contains (rate_line n r) ((q @ '' '') @ ''percent'') \<longleftrightarrow>
      HasSuffix (''Success rate is '' @ nat_dec n) q" for q
    using Contains_percent [OF p assms(2), of "q @ '' ''"] s by (simp add: rate_line_def)
  show "Contains (rate_line n r) ''100 percent'' \<longleftrightarrow> n = 100"
    using c [of "''100''"] HasSuffix_100 [OF assms(1), of "''Success rate is ''"]
    by (simp add: is_digit_def)
  show "Contains (rate_line n r) ''0 percent'' \<longleftrightarrow> n mod 10 = 0"
    using c [of "''0''"] HasSuffix_0 [of "''Success rate is ''" n] by simp
  show "Contains (rate_line n r) ''Success rate is''"
    by (simp add: rate_line_def)
qed

lemma rstrip_not_Contains: "\<not> Contains r p \<Longrightarrow> \<not> Contains (rstrip r) p"
  by (metis Contains_appendI1 rstrip_prefix)

lemma rstrip_hd: "r = [] \<or> is_space (hd r) \<Longrightarrow> rstrip r = [] \<or> is_space (hd (rstrip r))"
  by (metis append_is_Nil_conv hd_append2 rstrip_prefix)

lemma TrimSpace_rate_line: "TrimSpace (rate_line n r) = rate_line n (rstrip r)"
  using TrimSpace_rstrip [of "''Success rate is '' @ nat_dec n @ '' percent''" r]
  by (simp add: rate_line_def is_space_def)

lemma cisco_skip:
  "\<forall>l\<in>set pre. \<not> Contains l ''Success rate is'' \<Longrightarrow>
     \<exists>d1. cisco_lines (pre @ ls) d = cisco_lines ls d1"
  by (induction pre arbitrary: d) (auto simp: Let_def dest: Contains_TrimSpace)

lemma finished_data:
  "fst (finished n d)" "snd (finished n d) ''packet_loss'' = Some (VInt n)"
  "snd (finished n d) ''status'' = Some (VString StatusCheckFinished)"
  by (simp_all add: finished_def put_status_def put_rates_def)

text \<open>C30: On Cisco IOS XE and XR a summary line with success rate \<open>n\<close> percent ends in a finished
  check that reports the loss \<open>100 - n\<close>, except that every rate below 100 that is a multiple of
  ten (20, 40, 60 and 80 percent of five probes) is reported as a total loss, because the test
  for a zero rate is a substring test.\<close>

theorem cisco_rate:
  assumes "Split_lines output = pre @ rate_line n r # post"
    and "\<forall>l\<in>set pre. \<not> Contains l ''Success rate is''"
    and "n \<le> 100" "r = [] \<or> is_space (hd r)" "\<not> Contains r ''percent''"
  shows "\<exists>d1. parseCiscoOutput output d
    = finished (if n = 100 then 0 else if n mod 10 = 0 then 100 else 100 - int n) d1"
proof -
  let ?l = "rate_line n (rstrip r)"
  note r' = rstrip_not_Contains [OF assms(5)]
  note has = rate_line_contains [OF assms(3) r']
  obtain ws where ws: "Fields ?l = ''Success'' # ''rate'' # ''is'' # nat_dec n # ''percent'' # ws"
    using Fields_rate_line rstrip_hd [OF assms(4)] by blast
  have "percent_before ''Success'' (''rate'' # ''is'' # nat_dec n # ''percent'' # ws) = Some (nat_dec n)"
    using nat_dec_no_char [of "CHR ''p''" n] by (auto simp: is_digit_def)
  moreover have "Atoi (nat_dec n) = Some (int n)"
    using Atoi_Itoa [of "int n"] assms(3) by (simp add: Itoa_def)
  ultimately have "cisco_rate_line ?l d1
      = finished (if n = 100 then 0 else if n mod 10 = 0 then 100 else 100 - int n) d1" for d1
    unfolding cisco_rate_line_def has(2,3) ws by simp
  moreover obtain d1 where "parseCiscoOutput output d = cisco_lines (rate_line n r # post) d1"
    using cisco_skip [OF assms(2)] assms(1) unfolding parseCiscoOutput_def by metis
  ultimately show ?thesis by (auto simp: Let_def TrimSpace_rate_line has(1))
qed

theorem cisco_rate_witness:
  "\<exists>d1. parseCiscoOutput (''!!..!'' @ newline @ ''Success rate is 60 percent (3/5)'') Map.empty = finished 100 d1"
proof -
  have s: "Split_lines (''!!..!'' @ newline @ ''Success rate is 60 percent (3/5)'')
      = [''!!..!''] @ rate_line 60 '' (3/5)'' # []"
    by (simp add: rate_line_def nat_dec.simps digit_char_def char_of_def bit_Suc_0_iff)
  show ?thesis
    using cisco_rate [OF s] by (simp add: is_space_def)
qed

section \<open>Loss lines\<close>

text \<open>The text \<open>a\<close> before the number ends in a blank and \<open>m\<close> is the fraction printed after it.\<close>

definition loss_line :: "string \<Rightarrow> nat \<Rightarrow> string \<Rightarrow> string \<Rightarrow> string" where
  "loss_line a n m r = a @ nat_dec n @ m @ ''% packet loss'' @ r"

definition loss_ctx :: "string \<Rightarrow> string \<Rightarrow> bool" where
  "loss_ctx a r \<longleftrightarrow> (a = [] \<or> last a = CHR '' '') \<and> CHR ''%'' \<notin> set a \<and> CHR ''%'' \<notin> set r"

lemma TrimSpace_mid: "\<exists>a b. s = a @ TrimSpace s @ b"
proof -
  let ?d = "dropWhile is_space s"
  have "?d = TrimSpace s @ rev (takeWhile is_space (rev ?d))"
    unfolding TrimSpace_def by (metis rev_append rev_rev_ident takeWhile_dropWhile_id)
  moreover have "s = takeWhile is_space s @ ?d" by simp
  ultimately show ?thesis by metis
qed

lemma Contains_lower_TrimSpace: "Contains (ToLower (TrimSpace s)) p \<Longrightarrow> Contains (ToLower s) p"
  using TrimSpace_mid [of s] Contains_appendI1 Contains_appendI2 unfolding ToLower_def
  by (metis map_append)

lemma dropWhile_stop: "w \<noteq> [] \<Longrightarrow> \<not> P (hd w) \<Longrightarrow> dropWhile P (a @ w) = dropWhile P a @ w"
  by (cases w) (auto simp: dropWhile_append3)

lemma nat_dec_hd: "\<not> is_space (hd (nat_dec n))" "is_digit (hd (nat_dec n))"
  using nat_dec_no_space [of n] nat_dec_digits [of n] hd_in_set [OF nat_dec_nonempty [of n]]
  by (auto simp: list_all_iff)

lemma TrimSpace_loss_line:
  "TrimSpace (loss_line a n m r) = loss_line (dropWhile is_space a) n m (rstrip r)"
proof -
  let ?w = "nat_dec n @ m @ ''% packet loss''"
  have "TrimSpace (a @ ?w @ r) = TrimSpace (dropWhile is_space a @ ?w @ r)"
    using dropWhile_stop [of "?w @ r" is_space a] dropWhile_stop [of "?w @ r" is_space "dropWhile is_space a"]
      nat_dec_hd nat_dec_nonempty
    by (simp add: TrimSpace_def)
  also have "\<dots> = (dropWhile is_space a @ ?w) @ rstrip r"
  proof -
    have "\<not> is_space (hd (dropWhile is_space a @ ?w))"
      using nat_dec_hd(1) [of n] nat_dec_nonempty [of n] hd_dropWhile [of is_space a]
      by (cases "dropWhile is_space a") (simp_all del: dropWhile_eq_Nil_conv)
    then show ?thesis
      using TrimSpace_rstrip [of "dropWhile is_space a @ ?w" r] by (simp add: is_space_def)
  qed
  finally show ?thesis by (simp add: loss_line_def)
qed

lemma rstrip_subset: "set (rstrip r) \<subseteq> set r"
  by (metis rstrip_prefix set_append Un_upper1)

lemma loss_ctx_trim: "loss_ctx a r \<Longrightarrow> loss_ctx (dropWhile is_space a) (rstrip r)"
proof -
  assume a: "loss_ctx a r"
  have "dropWhile is_space a = [] \<or> last (dropWhile is_space a) = last a"
    by (metis last_append takeWhile_dropWhile_id)
  with a show ?thesis
    using rstrip_subset set_dropWhileD by (fastforce simp: loss_ctx_def)
qed

lemma loss_line_split:
  assumes "loss_ctx a r" "CHR ''%'' \<notin> set m" "HasPrefix ('' packet loss'' @ r) q"
  shows "Contains (loss_line a n m r) (p @ CHR ''%'' # q) \<longleftrightarrow> HasSuffix (a @ nat_dec n @ m) p"
proof -
  have "CHR ''%'' \<notin> set (a @ nat_dec n @ m)" "CHR ''%'' \<notin> set ('' packet loss'' @ r)"
    using assms by (auto simp: loss_ctx_def nat_dec_no_char is_digit_def)
  from Contains_around [OF this, of p q] assms(3) show ?thesis by (simp add: loss_line_def)
qed

lemma Fields_acc_split:
  "is_space c \<Longrightarrow> Fields_acc acc (a @ c # s) = Fields_acc acc a @ Fields_acc [] s"
  by (induction a arbitrary: acc) auto

lemma Fields_acc_chars: "w \<in> set (Fields_acc acc a) \<Longrightarrow> set w \<subseteq> set acc \<union> set a"
  by (induction a arbitrary: acc) (auto split: if_splits, (fastforce dest: subsetD)+)

lemma find_first_append:
  "find_first p (xs @ ys) = (case find_first p xs of Some x \<Rightarrow> Some x | None \<Rightarrow> find_first p ys)"
  by (induction xs) auto

lemma find_first_skip: "\<forall>x\<in>set xs. \<not> p x \<Longrightarrow> find_first p (xs @ ys) = find_first p ys"
  by (induction xs) auto

lemma Fields_loss_line:
  assumes "loss_ctx a r" "\<forall>c\<in>set m. \<not> is_space c"
  shows "\<exists>us vs. Fields (loss_line a n m r) = us @ (nat_dec n @ m @ ''%'') # vs
    \<and> (\<forall>w\<in>set us \<union> set vs. CHR ''%'' \<notin> set w)"
proof -
  let ?w = "nat_dec n @ m @ ''%''"
  have blank: "is_space (CHR '' '')" "\<not> is_space (CHR ''%'')" by (simp_all add: is_space_def)
  then have nw: "\<forall>c\<in>set ?w. \<not> is_space c" using nat_dec_no_space [of n] assms(2) by auto
  have w: "Fields (?w @ CHR '' '' # s) = ?w # Fields s" for s
    by (rule Fields_Cons_word [OF nw _ blank(1)]) simp
  have chars: "CHR ''%'' \<notin> set v" if "v \<in> set (Fields s)" "CHR ''%'' \<notin> set s" for v s
    using that Fields_acc_chars [of v "[]" s] by (auto simp: Fields_def)
  let ?t = "''packet loss'' @ r"
  have t: "CHR ''%'' \<notin> set ?t" using assms(1) by (simp add: loss_ctx_def)
  have line: "loss_line a n m r = a @ ?w @ CHR '' '' # ?t" by (simp add: loss_line_def)
  show ?thesis
  proof (cases a rule: rev_cases)
    case Nil
    then have "Fields (loss_line a n m r) = [] @ ?w # Fields ?t"
      unfolding line by (simp only: append_Nil w)
    then show ?thesis using chars [OF _ t] by (intro exI conjI) auto
  next
    case (snoc b c)
    then have c: "c = CHR '' ''" "CHR ''%'' \<notin> set b" using assms(1) by (auto simp: loss_ctx_def)
    have "Fields (loss_line a n m r) = Fields b @ Fields (?w @ CHR '' '' # ?t)"
      unfolding snoc using Fields_acc_split [of c "[]" b "?w @ CHR '' '' # ?t"] c(1) blank(1)
      by (simp add: Fields_def loss_line_def)
    then have "Fields (loss_line a n m r) = Fields b @ ?w # Fields ?t" by (simp only: w)
    then show ?thesis using chars [OF _ t] chars [OF _ c(2)] by (intro exI conjI) auto
  qed
qed

lemma loss_line_has: "Contains (loss_line a n m r) ''packet loss''"
proof -
  have "loss_line a n m r = (a @ nat_dec n @ m @ ''% '') @ ''packet loss'' @ r"
    by (simp add: loss_line_def)
  then show ?thesis unfolding Contains_iff by blast
qed


lemma HasSuffix_char: "HasSuffix w [c] \<Longrightarrow> c \<in> set w"
  by (auto simp: HasSuffix_iff)

section \<open>Huawei VRP\<close>

lemma huawei_skip:
  "\<forall>l\<in>set pre. \<not> Contains (ToLower l) ''request time out'' \<and> \<not> Contains l ''packet loss'' \<Longrightarrow>
     \<exists>d1. huawei_lines (pre @ ls) d = huawei_lines ls d1"
  by (induction pre arbitrary: d)
    (auto simp: Let_def dest: Contains_TrimSpace Contains_lower_TrimSpace)

lemma huawei_loss_value:
  assumes "loss_ctx a r" "n \<le> 100"
  shows "huawei_loss_line (loss_line a n [] r) d
    = finished (if n = 100 then 100 else if n mod 10 = 0 then 0 else int n) d"
proof -
  have pre: "HasPrefix ('' packet loss'' @ r) '' packet loss''" by (simp add: HasPrefix_iff)
  have a: "a = [] \<or> \<not> is_digit (last a)" using assms(1) by (auto simp: loss_ctx_def is_digit_def)
  have c100: "Contains (loss_line a n [] r) ''100% packet loss'' \<longleftrightarrow> n = 100"
    using loss_line_split [OF assms(1) _ pre, of "[]" n "''100''"] HasSuffix_100 [OF assms(2) a] by simp
  have c0: "Contains (loss_line a n [] r) ''0% packet loss'' \<longleftrightarrow> n mod 10 = 0"
    using loss_line_split [OF assms(1) _ pre, of "[]" n "''0''"] HasSuffix_0 [of a n] by simp
  obtain us vs where f: "Fields (loss_line a n [] r) = us @ (nat_dec n @ ''%'') # vs"
      "\<forall>w\<in>set us \<union> set vs. CHR ''%'' \<notin> set w"
    using Fields_loss_line [OF assms(1), of "[]" n] by auto
  have "\<forall>w\<in>set us. \<not> HasSuffix w ''%''" using f(2) HasSuffix_char by blast
  then have "find_first (\<lambda>part. HasSuffix part ''%'') (Fields (loss_line a n [] r)) = Some (nat_dec n @ ''%'')"
    using f(1) find_first_skip [of us] by (simp add: HasSuffix_iff)
  moreover have "Atoi (nat_dec n) = Some (int n)"
    using Atoi_Itoa [of "int n"] assms(2) by (simp add: Itoa_def)
  ultimately show ?thesis
    unfolding huawei_loss_line_def c100 c0 by (simp add: nat_dec_nonempty)
qed

text \<open>On Huawei VRP a summary line with a packet loss of \<open>n\<close> percent ends in a finished check
  that reports \<open>n\<close>, except that a loss below 100 that is a multiple of ten is reported as no
  loss at all, because the test for a zero loss is a substring test.\<close>

theorem huawei_loss:
  assumes "Split_lines output = pre @ loss_line a n [] r # post"
    and "\<forall>l\<in>set (pre @ [loss_line a n [] r]). \<not> Contains (ToLower l) ''request time out''"
    and "\<forall>l\<in>set pre. \<not> Contains l ''packet loss''"
    and "loss_ctx a r" "n \<le> 100"
  shows "\<exists>d1. parseHuaweiOutput output d
    = finished (if n = 100 then 100 else if n mod 10 = 0 then 0 else int n) d1"
proof -
  obtain d1 where "parseHuaweiOutput output d = huawei_lines (loss_line a n [] r # post) d1"
    using huawei_skip [of pre] assms(1-3) unfolding parseHuaweiOutput_def by (metis Un_iff set_append)
  moreover have "\<not> Contains (ToLower (TrimSpace (loss_line a n [] r))) ''request time out''"
    using assms(2) Contains_lower_TrimSpace by force
  ultimately show ?thesis
    using huawei_loss_value [OF loss_ctx_trim [OF assms(4)] assms(5)]
    by (auto simp: Let_def TrimSpace_loss_line loss_line_has)
qed

theorem huawei_loss_witness:
  "\<exists>d1. parseHuaweiOutput (''5 packet(s) transmitted, 20% packet loss'') Map.empty = finished 0 d1"
proof -
  have s: "Split_lines ''5 packet(s) transmitted, 20% packet loss''
      = [] @ loss_line ''5 packet(s) transmitted, '' 20 [] [] # []"
    by (simp add: loss_line_def nat_dec.simps digit_char_def char_of_def bit_Suc_0_iff)
  have l: "\<forall>l\<in>set ([] @ [loss_line ''5 packet(s) transmitted, '' 20 [] []]).
      \<not> Contains (ToLower l) ''request time out''"
    by (simp add: loss_line_def nat_dec.simps digit_char_def char_of_def bit_Suc_0_iff) code_simp
  show ?thesis using huawei_loss [OF s l] by (simp add: loss_ctx_def)
qed

section \<open>Cisco NX-OS\<close>

lemma nxos_skip:
  "\<forall>l\<in>set pre. \<not> Contains l ''packet loss'' \<Longrightarrow> \<exists>d1. nxos_lines (pre @ ls) d = nxos_lines ls d1
     \<and> d1 ''packet_loss'' = d ''packet_loss''"
proof (induction pre arbitrary: d)
  case (Cons l pre)
  let ?l = "TrimSpace l"
  let ?d = "note_line ''packet_stats'' ?l (Contains ?l ''packets transmitted'' \<and> Contains ?l ''packets received'')
        (note_line ''rtt_info'' ?l (is_rtt ?l) d)"
  have "\<not> Contains ?l ''packet loss''" using Cons.prems Contains_TrimSpace by fastforce
  then have "nxos_lines ((l # pre) @ ls) d = nxos_lines (pre @ ls) ?d" by (simp add: Let_def)
  moreover have "?d ''packet_loss'' = d ''packet_loss''" by (simp add: note_line_def)
  ultimately show ?case using Cons by fastforce
qed auto

lemma nxos_loss_value:
  assumes "loss_ctx a r" "n \<le> 100"
  shows "nxos_loss_line (loss_line a n ''.00'' r) d
    = (if n mod 10 = 0 then finished 0 d else (True, put_status StatusCheckFinished d))"
proof -
  let ?l = "loss_line a n ''.00'' r"
  have pre: "HasPrefix ('' packet loss'' @ r) '' packet loss''" by (simp add: HasPrefix_iff)
  have suf: "HasSuffix (a @ nat_dec n @ ''.00'') (p @ ''.00'') \<longleftrightarrow> HasSuffix (a @ nat_dec n) p" for p
    by (simp add: HasSuffix_def)
  have a: "a = [] \<or> \<not> is_digit (last a)" using assms(1) by (auto simp: loss_ctx_def is_digit_def)
  have c100: "Contains ?l ''100.00% packet loss'' \<longleftrightarrow> n = 100"
    using loss_line_split [OF assms(1) _ pre, of "''.00''" n "''100.00''"] suf [of "''100''"]
      HasSuffix_100 [OF assms(2) a] by simp
  have c0: "Contains ?l ''0.00% packet loss'' \<longleftrightarrow> n mod 10 = 0"
    using loss_line_split [OF assms(1) _ pre, of "''.00''" n "''0.00''"] suf [of "''0''"]
      HasSuffix_0 [of a n] by simp
  obtain us vs where f: "Fields ?l = us @ (nat_dec n @ ''.00'' @ ''%'') # vs"
      "\<forall>w\<in>set us \<union> set vs. CHR ''%'' \<notin> set w"
    using Fields_loss_line [OF assms(1), of "''.00''" n] that by (simp add: is_space_def) blast
  have np: "\<not> Contains (nat_dec n @ ''.00'' @ ''%'') ''packet''"
    by (rule Contains_char [of "CHR ''p''"]) (simp_all add: nat_dec_no_char is_digit_def)
  have "\<not> (HasSuffix w ''%'' \<and> Contains w ''packet'')" if "w \<in> set (Fields ?l)" for w
  proof (cases "w = nat_dec n @ ''.00'' @ ''%''")
    case True
    with np show ?thesis by (simp only: simp_thms)
  next
    case False
    with that f have "CHR ''%'' \<notin> set w" by auto
    then show ?thesis using HasSuffix_char by blast
  qed
  then have "find_first (\<lambda>w. HasSuffix w ''%'' \<and> Contains w ''packet'') (Fields ?l) = None"
    unfolding find_first_None by blast
  then show ?thesis
    unfolding nxos_loss_line_def c100 c0 by (cases "n = 100") (simp_all del: find_first_None)
qed

text \<open>On Cisco NX-OS a summary line with a packet loss of \<open>n.00\<close> percent always ends in a
  finished check, but only a loss of zero is reported as it is: a positive multiple of ten,
  100 included, is reported as no loss, and for any other loss no value is reported at all.\<close>

theorem nxos_loss:
  assumes "Split_lines output = pre @ loss_line a n ''.00'' r # post"
    and "\<forall>l\<in>set pre. \<not> Contains l ''packet loss''"
    and "loss_ctx a r" "n \<le> 100" "d ''packet_loss'' = None"
  shows "fst (parseCiscoNxosOutput output d)
    \<and> snd (parseCiscoNxosOutput output d) ''packet_loss''
      = (if n mod 10 = 0 then Some (VInt 0) else None)"
proof -
  obtain d1 where d1: "parseCiscoNxosOutput output d = nxos_lines (loss_line a n ''.00'' r # post) d1"
      "d1 ''packet_loss'' = None"
    using nxos_skip [OF assms(2)] assms(1,5) unfolding parseCiscoNxosOutput_def by metis
  have e: "nxos_lines (loss_line a n ''.00'' r # post) d1
      = (if n mod 10 = 0 then finished 0 d1 else (True, put_status StatusCheckFinished d1))"
    using nxos_loss_value [OF loss_ctx_trim [OF assms(3)] assms(4)]
    by (simp add: Let_def TrimSpace_loss_line loss_line_has)
  show ?thesis
    unfolding d1(1) e by (simp add: finished_data put_status_def d1(2))
qed

theorem nxos_loss_witness:
  "snd (parseCiscoNxosOutput ''5 packets transmitted, 0 packets received, 100.00% packet loss'' Map.empty)
     ''packet_loss'' = Some (VInt 0)"
proof -
  have s: "Split_lines ''5 packets transmitted, 0 packets received, 100.00% packet loss''
      = [] @ loss_line ''5 packets transmitted, 0 packets received, '' 100 ''.00'' [] # []"
    by (simp add: loss_line_def nat_dec_100)
  show ?thesis using nxos_loss [OF s, of Map.empty] by (simp add: loss_ctx_def)
qed

section \<open>H3C Comware\<close>

lemma re_tail_first:
  "dropWhile re_space s = c # t \<Longrightarrow> c \<noteq> CHR ''%'' \<Longrightarrow> \<not> re_tail s"
  by (simp add: re_tail_def)

lemma re_number_rest:
  assumes "re_number (b @ CHR '' '' # x) = Some (num, rest)"
  shows "\<exists>t. rest = t @ CHR '' '' # x \<and> set t \<subseteq> set b"
proof -
  have nd: "\<not> is_digit (CHR '' '')" by (simp add: is_digit_def)
  let ?r = "dropWhile is_digit b"
  have dw: "dropWhile is_digit (s @ CHR '' '' # x) = dropWhile is_digit s @ CHR '' '' # x" for s
    using nd by (simp add: dropWhile_append3)
  show ?thesis
  proof (cases ?r)
    case Nil
    then have "rest = [] @ CHR '' '' # x"
      using assms dw [of b] nd by (simp add: re_number_def Let_def split: if_splits del: dropWhile_eq_Nil_conv)
    then show ?thesis by fastforce
  next
    case (Cons c r')
    then have sub: "set (c # r') \<subseteq> set b" by (metis set_dropWhileD subsetI)
    have "rest = (c # r') @ CHR '' '' # x \<or> rest = dropWhile is_digit r' @ CHR '' '' # x"
      using assms dw [of b] dw [of r'] Cons by (auto simp: re_number_def Let_def split: if_splits)
    moreover have "set (dropWhile is_digit r') \<subseteq> set b"
      using sub set_dropWhileD by fastforce
    ultimately show ?thesis using sub by blast
  qed
qed

lemma re_at_before:
  assumes "CHR ''%'' \<notin> set b" "x \<noteq> []" "\<not> re_space (hd x)" "hd x \<noteq> CHR ''%''"
  shows "re_at (b @ CHR '' '' # x) = None"
proof (cases "re_number (b @ CHR '' '' # x)")
  case (Some nr)
  obtain num rest where nr: "nr = (num, rest)" by (cases nr)
  obtain t where t: "rest = t @ CHR '' '' # x" "set t \<subseteq> set b"
    using re_number_rest Some nr by blast
  let ?d = "dropWhile re_space (t @ '' '')"
  have "dropWhile re_space rest = ?d @ x"
    using dropWhile_stop [OF assms(2), of re_space "t @ '' ''"] assms(3) t(1) by simp
  then obtain c u where "dropWhile re_space rest = c # u" "c \<in> set ?d \<or> c = hd x"
    using assms(2) by (cases ?d; cases x) auto
  moreover have "CHR ''%'' \<notin> set ?d"
    using set_dropWhileD [of "CHR ''%''" re_space "t @ '' ''"] t(2) assms(1) by auto
  ultimately have "\<not> re_tail rest" using re_tail_first assms(4) by metis
  then show ?thesis using Some nr by (simp add: re_at_def)
qed (simp add: re_at_def)

lemma re_find_skip:
  assumes "CHR ''%'' \<notin> set b" "x \<noteq> []" "\<not> re_space (hd x)" "hd x \<noteq> CHR ''%''"
  shows "re_find (b @ CHR '' '' # x) = re_find x"
  using assms(1)
proof (induction b)
  case Nil
  then show ?case using re_at_before [OF _ assms(2-4), of "[]"] by simp
next
  case (Cons c b)
  then show ?case using re_at_before [OF _ assms(2-4), of "c # b"] by simp
qed

lemma takeWhile_all: "list_all p xs \<Longrightarrow> ys = [] \<or> \<not> p (hd ys) \<Longrightarrow>
    takeWhile p (xs @ ys) = xs \<and> dropWhile p (xs @ ys) = ys"
  by (induction xs; cases ys) auto

lemma re_find_number:
  "re_find (nat_dec n @ ''.0'' @ ''% packet loss'' @ r) = Some (nat_dec n @ ''.0'')"
proof -
  let ?s = "nat_dec n @ ''.0'' @ ''% packet loss'' @ r"
  have td: "takeWhile is_digit ?s = nat_dec n" "dropWhile is_digit ?s = ''.0'' @ ''% packet loss'' @ r"
    using takeWhile_all [OF nat_dec_digits, of "''.0'' @ ''% packet loss'' @ r" n]
    by (simp_all add: is_digit_def)
  have "re_number ?s = Some (nat_dec n @ ''.0'', ''% packet loss'' @ r)"
    unfolding re_number_def Let_def td using nat_dec_nonempty [of n] by (simp add: is_digit_def)
  moreover have "re_tail (''% packet loss'' @ r)"
    by (simp add: re_tail_def re_space_def)
  ultimately have "re_at ?s = Some (nat_dec n @ ''.0'')" by (simp add: re_at_def)
  then show ?thesis using nat_dec_nonempty [of n] by (cases ?s) auto
qed

lemma ParseFloat_percent: "n \<le> 100 \<Longrightarrow> ParseFloat (nat_dec n @ ''.0'') = Some (of_nat n)"
proof -
  assume n: "n \<le> 100"
  have "list_all (\<lambda>c. c \<noteq> CHR ''.'') (nat_dec n)"
    using nat_dec_no_char [of "CHR ''.''" n] by (auto simp: list_all_iff is_digit_def)
  from takeWhile_all [OF this, of "''.0''"]
  have "dec_value (nat_dec n @ ''.0'') = of_nat (dec_nat (nat_dec n @ ''0'')) / 10"
    by (simp add: dec_value_def)
  also have "dec_nat (nat_dec n @ ''0'') = 10 * n"
    by (simp add: dec_nat_snoc dec_nat_dec digit_val_def)
  finally show ?thesis
    using float_round_int [of "int n"] n by (simp add: ParseFloat_def pow2_def Let_def)
qed

lemma h3c_stats_skip: "\<forall>l\<in>set pre. re_find l = None \<Longrightarrow> h3c_stats (pre @ ls) = h3c_stats ls"
  by (induction pre) auto



end
