(* ===== verification/Zabbix_Sender.thy ===== *)
theory Zabbix_Sender
  imports Aggregator_Proofs Ping_Proofs
begin

text \<open>
  The Zabbix sender (\<open>task/zabbixSenderHandler.go\<close>), the handler that turns result events into
  metrics. The sender library is the argument \<open>send\<close>: the two responses and the error of
  \<open>SendMetrics\<close>. The clock of a metric is \<open>Timestamp.Unix()\<close>, the seconds since 1970.
\<close>

record ZabbixSenderConfig =
  zc_ProxyIP :: string
  zc_ProxyPort :: string
  zc_ConnectionTimeout :: duration
  zc_ReadTimeout :: duration
  zc_WriteTimeout :: duration
  zc_PoolSize :: int

definition SetDefaults :: "ZabbixSenderConfig \<Rightarrow> ZabbixSenderConfig" where
  "SetDefaults c = (let
     c1 = (if zc_ConnectionTimeout c = 0 then c\<lparr>zc_ConnectionTimeout := 5 * Second\<rparr> else c);
     c2 = (if zc_ReadTimeout c1 = 0 then c1\<lparr>zc_ReadTimeout := 15 * Second\<rparr> else c1)
     in if zc_WriteTimeout c2 = 0 then c2\<lparr>zc_WriteTimeout := 5 * Second\<rparr> else c2)"

text \<open>\<open>net.JoinHostPort\<close> puts a host with a colon in brackets.\<close>

definition JoinHostPort :: "string \<Rightarrow> string \<Rightarrow> string" where
  "JoinHostPort host port = (if CHR '':'' \<in> set host then ''['' @ host @ '']:'' @ port
     else host @ '':'' @ port)"

record ZabbixSenderHandler =
  z_config :: ZabbixSenderConfig
  z_serverAddr :: string
  z_stopped :: bool

definition NewZabbixSenderHandler :: "ZabbixSenderConfig \<Rightarrow> ZabbixSenderHandler" where
  "NewZabbixSenderHandler config = (let c = SetDefaults config in
     \<lparr>z_config = c, z_serverAddr = JoinHostPort (zc_ProxyIP c) (zc_ProxyPort c), z_stopped = False\<rparr>)"

text \<open>\<open>Close\<close> closes the stop channel; a second call would close it again and panics (\<open>None\<close>).\<close>

definition Handler_Close :: "ZabbixSenderHandler \<Rightarrow> ZabbixSenderHandler option" where
  "Handler_Close h = (if z_stopped h then None else Some (h\<lparr>z_stopped := True\<rparr>))"

definition TestConnection :: "string option \<Rightarrow> string option" where
  "TestConnection sendErr = map_option (\<lambda>e. ''connection test failed: '' @ e) sendErr"

text \<open>\<open>WarmupPool\<close> dials \<open>PoolSize\<close> connections (\<open>dial i\<close> tells whether the \<open>i\<close>-th succeeds) and closes
  each of them when it returns. The result is the error, the opened and the closed ones.\<close>

definition WarmupPool :: "(nat \<Rightarrow> bool) \<Rightarrow> ZabbixSenderHandler \<Rightarrow> string option \<times> nat list \<times> nat list" where
  "WarmupPool dial h = (let conns = filter dial [0..<nat (zc_PoolSize (z_config h))] in
     (if length conns > 0 then None else Some ''failed to pre-warm connections'', conns, conns))"

section \<open>Metrics\<close>

abbreviation StatusMissingStatusField :: string where "StatusMissingStatusField \<equiv> ''MissingStatusField''"
abbreviation StatusPacketLossOutOfRange :: string where "StatusPacketLossOutOfRange \<equiv> ''PacketLossOutOfRange''"
abbreviation StatusInvalidPacketLossData :: string where "StatusInvalidPacketLossData \<equiv> ''InvalidPacketLossData''"

abbreviation ping_key :: string where "ping_key \<equiv> ''dedicatedLinePing''"
abbreviation error_key :: string where "error_key \<equiv> ''dedicatedLineErrorDetail''"

record Metric =
  mt_Host :: string
  mt_Key :: string
  mt_Value :: string
  mt_Clock :: int
  mt_Active :: bool

definition Unix :: "gtime \<Rightarrow> int" where
  "Unix t = t div Second - 62135596800"

definition new_metric :: "ResultEvent \<Rightarrow> string \<Rightarrow> string \<Rightarrow> Metric" where
  "new_metric e key v = \<lparr>mt_Host = e_IP e, mt_Key = key, mt_Value = v,
     mt_Clock = Unix (e_Timestamp e), mt_Active = False\<rparr>"

definition event_metric :: "ResultEvent \<Rightarrow> Metric" where
  "event_metric e = (case as_string (e_Data e ''status'') of
     None \<Rightarrow> new_metric e error_key StatusMissingStatusField
   | Some status \<Rightarrow>
       if status = StatusCheckFinished
       then (case as_int (e_Data e ''packet_loss'') of
           Some v \<Rightarrow> if 0 \<le> v \<and> v \<le> 100 then new_metric e ping_key (Itoa v)
             else new_metric e error_key StatusPacketLossOutOfRange
         | None \<Rightarrow> new_metric e error_key StatusInvalidPacketLossData)
       else new_metric e error_key status)"

record Response =
  rs_Response :: string
  rs_Info :: string

type_synonym sender = "Metric list \<Rightarrow> Response \<times> Response \<times> string option"

text \<open>The failed responses, reported for the kinds of metrics that were sent.\<close>

definition failed_details :: "Metric list \<Rightarrow> Response \<Rightarrow> Response \<Rightarrow> string list" where
  "failed_details metrics resActive resTrapper = (let
     activeCount = length (filter mt_Active metrics);
     trapperCount = length (filter (\<lambda>m. \<not> mt_Active m) metrics) in
     (if activeCount > 0 \<and> rs_Response resActive \<noteq> ''success''
      then [''active: '' @ rs_Response resActive @ '' - '' @ rs_Info resActive] else [])
     @ (if trapperCount > 0 \<and> rs_Response resTrapper \<noteq> ''success''
        then [''trapper: '' @ rs_Response resTrapper @ '' - '' @ rs_Info resTrapper] else []))"

text \<open>\<open>HandleResult\<close>: what is sent, if anything, and the error returned.\<close>

definition HandleResult :: "sender \<Rightarrow> ZabbixSenderHandler \<Rightarrow> ResultEvent list \<Rightarrow> Metric list option \<times> string option" where
  "HandleResult send h events =
    (if length events = 0 then (None, None)
     else let metrics = map event_metric events in
       if length metrics = 0 then (None, None)
       else let (resActive, resTrapper, err) = send metrics in
         (Some metrics,
          case err of
            Some e \<Rightarrow> Some (''zabbix send failed: '' @ e @ '' (events='' @ Itoa (int (length events))
              @ '', server='' @ z_serverAddr h @ '')'')
          | None \<Rightarrow> (let failed = failed_details metrics resActive resTrapper in
              if length failed > 0
              then Some (''zabbix server reported failures: ['' @ Join failed '' '' @ '']'')
              else None)))"

text \<open>As a handler of the aggregator it always returns: \<open>SendMetrics\<close> has read and write timeouts.\<close>

definition sender_handler :: "sender \<Rightarrow> ZabbixSenderHandler \<Rightarrow> handler" where
  "sender_handler send h events = Returned (snd (HandleResult send h events))"

text \<open>The handlers the main program registers, in its order.\<close>

definition main_handlers :: "sender \<Rightarrow> ZabbixSenderHandler \<Rightarrow> handler list" where
  "main_handlers send h = [LogHandler_HandleResult, MetricsHandler_HandleResult, sender_handler send h]"

definition main_aggregator :: "sender \<Rightarrow> ZabbixSenderHandler \<Rightarrow> Aggregator" where
  "main_aggregator send h = started (main_handlers send h) 5 100"

interpretation main_agg: returning_handlers "main_handlers send h" for send h
  by unfold_locales
    (auto simp: main_handlers_def sender_handler_def LogHandler_HandleResult_def MetricsHandler_HandleResult_def)

section \<open>Properties\<close>

lemma event_metric_fields [simp]:
  "mt_Host (event_metric e) = e_IP e" "mt_Clock (event_metric e) = Unix (e_Timestamp e)"
  "\<not> mt_Active (event_metric e)"
  by (simp_all add: event_metric_def new_metric_def split: option.split)

lemma Itoa_inj: "Itoa a = Itoa b \<Longrightarrow> min_int64 \<le> a \<Longrightarrow> a \<le> max_int64 \<Longrightarrow> min_int64 \<le> b \<Longrightarrow> b \<le> max_int64 \<Longrightarrow> a = b"
  by (metis Atoi_Itoa option.inject)


definition loss_event :: ResultEvent where
  "loss_event = sample_event\<lparr>e_Data := [''status'' \<mapsto> VString StatusCheckFinished, ''packet_loss'' \<mapsto> VInt 40]\<rparr>"

definition ok_sender :: sender where
  "ok_sender metrics = (\<lparr>rs_Response = [], rs_Info = []\<rparr>, \<lparr>rs_Response = ''success'', rs_Info = []\<rparr>, None)"

definition sample_handler :: ZabbixSenderHandler where
  "sample_handler = NewZabbixSenderHandler \<lparr>zc_ProxyIP = ''10.0.0.9'', zc_ProxyPort = ''10051'',
     zc_ConnectionTimeout = 0, zc_ReadTimeout = 0, zc_WriteTimeout = 0, zc_PoolSize = 2\<rparr>"


text \<open>C25: The aggregator of the main program, with the log, metrics and Zabbix handlers: from every
  state after \<open>Stop\<close> was called it can finish without another submission, and then the Zabbix
  handler was given every accepted event once, except those left in the channel.\<close>

theorem main_Stop_delivers:
  assumes "agg_run (main_aggregator send h) acc calls a" "a_stopped a"
  shows "\<exists>calls' a'. agg_run (main_aggregator send h) acc calls' a' \<and> stopper a' = TDone
    \<and> mset acc = mset (given 2 calls') + mset (a_eventChan a')"
proof -
  note run = assms(1) [unfolded main_aggregator_def]
  obtain calls' a' where r: "agg_run (started (main_handlers send h) 5 100) acc calls' a'" "stopper a' = TDone"
    using main_agg.Stop_can_finish [OF run assms(2)] by blast
  have "mset acc = mset (given 2 calls') + mset (a_eventChan a')"
    using pending_run [OF r(1), of 2] pending_stopped [OF _ _ r(2), of 2] agg_run_inv [OF r(1)]
    by (simp add: main_handlers_def)
  with r show ?thesis unfolding main_aggregator_def by blast
qed

theorem main_Stop_delivers_witness:
  "\<exists>acc calls' a'. agg_run (main_aggregator ok_sender sample_handler) acc calls' a' \<and> length acc = 1
    \<and> stopper a' = TDone \<and> mset acc = mset (given 2 calls') + mset (a_eventChan a')"
proof -
  have "case agg_exec [Submission True loss_event, Step 6 0] ([], [], main_aggregator ok_sender sample_handler)
      of None \<Rightarrow> False | Some (acc, calls, a) \<Rightarrow> length acc = 1 \<and> a_stopped a" by code_simp
  then obtain acc calls a where r: "agg_run (main_aggregator ok_sender sample_handler) acc calls a"
      "length acc = 1 \<and> a_stopped a" by (rule agg_exec_witness)
  then show ?thesis using main_Stop_delivers [OF r(1)] by blast
qed

end
