(* ===== verification/Executor.thy ===== *)
theory Executor
  imports Ping_Proofs
begin

text \<open>
  The task executor and its middlewares (\<open>task/executor.go\<close>). A task is the record of its three
  methods. The outside world is a type \<open>'w\<close> that the driver, the clock and waiting change, so two
  attempts of the same task may end differently; the context of a call is its deadline, if any.
  \<open>math.Pow\<close> is taken to be the correctly rounded power.
\<close>

abbreviation StatusCheckTimeout :: string where "StatusCheckTimeout \<equiv> ''CheckTimeout''"
abbreviation StatusConnectionError :: string where "StatusConnectionError \<equiv> ''ConnectionError''"
abbreviation StatusExecutionError :: string where "StatusExecutionError \<equiv> ''ExecutionError''"

record task_methods =
  t_ValidateParams :: "gmap \<Rightarrow> string option"
  t_BuildCommand :: "TaskContext \<Rightarrow> string + Command"
  t_ParseOutput :: "TaskContext \<Rightarrow> gvalue \<Rightarrow> Result \<times> string option"

definition PingTask_methods :: task_methods where
  "PingTask_methods = \<lparr>t_ValidateParams = ValidateParams, t_BuildCommand = BuildCommand, t_ParseOutput = ParseOutput\<rparr>"

text \<open>\<open>w_wait\<close> is the \<open>select\<close> between the end of the context and a delay; it tells which came first.\<close>

record 'w world =
  w_clock :: "'w \<Rightarrow> gtime"
  w_cancelled :: "'w \<Rightarrow> bool"
  w_sleep :: "duration \<Rightarrow> 'w \<Rightarrow> 'w"
  w_wait :: "gtime option \<Rightarrow> duration \<Rightarrow> 'w \<Rightarrow> bool \<times> 'w"

record 'w driver =
  dr_GetCapability :: ProtocolCapability
  dr_Execute :: "gtime option \<Rightarrow> Command \<Rightarrow> 'w \<Rightarrow> (string + string) \<times> 'w"

type_synonym outcome = "Result \<times> string option"
type_synonym 'w exec = "gtime option \<Rightarrow> TaskContext \<Rightarrow> 'w \<Rightarrow> outcome \<times> 'w"

definition zero_result :: Result where
  "zero_result = \<lparr>res_Success = False, res_Data = Map.empty, res_Error = []\<rparr>"

definition failure :: "string \<Rightarrow> string \<Rightarrow> outcome" where
  "failure status err = (\<lparr>res_Success = False, res_Data = [''status'' \<mapsto> VString status], res_Error = err\<rparr>, Some err)"

definition validateCapability :: "ProtocolCapability \<Rightarrow> TaskContext \<Rightarrow> string option" where
  "validateCapability caps ctx =
    (if tc_Platform ctx \<notin> set (pc_PlatformSupport caps)
     then Some (''platform '' @ tc_Platform ctx @ '' not supported (supported: ['' @ Join (pc_PlatformSupport caps) '' '' @ ''])'')
     else if \<not> SupportsCommandType caps (tc_CommandType ctx)
     then Some (''command type '' @ tc_CommandType ctx @ '' not supported'')
     else None)"

definition deadline_exceeded :: "'w world \<Rightarrow> gtime option \<Rightarrow> 'w \<Rightarrow> bool" where
  "deadline_exceeded W dl w = (case dl of None \<Rightarrow> False | Some t \<Rightarrow> \<not> w_cancelled W w \<and> t \<le> w_clock W w)"

text \<open>The status of a failed execution: the deadline first, then words of the error message.\<close>

definition error_status :: "'w world \<Rightarrow> gtime option \<Rightarrow> 'w \<Rightarrow> string \<Rightarrow> string" where
  "error_status W dl w err =
    (if deadline_exceeded W dl w then StatusCheckTimeout
     else if Contains (ToLower err) ''connection'' \<or> Contains (ToLower err) ''connect''
       \<or> Contains (ToLower err) ''timeout'' then StatusConnectionError
     else StatusExecutionError)"

definition default_status :: "string \<Rightarrow> Result \<Rightarrow> Result" where
  "default_status s r = (case res_Data r ''status'' of
     Some _ \<Rightarrow> r | None \<Rightarrow> r\<lparr>res_Data := (res_Data r)(''status'' \<mapsto> VString s)\<rparr>)"

text \<open>The core function that \<open>NewExecutor\<close> wraps in the middlewares.\<close>

definition executor_core :: "'w world \<Rightarrow> 'w driver \<Rightarrow> task_methods \<Rightarrow> 'w exec" where
  "executor_core W conn task dl ctx w =
    (case t_ValidateParams task (tc_Params ctx) of
       Some err \<Rightarrow> (failure StatusExecutionError err, w)
     | None \<Rightarrow> (case validateCapability (dr_GetCapability conn) ctx of
         Some err \<Rightarrow> (failure StatusConnectionError err, w)
       | None \<Rightarrow> (case t_BuildCommand task ctx of
           Inl err \<Rightarrow> (failure StatusExecutionError err, w)
         | Inr cmd \<Rightarrow>
             if cmd_Payload cmd = POther then (failure StatusExecutionError ''unsupported payload type'', w)
             else (case dr_Execute conn dl cmd w of
                 (Inl err, w1) \<Rightarrow> (failure (error_status W dl w1 err) err, w1)
               | (Inr raw, w1) \<Rightarrow> (case t_ParseOutput task ctx (VBytes raw) of
                     (r, Some err) \<Rightarrow> ((default_status StatusParseFailed r, Some err), w1)
                   | (r, None) \<Rightarrow> ((r, None), w1))))))"

text \<open>\<open>coreExecute\<close>, the method of the same purpose: no validation, a nil driver is an error, and a
  status is supplied for successful and failed results too.\<close>

definition coreExecute :: "'w world \<Rightarrow> 'w driver option \<Rightarrow> task_methods \<Rightarrow> 'w exec" where
  "coreExecute W conn task dl ctx w =
    (case conn of
       None \<Rightarrow> ((zero_result\<lparr>res_Error := ''connection driver is nil''\<rparr>, Some ''connection driver is nil''), w)
     | Some conn \<Rightarrow> (case t_BuildCommand task ctx of
         Inl err \<Rightarrow> (failure StatusExecutionError err, w)
       | Inr cmd \<Rightarrow>
           if cmd_Payload cmd = POther then (failure StatusExecutionError ''unsupported payload type'', w)
           else (case dr_Execute conn dl cmd w of
               (Inl err, w1) \<Rightarrow> (failure (error_status W dl w1 err) err, w1)
             | (Inr raw, w1) \<Rightarrow> (case t_ParseOutput task ctx (VBytes raw) of
                   (r, Some err) \<Rightarrow> ((default_status StatusParseFailed r, Some err), w1)
                 | (r, None) \<Rightarrow> ((default_status (if res_Success r then StatusCheckFinished else StatusExecutionError) r, None), w1)))))"

section \<open>Middlewares\<close>

type_synonym 'w middleware = "'w exec \<Rightarrow> 'w exec"

text \<open>\<open>NewExecutor\<close>: the first middleware of the list is the outermost.\<close>

definition NewExecutor :: "'w exec \<Rightarrow> 'w middleware list \<Rightarrow> 'w exec" where
  "NewExecutor core mws = foldr (\<lambda>m f. m f) mws core"

text \<open>\<open>context.WithTimeout\<close> never moves a deadline of the parent further away.\<close>

definition with_deadline :: "gtime option \<Rightarrow> gtime \<Rightarrow> gtime" where
  "with_deadline parent t = (case parent of None \<Rightarrow> t | Some p \<Rightarrow> min p t)"

definition WithTimeout :: "'w world \<Rightarrow> duration \<Rightarrow> 'w middleware" where
  "WithTimeout W d next dl ctx w = next (Some (with_deadline dl (w_clock W w + d))) ctx w"

definition WithSmartTimeout :: "'w world \<Rightarrow> duration \<Rightarrow> 'w middleware" where
  "WithSmartTimeout W defaultTimeout next dl ctx w =
    (let timeout = (if defaultTimeout = 0 then 60 * Second else defaultTimeout)
     in next (Some (with_deadline dl (w_clock W w + timeout))) ctx w)"

definition succeeded :: "outcome \<Rightarrow> bool" where
  "succeeded r \<longleftrightarrow> snd r = None \<and> res_Success (fst r)"

text \<open>The retry loops count the attempts that remain; \<open>r0\<close> is the last result so far.\<close>

fun retry_loop :: "'w world \<Rightarrow> duration \<Rightarrow> ('w \<Rightarrow> outcome \<times> 'w) \<Rightarrow> nat \<Rightarrow> outcome \<Rightarrow> 'w \<Rightarrow> outcome \<times> 'w" where
  "retry_loop W delay next 0 r0 w = (r0, w)"
| "retry_loop W delay next (Suc n) r0 w = (let (r, w1) = next w in
     if succeeded r then (r, w1)
     else retry_loop W delay next n r (if n > 0 then w_sleep W delay w1 else w1))"

definition WithRetry :: "'w world \<Rightarrow> int \<Rightarrow> duration \<Rightarrow> 'w middleware" where
  "WithRetry W maxRetries delay next dl ctx w =
     retry_loop W delay (next dl ctx) (nat (1 + maxRetries)) (zero_result, None) w"

definition backoff_delay :: "duration \<Rightarrow> rat \<Rightarrow> nat \<Rightarrow> duration" where
  "backoff_delay base factor attempt =
     Duration_of_float (float_round (float_round (of_int base) * float_round (factor ^ attempt)))"

fun backoff_loop :: "'w world \<Rightarrow> duration \<Rightarrow> rat \<Rightarrow> gtime option \<Rightarrow> ('w \<Rightarrow> outcome \<times> 'w) \<Rightarrow> nat \<Rightarrow> nat
    \<Rightarrow> outcome \<Rightarrow> 'w \<Rightarrow> outcome \<times> 'w" where
  "backoff_loop W base factor dl next attempt 0 r0 w = (r0, w)"
| "backoff_loop W base factor dl next attempt (Suc n) r0 w = (let (r, w1) = next w in
     if succeeded r then (r, w1)
     else if n = 0 then (r, w1)
     else (case w_wait W dl (backoff_delay base factor attempt) w1 of
         (True, w2) \<Rightarrow> (r, w2)
       | (False, w2) \<Rightarrow> backoff_loop W base factor dl next (Suc attempt) n r w2))"

definition WithExponentialRetry :: "'w world \<Rightarrow> int \<Rightarrow> duration \<Rightarrow> rat \<Rightarrow> 'w middleware" where
  "WithExponentialRetry W maxRetries baseDelay backoffFactor next dl ctx w =
     backoff_loop W baseDelay backoffFactor dl (next dl ctx) 0 (nat (1 + maxRetries)) (zero_result, None) w"

text \<open>Logging and metrics only observe the outcome.\<close>

definition WithLogging :: "(string \<Rightarrow> 'w \<Rightarrow> 'w) \<Rightarrow> 'w middleware" where
  "WithLogging logger next dl ctx w = (let (r, w1) = next dl ctx (logger ''INFO'' w)
     in (r, logger (if snd r \<noteq> None then ''ERROR'' else if res_Success (fst r) then ''INFO'' else ''WARN'') w1))"

definition WithMetrics :: "(TaskType \<Rightarrow> Platform \<Rightarrow> bool \<Rightarrow> 'w \<Rightarrow> 'w) \<Rightarrow> 'w middleware" where
  "WithMetrics collector next dl ctx w = (let (r, w1) = next dl ctx w
     in (r, collector (tc_TaskType ctx) (tc_Platform ctx) (succeeded r) w1))"

text \<open>The executor of a router's scheduler: one timeout around all attempts.\<close>

definition scheduler_executor ::
  "'w world \<Rightarrow> 'w driver \<Rightarrow> task_methods \<Rightarrow> EnhancedConnectionConfig \<Rightarrow> 'w exec" where
  "scheduler_executor W conn task c = NewExecutor (executor_core W conn task)
     [WithSmartTimeout W (TaskTimeout c),
      WithExponentialRetry W (TaskMaxRetries c) (TaskRetryInterval c) (TaskBackoffFactor c)]"

section \<open>Attempts\<close>

text \<open>The outcomes of successive attempts with nothing but \<open>pause\<close> between them, and how many of
  them are made: up to the first success, at most \<open>n\<close>.\<close>

fun attempts :: "('w \<Rightarrow> outcome \<times> 'w) \<Rightarrow> ('w \<Rightarrow> 'w) \<Rightarrow> nat \<Rightarrow> 'w \<Rightarrow> outcome list" where
  "attempts next pause 0 w = []"
| "attempts next pause (Suc n) w = (let (r, w1) = next w in
     r # (if succeeded r then [] else attempts next pause n (pause w1)))"

lemma attempts_length: "length (attempts next pause n w) \<le> n"
  by (induction n arbitrary: w) (auto simp: Let_def split: prod.split)

lemma attempts_last_only:
  "r \<in> set (butlast (attempts next pause n w)) \<Longrightarrow> \<not> succeeded r"
  by (induction n arbitrary: w) (auto simp: Let_def split: prod.splits if_splits)

lemma attempts_nonempty: "0 < n \<Longrightarrow> attempts next pause n w \<noteq> []"
  by (cases n) (auto simp: Let_def split: prod.split)

lemma attempts_full:
  "\<not> succeeded (last (attempts next pause n w)) \<Longrightarrow> 0 < n \<Longrightarrow> length (attempts next pause n w) = n"
proof (induction n arbitrary: w)
  case (Suc n)
  obtain r w1 where r: "next w = (r, w1)" by fastforce
  show ?case
  proof (cases "n = 0 \<or> succeeded r")
    case True
    with Suc.prems r show ?thesis by auto
  next
    case False
    then have "attempts next pause n (pause w1) \<noteq> []" by (simp add: attempts_nonempty)
    with False Suc.prems Suc.IH [of "pause w1"] r show ?thesis by simp
  qed
qed simp

lemma retry_loop_attempts:
  "0 < n \<Longrightarrow> fst (retry_loop W delay next n r w) = last (attempts next (w_sleep W delay) n w)"
proof (induction n arbitrary: r w)
  case (Suc n)
  then show ?case by (cases n) (auto simp: Let_def split: prod.split)
qed simp

text \<open>The retry middleware makes at most one attempt more than the allowed retries; no attempt
  but the last one succeeded, all of them are used before it gives up, and it returns the outcome
  of the last one. With a negative number of retries nothing is executed at all and the zero
  result comes back without an error.\<close>

theorem WithRetry_spec:
  "(if maxRetries < 0
    then WithRetry W maxRetries delay next dl ctx w = ((zero_result, None), w)
    else let rs = attempts (next dl ctx) (w_sleep W delay) (nat (1 + maxRetries)) w in
      fst (WithRetry W maxRetries delay next dl ctx w) = last rs
    \<and> rs \<noteq> [] \<and> int (length rs) \<le> 1 + maxRetries
    \<and> list_all (\<lambda>r. \<not> succeeded r) (butlast rs)
    \<and> (succeeded (last rs) \<or> int (length rs) = 1 + maxRetries))"
proof (cases "maxRetries < 0")
  case False
  let ?n = "nat (1 + maxRetries)"
  let ?rs = "attempts (next dl ctx) (w_sleep W delay) ?n w"
  have n: "0 < ?n" using False by simp
  have "length ?rs \<le> ?n" by (rule attempts_length)
  moreover have "succeeded (last ?rs) \<or> length ?rs = ?n" using attempts_full [OF _ n, of "next dl ctx" "w_sleep W delay" w] by blast
  moreover have "list_all (\<lambda>r. \<not> succeeded r) (butlast ?rs)"
    using attempts_last_only [of _ "next dl ctx" "w_sleep W delay" ?n w] by (simp add: list_all_iff)
  ultimately show ?thesis
    using False attempts_nonempty [OF n, of "next dl ctx" "w_sleep W delay" w]
    by (auto simp: WithRetry_def retry_loop_attempts [OF n] Let_def)
qed (simp add: WithRetry_def)

section \<open>Statuses\<close>

definition executor_statuses :: "string list" where
  "executor_statuses = [StatusCheckFinished, StatusCheckTimeout, StatusParseFailed,
     StatusConnectionError, StatusExecutionError]"

text \<open>An outcome whose status is one of these, and says finished exactly for a success.\<close>

definition reported :: "outcome \<Rightarrow> bool" where
  "reported r \<longleftrightarrow> (\<exists>s. res_Data (fst r) ''status'' = Some (VString s) \<and> s \<in> set executor_statuses
     \<and> (s = StatusCheckFinished \<longleftrightarrow> res_Success (fst r)))"

lemma reported_failure:
  "status \<in> {StatusCheckTimeout, StatusConnectionError, StatusExecutionError} \<Longrightarrow> reported (failure status err)"
  by (auto simp: reported_def failure_def executor_statuses_def)

lemma error_status_range:
  "error_status W dl w err \<in> {StatusCheckTimeout, StatusConnectionError, StatusExecutionError}"
  by (simp add: error_status_def)

lemma default_status_parsed [simp]:
  "default_status s (fst (ParseOutput ctx raw)) = fst (ParseOutput ctx raw)"
  using parse_report [of ctx raw] by (simp add: report_ok_def default_status_def)

lemma reported_parse: "reported (ParseOutput ctx raw)"
  using parse_report [of ctx raw] by (auto simp: report_ok_def reported_def executor_statuses_def split: if_splits)

lemma ping_core_parse:
  "(case ParseOutput ctx raw of (r, Some err) \<Rightarrow> ((default_status s r, Some err), w1)
      | (r, None) \<Rightarrow> ((r, None), w1)) = (ParseOutput ctx raw, w1)"
  using default_status_parsed [of s ctx raw] by (cases "ParseOutput ctx raw") (auto split: option.split)

lemma ping_core_reported: "reported (fst (executor_core W conn PingTask_methods dl ctx w))"
  unfolding executor_core_def
  by (auto simp: PingTask_methods_def ping_core_parse reported_parse
      intro: reported_failure reported_failure [OF error_status_range] split: option.split sum.split prod.split)

lemma backoff_outcome:
  "0 < n \<Longrightarrow> \<exists>w'. fst (backoff_loop W base factor dl next attempt n r0 w) = fst (next w')"
proof (induction n arbitrary: attempt r0 w)
  case (Suc n)
  obtain r w1 where r: "next w = (r, w1)" by fastforce
  show ?case
  proof (cases "succeeded r \<or> n = 0")
    case True
    then show ?thesis using r by (intro exI [of _ w]) auto
  next
    case False
    obtain b w2 where b: "w_wait W dl (backoff_delay base factor attempt) w1 = (b, w2)" by fastforce
    show ?thesis
    proof (cases b)
      case True
      with False r b show ?thesis by (intro exI [of _ w]) simp
    next
      case F: False
      with False r b Suc.IH [of "Suc attempt" r w2] show ?thesis by simp
    qed
  qed
qed simp

lemma scheduler_ping_reported:
  "0 \<le> TaskMaxRetries c \<Longrightarrow> reported (fst (scheduler_executor W conn PingTask_methods c dl ctx w))"
proof -
  assume "0 \<le> TaskMaxRetries c"
  then have n: "0 < nat (1 + TaskMaxRetries c)" by simp
  have "reported (fst (WithExponentialRetry W (TaskMaxRetries c) (TaskRetryInterval c) (TaskBackoffFactor c)
      (executor_core W conn PingTask_methods) dl' ctx w))" for dl'
    unfolding WithExponentialRetry_def
    using backoff_outcome [OF n, of W "TaskRetryInterval c" "TaskBackoffFactor c" dl' "executor_core W conn PingTask_methods dl' ctx" 0 "(zero_result, None)" w]
      ping_core_reported by metis
  then show ?thesis by (simp add: scheduler_executor_def NewExecutor_def WithSmartTimeout_def Let_def)
qed

end
