(* ===== verification/Async_Executor.thy ===== *)
theory Async_Executor
  imports Aggregator
begin

text \<open>
  The asynchronous executor of a router (\<open>task/async_executor.go\<close>): a bounded channel of task
  requests and a pool of workers. \<open>'r\<close> is a request; running one executes the task and then its
  callback, whose panic is recovered. As in the aggregator, goroutines are threads with a program
  point and every interleaving is a run.
\<close>

datatype 'r athread = is_AIdle: AIdle | ARun 'r | is_ADone: ADone

lemmas athread_points [simp] = is_AIdle_def is_ADone_def

datatype stop_phase = NotStopped | StopClosed | StopWaiting | Stopped

record 'r AsyncExecutor =
  x_taskChan :: "'r list"
  x_chan_closed :: bool
  x_workers :: nat
  x_stopChan_closed :: bool
  x_cancelled :: bool
  x_threads :: "'r athread list"
  x_phase :: stop_phase

definition NewAsyncExecutor :: "nat \<Rightarrow> 'r AsyncExecutor" where
  "NewAsyncExecutor workers = \<lparr>x_taskChan = [], x_chan_closed = False, x_workers = workers,
     x_stopChan_closed = False, x_cancelled = False, x_threads = [], x_phase = NotStopped\<rparr>"

definition AsyncExecutor_Start :: "'r AsyncExecutor \<Rightarrow> 'r AsyncExecutor" where
  "AsyncExecutor_Start x = x\<lparr>x_threads := replicate (x_workers x) AIdle\<rparr>"

definition task_cap :: "'r AsyncExecutor \<Rightarrow> nat" where
  "task_cap x = x_workers x * 10"

datatype task_submitted = TaskAccepted | TaskCancelled | TaskQueueFull | TaskTimeout_Err | NilConnection | TaskPanic

definition AsyncExecutor_Submit ::
  "bool \<Rightarrow> bool \<Rightarrow> 'r \<Rightarrow> 'r AsyncExecutor \<Rightarrow> task_submitted \<times> 'r AsyncExecutor" where
  "AsyncExecutor_Submit conn_nil pick r x =
    (if conn_nil then (NilConnection, x)
     else if (x_chan_closed x \<or> length (x_taskChan x) < task_cap x) \<and> (\<not> x_cancelled x \<or> pick)
     then if x_chan_closed x then (TaskPanic, x)
       else (TaskAccepted, x\<lparr>x_taskChan := x_taskChan x @ [r]\<rparr>)
     else if x_cancelled x then (TaskCancelled, x)
     else (TaskQueueFull, x))"

text \<open>\<open>SubmitWithTimeout\<close> has no default case: it waits until one of its cases is ready (\<open>None\<close> while
  the chosen one is not).\<close>

datatype ready_case = SendCase | TimeoutCase | DoneCase

definition SubmitWithTimeout ::
  "bool \<Rightarrow> ready_case \<Rightarrow> 'r \<Rightarrow> 'r AsyncExecutor \<Rightarrow> (task_submitted \<times> 'r AsyncExecutor) option" where
  "SubmitWithTimeout conn_nil pick r x =
    (if conn_nil then Some (NilConnection, x)
     else case pick of
       SendCase \<Rightarrow> if x_chan_closed x then Some (TaskPanic, x)
         else if length (x_taskChan x) < task_cap x
         then Some (TaskAccepted, x\<lparr>x_taskChan := x_taskChan x @ [r]\<rparr>)
         else None
     | TimeoutCase \<Rightarrow> Some (TaskTimeout_Err, x)
     | DoneCase \<Rightarrow> if x_cancelled x then Some (TaskCancelled, x) else None)"

definition set_athread :: "nat \<Rightarrow> 'r athread \<Rightarrow> 'r AsyncExecutor \<Rightarrow> 'r AsyncExecutor" where
  "set_athread i t x = x\<lparr>x_threads := (x_threads x)[i := t]\<rparr>"

text \<open>\<open>worker\<close> and \<open>processTask\<close>: an idle worker receives, a busy one finishes its request.\<close>

definition worker_step :: "nat \<Rightarrow> 'r AsyncExecutor \<Rightarrow> 'r AsyncExecutor option" where
  "worker_step i x = (if i < length (x_threads x) then (case x_threads x ! i of
       AIdle \<Rightarrow> (case x_taskChan x of
           [] \<Rightarrow> if x_chan_closed x then Some (set_athread i ADone x) else None
         | r # q \<Rightarrow> Some (set_athread i (ARun r) (x\<lparr>x_taskChan := q\<rparr>)))
     | ARun r \<Rightarrow> Some (set_athread i AIdle x)
     | ADone \<Rightarrow> None) else None)"

definition worker_stop :: "nat \<Rightarrow> 'r AsyncExecutor \<Rightarrow> 'r AsyncExecutor option" where
  "worker_stop i x = (if i < length (x_threads x) \<and> is_AIdle (x_threads x ! i) \<and> x_stopChan_closed x
     then Some (set_athread i ADone x) else None)"

definition AsyncExecutor_Stop :: "'r AsyncExecutor \<Rightarrow> 'r AsyncExecutor option" where
  "AsyncExecutor_Stop x = (case x_phase x of
     NotStopped \<Rightarrow> Some (x\<lparr>x_stopChan_closed := True, x_phase := StopClosed\<rparr>)
   | StopClosed \<Rightarrow> Some (x\<lparr>x_cancelled := True, x_phase := StopWaiting\<rparr>)
   | StopWaiting \<Rightarrow> if \<forall>t\<in>set (x_threads x). is_ADone t
       then Some (x\<lparr>x_chan_closed := True, x_phase := Stopped\<rparr>) else None
   | Stopped \<Rightarrow> None)"

datatype 'r async_action = Submits bool bool 'r | Works nat | Stops_worker nat | Stops

definition async_step :: "'r async_action \<Rightarrow> 'r AsyncExecutor \<Rightarrow> 'r AsyncExecutor option" where
  "async_step act x = (case act of
     Submits conn_nil pick r \<Rightarrow> Some (snd (AsyncExecutor_Submit conn_nil pick r x))
   | Works i \<Rightarrow> worker_step i x
   | Stops_worker i \<Rightarrow> worker_stop i x
   | Stops \<Rightarrow> AsyncExecutor_Stop x)"

section \<open>Runs\<close>

definition submitted_by :: "'r async_action \<Rightarrow> 'r AsyncExecutor \<Rightarrow> 'r list" where
  "submitted_by act x = (case act of
     Submits n p r \<Rightarrow> if fst (AsyncExecutor_Submit n p r x) = TaskAccepted then [r] else []
   | _ \<Rightarrow> [])"

definition finished_by :: "'r async_action \<Rightarrow> 'r AsyncExecutor \<Rightarrow> 'r list" where
  "finished_by act x = (case act of
     Works i \<Rightarrow> (case x_threads x ! i of ARun r \<Rightarrow> [r] | _ \<Rightarrow> [])
   | _ \<Rightarrow> [])"

text \<open>\<open>async_run n acc fin x\<close>: started with \<open>n\<close> workers the executor can reach \<open>x\<close> having accepted
  the requests \<open>acc\<close> and called back \<open>fin\<close>.\<close>

inductive async_run :: "nat \<Rightarrow> 'r list \<Rightarrow> 'r list \<Rightarrow> 'r AsyncExecutor \<Rightarrow> bool" where
  async_init: "async_run n [] [] (AsyncExecutor_Start (NewAsyncExecutor n))"
| async_next: "async_run n acc fin x \<Longrightarrow> async_step act x = Some x'
    \<Longrightarrow> async_run n (acc @ submitted_by act x) (fin @ finished_by act x) x'"

fun running :: "'r athread \<Rightarrow> 'r multiset" where
  "running (ARun r) = {#r#}"
| "running _ = {#}"

definition unfinished :: "'r AsyncExecutor \<Rightarrow> 'r multiset" where
  "unfinished x = mset (x_taskChan x) + (\<Sum>t\<in>#mset (x_threads x). running t)"

lemma unfinished_set:
  "i < length (x_threads x) \<Longrightarrow>
    unfinished (set_athread i t x) + running (x_threads x ! i) = unfinished x + running t"
  using sum_mset_list_update [of i "x_threads x" running t]
  by (simp add: unfinished_def set_athread_def ac_simps)

lemma unfinished_upd [simp]:
  "unfinished (x\<lparr>x_stopChan_closed := b, x_phase := p\<rparr>) = unfinished x"
  "unfinished (x\<lparr>x_cancelled := b, x_phase := p\<rparr>) = unfinished x"
  "unfinished (x\<lparr>x_chan_closed := b, x_phase := p\<rparr>) = unfinished x"
  by (simp_all add: unfinished_def)

lemma unfinished_step:
  assumes "async_step act x = Some x'"
  shows "unfinished x' + mset (finished_by act x) = unfinished x + mset (submitted_by act x)"
proof (cases act)
  case (Submits n p r)
  with assms show ?thesis
    by (auto simp: async_step_def AsyncExecutor_Submit_def submitted_by_def finished_by_def unfinished_def)
next
  case (Works i)
  with assms have i: "i < length (x_threads x)" and w: "worker_step i x = Some x'"
    by (auto simp: async_step_def worker_step_def split: if_splits)
  show ?thesis
  proof (cases "x_threads x ! i")
    case AIdle
    show ?thesis
    proof (cases "x_taskChan x")
      case Nil
      then show ?thesis using w i AIdle Works unfinished_set [OF i, of ADone]
        by (simp add: worker_step_def submitted_by_def finished_by_def split: if_splits)
    next
      case (Cons r q)
      then have "x' = set_athread i (ARun r) (x\<lparr>x_taskChan := q\<rparr>)" using w i AIdle by (simp add: worker_step_def)
      then show ?thesis using Cons i AIdle Works unfinished_set [of i "x\<lparr>x_taskChan := q\<rparr>" "ARun r"]
        by (simp add: submitted_by_def finished_by_def) (simp add: unfinished_def)
    qed
  next
    case (ARun r)
    then show ?thesis using w i Works unfinished_set [OF i, of AIdle]
      by (simp add: worker_step_def submitted_by_def finished_by_def)
  qed (use w i in \<open>simp add: worker_step_def\<close>)
next
  case (Stops_worker i)
  with assms show ?thesis using unfinished_set [of i x ADone]
    by (auto simp: async_step_def worker_stop_def submitted_by_def finished_by_def split: if_splits)
next
  case Stops
  with assms show ?thesis
    by (auto simp: async_step_def AsyncExecutor_Stop_def submitted_by_def finished_by_def
        split: stop_phase.splits if_splits)
qed

lemma unfinished_run: "async_run n acc fin x \<Longrightarrow> mset acc = mset fin + unfinished x"
proof (induction rule: async_run.induct)
  case (async_init n)
  have "(\<Sum>t\<in>#replicate_mset n AIdle. running t) = {#}" for n by (induction n) simp_all
  then show ?case by (simp add: unfinished_def AsyncExecutor_Start_def NewAsyncExecutor_def mset_replicate)
next
  case (async_next n acc fin x act x')
  then show ?case using unfinished_step [OF async_next(2)] by (simp add: ac_simps)
qed

lemma sum_running_done: "\<forall>t\<in>set ts. t = ADone \<Longrightarrow> (\<Sum>t\<in>#mset ts. running t) = {#}"
  by (induction ts) auto

lemma done_steps:
  assumes "\<forall>t\<in>set (x_threads x). t = ADone"
  shows "worker_step i x = None" "worker_stop i x = None"
proof -
  have "i < length (x_threads x) \<Longrightarrow> x_threads x ! i = ADone" using assms by simp
  then show "worker_step i x = None" "worker_stop i x = None"
    by (auto simp: worker_step_def worker_stop_def)
qed

definition stopped_inv :: "'r AsyncExecutor \<Rightarrow> bool" where
  "stopped_inv x \<longleftrightarrow> (x_chan_closed x \<longleftrightarrow> x_phase x = Stopped)
     \<and> (x_phase x = Stopped \<longrightarrow> (\<forall>t\<in>set (x_threads x). t = ADone))"

lemma stopped_step:
  assumes "async_step act x = Some x'" "stopped_inv x" "x_phase x = Stopped"
  shows "x' = x \<and> finished_by act x = []"
proof (cases act)
  case (Submits n p r)
  with assms show ?thesis
    by (auto simp: async_step_def AsyncExecutor_Submit_def stopped_inv_def finished_by_def split: if_splits)
qed (use assms in \<open>simp_all add: async_step_def stopped_inv_def done_steps AsyncExecutor_Stop_def\<close>)

lemma running_phase:
  "worker_step i x = Some x' \<Longrightarrow> x_phase x' = x_phase x \<and> x_chan_closed x' = x_chan_closed x"
  "worker_stop i x = Some x' \<Longrightarrow> x_phase x' = x_phase x \<and> x_chan_closed x' = x_chan_closed x"
  by (auto simp: worker_step_def worker_stop_def set_athread_def split: if_splits athread.splits list.splits)

lemma stopped_run: "async_run n acc fin x \<Longrightarrow> stopped_inv x"
proof (induction rule: async_run.induct)
  case (async_init n)
  then show ?case by (simp add: stopped_inv_def AsyncExecutor_Start_def NewAsyncExecutor_def)
next
  case (async_next n acc fin x act x')
  show ?case
  proof (cases "x_phase x = Stopped")
    case True
    with stopped_step [OF async_next(2,3)] async_next(3) show ?thesis by simp
  next
    case False
    with async_next(2,3) running_phase [of _ x x'] show ?thesis
      by (cases act) (auto simp: stopped_inv_def async_step_def AsyncExecutor_Stop_def
          AsyncExecutor_Submit_def split: if_splits stop_phase.splits)
  qed
qed

text \<open>C26: Every accepted request is called back at most once, and until then it waits in the channel
  or runs on one worker. After \<open>Stop\<close> the requests left in the channel are never called back, so
  what their callbacks would release stays taken.\<close>

theorem async_callbacks:
  assumes "async_run n acc fin x"
  shows "mset acc = mset fin + mset (x_taskChan x) + (\<Sum>t\<in>#mset (x_threads x). running t)
    \<and> (x_phase x = Stopped \<longrightarrow> mset acc = mset fin + mset (x_taskChan x)
        \<and> (\<forall>act x'. async_step act x = Some x' \<longrightarrow> finished_by act x = [] \<and> x_taskChan x' = x_taskChan x))"
proof -
  have stopped: "mset acc = mset fin + mset (x_taskChan x)" if "x_phase x = Stopped"
    using unfinished_run [OF assms] stopped_run [OF assms] that
    by (simp add: unfinished_def stopped_inv_def sum_running_done)
  have final: "finished_by act x = [] \<and> x_taskChan x' = x_taskChan x"
    if "x_phase x = Stopped" "async_step act x = Some x'" for act x'
    using stopped_step [OF that(2) stopped_run [OF assms] that(1)] by simp
  from stopped final show ?thesis using unfinished_run [OF assms] by (simp add: unfinished_def ac_simps)
qed

fun async_exec :: "'r async_action list \<Rightarrow> 'r list \<times> 'r list \<times> 'r AsyncExecutor
    \<Rightarrow> ('r list \<times> 'r list \<times> 'r AsyncExecutor) option" where
  "async_exec [] s = Some s"
| "async_exec (act # acts) (acc, fin, x) = (case async_step act x of
     None \<Rightarrow> None
   | Some x' \<Rightarrow> async_exec acts (acc @ submitted_by act x, fin @ finished_by act x, x'))"

lemma async_exec_run:
  "async_exec acts (acc, fin, x) = Some (acc', fin', x') \<Longrightarrow> async_run n acc fin x
    \<Longrightarrow> async_run n acc' fin' x'"
  by (induction acts "(acc, fin, x)" arbitrary: acc fin x rule: async_exec.induct)
    (auto split: option.splits intro: async_next)

theorem async_callbacks_witness:
  "\<exists>x. async_run 1 [1, 2 :: nat] [1] x \<and> x_phase x = Stopped \<and> mset [1, 2] = mset [1] + mset (x_taskChan x)"
proof -
  have "\<exists>x. async_exec [Submits False True 1, Submits False True 2, Works 0, Works 0, Stops, Stops, Stops_worker 0, Stops]
      ([], [], AsyncExecutor_Start (NewAsyncExecutor 1)) = Some ([1, 2 :: nat], [1], x) \<and> x_phase x = Stopped"
    by (simp add: async_step_def AsyncExecutor_Submit_def worker_step_def worker_stop_def AsyncExecutor_Stop_def
        set_athread_def submitted_by_def finished_by_def AsyncExecutor_Start_def NewAsyncExecutor_def task_cap_def)
  then obtain x where r: "async_run 1 [1, 2 :: nat] [1] x" "x_phase x = Stopped"
    using async_exec_run [OF _ async_init] by blast
  with async_callbacks [OF r(1)] show ?thesis by blast
qed

end
