(* ===== verification/Syncer.thy ===== *)
theory Syncer
  imports Lines
begin

text \<open>
  The configuration syncer (\<open>syncer/syncer.go\<close>): the Zabbix answers are turned into lines, changes
  against the previous state into events, and events are sent to the subscribers. The API client
  is the record \<open>client\<close> of the answers it gives. A \<open>range\<close> over a map visits the keys in an order
  given as an argument.
\<close>

record Macro =
  mc_Macro :: string
  mc_Value :: string

record TemplateObject =
  to_TemplateID :: string
  to_Macros :: "Macro list"
  to_ParentTemplates :: "string list"

record HostObject =
  ho_Host :: string
  ho_Macros :: "Macro list"
  ho_ParentTemplates :: "string list"

record client =
  cl_GetProxyFormHost :: "string \<Rightarrow> string + string list"
  cl_HostGet :: "int \<Rightarrow> string + HostObject list"
  cl_UsermacroGet :: "string + Macro list"
  cl_TemplateGet :: "string \<Rightarrow> string + TemplateObject list"

section \<open>Templates and macros\<close>

record TemplateNode =
  tn_ID :: string
  tn_Depth :: nat
  tn_Macros :: "string \<rightharpoonup> string"
  tn_ParentIDs :: "string list"

definition put_macro :: "Macro \<Rightarrow> (string \<rightharpoonup> string) \<Rightarrow> string \<rightharpoonup> string" where
  "put_macro m f = f(mc_Macro m \<mapsto> mc_Value m)"

definition template_node :: "nat \<Rightarrow> TemplateObject \<Rightarrow> TemplateNode" where
  "template_node depth t = \<lparr>tn_ID = to_TemplateID t, tn_Depth = depth,
     tn_Macros = fold put_macro (to_Macros t) Map.empty, tn_ParentIDs = to_ParentTemplates t\<rparr>"

definition get_template :: "client \<Rightarrow> string \<Rightarrow> string + TemplateObject" where
  "get_template c templateID = (case cl_TemplateGet c templateID of
     Inl err \<Rightarrow> Inl (''failed to get template '' @ templateID @ '': '' @ err)
   | Inr ts \<Rightarrow> (case ts of
       [] \<Rightarrow> Inl (''template '' @ templateID @ '' not found'')
     | t # _ \<Rightarrow> Inr t))"

text \<open>
  The recursive closure of \<open>buildTemplateChain\<close> on the chain and the processed identifiers, with
  fuel for the recursion depth (\<open>None\<close> when it runs out).
\<close>

type_synonym chain_state = "TemplateNode list \<times> string set"

fun build :: "nat \<Rightarrow> client \<Rightarrow> string \<Rightarrow> nat \<Rightarrow> chain_state \<Rightarrow> (string + chain_state) option"
  and build_parents :: "nat \<Rightarrow> client \<Rightarrow> string list \<Rightarrow> nat \<Rightarrow> chain_state \<Rightarrow> (string + chain_state) option" where
  "build 0 c templateID depth st = None"
| "build (Suc f) c templateID depth (chain, processed) =
    (if templateID \<in> processed then Some (Inr (chain, processed))
     else case get_template c templateID of
       Inl err \<Rightarrow> Some (Inl err)
     | Inr t \<Rightarrow> build_parents f c (to_ParentTemplates t) (depth + 1)
         (chain @ [template_node depth t], insert templateID processed))"
| "build_parents f c [] depth st = Some (Inr st)"
| "build_parents f c (p # ps) depth st = (case build f c p depth st of
     None \<Rightarrow> None
   | Some (Inl err) \<Rightarrow> Some (Inl err)
   | Some (Inr st') \<Rightarrow> build_parents f c ps depth st')"

definition buildTemplateChain :: "nat \<Rightarrow> client \<Rightarrow> HostObject \<Rightarrow> (string + TemplateNode list) option" where
  "buildTemplateChain f c host = map_option (map_sum id fst)
     (build_parents f c (ho_ParentTemplates host) 1 ([], {}))"

text \<open>
  \<open>mergeMacros\<close>: \<open>sort.Slice\<close> by descending depth leaves the order of equal depths open, so the
  sorted chain is an argument, \<open>depth_sorted\<close> says what it may be. The debug line reads
  \<open>chain[0].Depth\<close>, which panics on an empty chain (\<open>None\<close>).
\<close>

definition depth_sorted :: "TemplateNode list \<Rightarrow> TemplateNode list \<Rightarrow> bool" where
  "depth_sorted chain nodes \<longleftrightarrow> mset nodes = mset chain \<and> sorted_wrt (\<lambda>a b. tn_Depth b \<le> tn_Depth a) nodes"

definition put_node :: "TemplateNode \<Rightarrow> (string \<rightharpoonup> string) \<Rightarrow> string \<rightharpoonup> string" where
  "put_node node f = f ++ tn_Macros node"

definition mergeMacros ::
  "Macro list \<Rightarrow> TemplateNode list \<Rightarrow> Macro list \<Rightarrow> (string \<rightharpoonup> string) option" where
  "mergeMacros globalMacros nodes hostMacros =
    (let m1 = fold put_macro globalMacros Map.empty;
         m2 = fold put_node nodes m1
     in case nodes of [] \<Rightarrow> None | _ \<Rightarrow> Some (fold put_macro hostMacros m2))"

definition parseDurationFromMacro :: "string \<Rightarrow> duration \<Rightarrow> duration" where
  "parseDurationFromMacro v defaultVal =
    (if v = [] then defaultVal
     else case Atoi v of
       None \<Rightarrow> defaultVal
     | Some sec \<Rightarrow> if sec < 0 then defaultVal else wrap64 (sec * Second))"

definition host_line :: "string \<Rightarrow> (string \<rightharpoonup> string) \<Rightarrow> Line" where
  "host_line host macros = (let get = map_get macros [] in ComputeHash
     \<lparr>l_ID = get ''{$LINE_ID}'', l_IP = host,
      l_Interval = parseDurationFromMacro (get ''{$LINE_CHECK_INTERVAL}'') DefaultInterval,
      l_Router = \<lparr>r_IP = get ''{$LINE_ROUTER_IP}'', r_Username = get ''{$LINE_ROUTER_USERNAME}'',
        r_Password = get ''{$LINE_ROUTER_PASSWORD}'', r_Platform = get ''{$LINE_ROUTER_PLATFORM}'',
        r_Protocol = get ''{$LINE_ROUTER_PROTOCOL}''\<rparr>, l_Hash = 0\<rparr>)"

section \<open>Fetching the lines\<close>

record ConfigSyncer =
  cs_proxyName :: string
  cs_proxyID :: int
  cs_lines :: "string \<rightharpoonup> Line"
  cs_version :: int

definition handleProxyId :: "client \<Rightarrow> ConfigSyncer \<Rightarrow> string option \<times> ConfigSyncer" where
  "handleProxyId c cs = (case cl_GetProxyFormHost c (cs_proxyName cs) of
     Inl err \<Rightarrow> (Some (''proxy query failed: '' @ err), cs)
   | Inr [] \<Rightarrow> (Some ''proxy not found'', cs)
   | Inr (p # _) \<Rightarrow> (case Atoi p of
       None \<Rightarrow> (Some ''invalid proxyID'', cs)
     | Some n \<Rightarrow> (None, cs\<lparr>cs_proxyID := n\<rparr>)))"

text \<open>What a call may do besides returning: panic, or recurse deeper than the fuel.\<close>

datatype fetch_result = Fetched "string \<rightharpoonup> Line" | FetchError string | FetchPanic | OutOfFuel

text \<open>\<open>srt\<close> is the permutation \<open>sort.Slice\<close> makes of a chain.\<close>

fun fetch_hosts :: "nat \<Rightarrow> client \<Rightarrow> (TemplateNode list \<Rightarrow> TemplateNode list) \<Rightarrow> Macro list
    \<Rightarrow> HostObject list \<Rightarrow> (string \<rightharpoonup> Line) \<Rightarrow> fetch_result" where
  "fetch_hosts f c srt globalMacros [] lines = Fetched lines"
| "fetch_hosts f c srt globalMacros (h # hs) lines = (case buildTemplateChain f c h of
     None \<Rightarrow> OutOfFuel
   | Some (Inl err) \<Rightarrow> fetch_hosts f c srt globalMacros hs lines
   | Some (Inr chain) \<Rightarrow> (case mergeMacros globalMacros (srt chain) (ho_Macros h) of
       None \<Rightarrow> FetchPanic
     | Some macros \<Rightarrow> fetch_hosts f c srt globalMacros hs
         (lines(ho_Host h \<mapsto> host_line (ho_Host h) macros))))"

definition fetchLines :: "nat \<Rightarrow> client \<Rightarrow> (TemplateNode list \<Rightarrow> TemplateNode list) \<Rightarrow> ConfigSyncer
    \<Rightarrow> fetch_result \<times> ConfigSyncer" where
  "fetchLines f c srt cs = (case (if cs_proxyID cs = 0 then handleProxyId c cs else (None, cs)) of
     (Some err, cs1) \<Rightarrow> (FetchError err, cs1)
   | (None, cs1) \<Rightarrow> (case cl_UsermacroGet c of
       Inl err \<Rightarrow> (FetchError (''failed to fetch global macros: '' @ err), cs1)
     | Inr globalMacros \<Rightarrow> (case cl_HostGet c (cs_proxyID cs1) of
         Inl err \<Rightarrow> (FetchError err, cs1)
       | Inr hosts \<Rightarrow> (fetch_hosts f c srt globalMacros hosts Map.empty, cs1))))"

section \<open>Changes\<close>

definition detect_old :: "(string \<rightharpoonup> Line) \<Rightarrow> (string \<rightharpoonup> Line) \<Rightarrow> string \<Rightarrow> LineChangeEvent list" where
  "detect_old old new ip = (case new ip of
     None \<Rightarrow> [\<lparr>ev_Type = LineDelete, ev_Line = the (old ip), ev_Version = 0\<rparr>]
   | Some l \<Rightarrow> if l_Hash (the (old ip)) \<noteq> l_Hash l
       then [\<lparr>ev_Type = LineUpdate, ev_Line = l, ev_Version = 0\<rparr>] else [])"

definition detect_new :: "(string \<rightharpoonup> Line) \<Rightarrow> (string \<rightharpoonup> Line) \<Rightarrow> string \<Rightarrow> LineChangeEvent list" where
  "detect_new old new ip = (case old ip of
     Some _ \<Rightarrow> [] | None \<Rightarrow> [\<lparr>ev_Type = LineCreate, ev_Line = the (new ip), ev_Version = 0\<rparr>])"

definition detectChanges ::
  "string list \<Rightarrow> string list \<Rightarrow> (string \<rightharpoonup> Line) \<Rightarrow> (string \<rightharpoonup> Line) \<Rightarrow> LineChangeEvent list" where
  "detectChanges old_order new_order old new =
     concat (map (detect_old old new) old_order) @ concat (map (detect_new old new) new_order)"

fun countEvents :: "LineChangeEvent list \<Rightarrow> ChangeType \<Rightarrow> nat" where
  "countEvents [] typ = 0"
| "countEvents (e # es) typ = (if ev_Type e = typ then Suc (countEvents es typ) else countEvents es typ)"

text \<open>\<open>sync\<close> on fetched lines: the events handed to \<open>notifyAll\<close> and the new state.\<close>

definition sync_changes ::
  "string list \<Rightarrow> string list \<Rightarrow> (string \<rightharpoonup> Line) \<Rightarrow> ConfigSyncer \<Rightarrow> LineChangeEvent list \<times> ConfigSyncer" where
  "sync_changes old_order new_order newLines cs = (let
     events = detectChanges old_order new_order (cs_lines cs) newLines;
     events1 = (if length old_order = 0 then filter (\<lambda>e. ev_Type e \<noteq> LineCreate) events else events);
     cs1 = cs\<lparr>cs_lines := newLines, cs_version := cs_version cs + 1\<rparr>
     in (map (\<lambda>e. e\<lparr>ev_Version := cs_version cs1\<rparr>) events1, cs1))"

definition sync ::
  "nat \<Rightarrow> client \<Rightarrow> (TemplateNode list \<Rightarrow> TemplateNode list) \<Rightarrow> ((string \<rightharpoonup> Line) \<Rightarrow> string list) \<Rightarrow> ConfigSyncer
    \<Rightarrow> fetch_result \<times> LineChangeEvent list \<times> ConfigSyncer" where
  "sync f c srt order cs = (case fetchLines f c srt cs of
     (Fetched newLines, cs1) \<Rightarrow>
       (Fetched newLines, sync_changes (order (cs_lines cs1)) (order newLines) newLines cs1)
   | (r, cs1) \<Rightarrow> (r, [], cs1))"

end
