(* ===== verification/Syncer_Proofs.thy ===== *)
theory Syncer_Proofs
  imports Syncer
begin

text \<open>
  The template chain is complete and its construction ends; macro priorities; durations; the
  events of a synchronisation replayed on the old lines give the new ones.
\<close>

section \<open>The template chain\<close>

text \<open>A finite set of templates closed under the parents the server reports.\<close>

definition template_closed :: "client \<Rightarrow> string set \<Rightarrow> bool" where
  "template_closed c S \<longleftrightarrow> finite S
     \<and> (\<forall>i\<in>S. \<forall>t. get_template c i = Inr t \<longrightarrow> set (to_ParentTemplates t) \<subseteq> S)"

text \<open>Templates the recursion reaches from the identifiers it starts with.\<close>

inductive reaches :: "client \<Rightarrow> string set \<Rightarrow> string \<Rightarrow> bool" for c roots where
  root: "i \<in> roots \<Longrightarrow> reaches c roots i"
| parent: "reaches c roots i \<Longrightarrow> get_template c i = Inr t \<Longrightarrow> p \<in> set (to_ParentTemplates t) \<Longrightarrow> reaches c roots p"

definition closed_step :: "client \<Rightarrow> string set \<Rightarrow> string set \<Rightarrow> bool" where
  "closed_step c P P' \<longleftrightarrow> P \<subseteq> P'
     \<and> (\<forall>j\<in>P' - P. \<exists>t. get_template c j = Inr t \<and> set (to_ParentTemplates t) \<subseteq> P')"

definition chain_of :: "client \<Rightarrow> string list \<Rightarrow> TemplateNode list \<Rightarrow> bool" where
  "chain_of c js chain \<longleftrightarrow> list_all2 (\<lambda>j n. \<exists>t d. get_template c j = Inr t \<and> n = template_node d t) js chain"

text \<open>The state before and after: new identifiers are closed under parents and, together with the
  nodes appended to the chain, reachable from the given ones.\<close>

definition chain_step :: "client \<Rightarrow> string set \<Rightarrow> chain_state \<Rightarrow> chain_state \<Rightarrow> bool" where
  "chain_step c roots st st' \<longleftrightarrow> closed_step c (snd st) (snd st')
     \<and> (\<exists>js chain. distinct js \<and> set js = snd st' - snd st \<and> chain_of c js chain
        \<and> fst st' = fst st @ chain \<and> (\<forall>j\<in>set js. reaches c roots j))"

lemma chain_step_refl: "chain_step c roots st st"
  by (auto simp: chain_step_def closed_step_def chain_of_def)

lemma chain_step_trans:
  assumes "chain_step c roots st st1" "chain_step c roots st1 st2"
  shows "chain_step c roots st st2"
proof -
  obtain js1 ch1 where 1: "distinct js1" "set js1 = snd st1 - snd st" "chain_of c js1 ch1"
      "fst st1 = fst st @ ch1" "\<forall>j\<in>set js1. reaches c roots j" "closed_step c (snd st) (snd st1)"
    using assms(1) unfolding chain_step_def by blast
  obtain js2 ch2 where 2: "distinct js2" "set js2 = snd st2 - snd st1" "chain_of c js2 ch2"
      "fst st2 = fst st1 @ ch2" "\<forall>j\<in>set js2. reaches c roots j" "closed_step c (snd st1) (snd st2)"
    using assms(2) unfolding chain_step_def by blast
  have "closed_step c (snd st) (snd st2)"
    using 1(6) 2(6) unfolding closed_step_def by (metis Diff_iff subset_trans)
  moreover have "chain_of c (js1 @ js2) (ch1 @ ch2)"
    using 1(3) 2(3) unfolding chain_of_def by (rule list_all2_appendI)
  moreover have "distinct (js1 @ js2)" "set (js1 @ js2) = snd st2 - snd st"
    using 1(1,2,6) 2(1,2,6) by (auto simp: closed_step_def)
  ultimately show ?thesis
    using 1(4,5) 2(4,5) unfolding chain_step_def
    by (intro conjI exI [of _ "js1 @ js2"] exI [of _ "ch1 @ ch2"]) auto
qed

lemma reaches_roots: "reaches c R i \<Longrightarrow> \<forall>r\<in>R. reaches c R' r \<Longrightarrow> reaches c R' i"
  by (induction rule: reaches.induct) (auto intro: reaches.parent)

lemma chain_step_roots:
  assumes "chain_step c R st st'" "\<forall>r\<in>R. reaches c R' r"
  shows "chain_step c R' st st'"
proof -
  obtain js chain where "distinct js" "set js = snd st' - snd st" "chain_of c js chain"
      "fst st' = fst st @ chain" "\<forall>j\<in>set js. reaches c R j" and s: "closed_step c (snd st) (snd st')"
    using assms(1) unfolding chain_step_def by blast
  then show ?thesis unfolding chain_step_def
    by (intro conjI s exI [of _ js] exI [of _ chain]) (auto intro: reaches_roots [OF _ assms(2)])
qed

lemma closed_step_insert:
  assumes "closed_step c (insert i P) P'" "get_template c i = Inr t" "set (to_ParentTemplates t) \<subseteq> P'"
  shows "closed_step c P P'"
  unfolding closed_step_def
proof (intro conjI ballI)
  show "P \<subseteq> P'" using assms(1) by (auto simp: closed_step_def)
  fix j assume "j \<in> P' - P"
  then show "\<exists>t. get_template c j = Inr t \<and> set (to_ParentTemplates t) \<subseteq> P'"
    using assms by (cases "j = i") (auto simp: closed_step_def)
qed

lemma build_step:
  "build f c i d st = Some (Inr st') \<Longrightarrow> chain_step c {i} st st' \<and> i \<in> snd st'"
  "build_parents f c is d st = Some (Inr st') \<Longrightarrow> chain_step c (set is) st st' \<and> set is \<subseteq> snd st'"
proof (induction f c i d st and f c "is" d st arbitrary: st' and st' rule: build_build_parents.induct)
  case (2 f c i d chain processed)
  show ?case
  proof (cases "i \<in> processed")
    case True
    with 2(2) show ?thesis by (auto simp: chain_step_refl)
  next
    case False
    with 2(2) obtain t where t: "get_template c i = Inr t"
        "build_parents f c (to_ParentTemplates t) (d + 1) (chain @ [template_node d t], insert i processed) = Some (Inr st')"
      by (auto split: sum.splits)
    let ?ps = "set (to_ParentTemplates t)"
    from 2(1) [OF False t] obtain js ch where s: "closed_step c (insert i processed) (snd st')"
        "distinct js" "set js = snd st' - insert i processed" "chain_of c js ch"
        "fst st' = chain @ [template_node d t] @ ch" "\<forall>j\<in>set js. reaches c ?ps j" "?ps \<subseteq> snd st'"
      unfolding chain_step_def by auto
    have "closed_step c processed (snd st')"
      using s(1) t(1) s(7) by (rule closed_step_insert)
    moreover have "chain_of c (i # js) (template_node d t # ch)"
      using s(4) t(1) by (auto simp: chain_of_def)
    moreover have "distinct (i # js)" "set (i # js) = snd st' - processed"
      using s(1,2,3) False by (auto simp: closed_step_def)
    moreover have "\<forall>j\<in>set (i # js). reaches c {i} j"
    proof -
      have "\<forall>r\<in>?ps. reaches c {i} r" using t(1) by (auto intro: reaches.parent reaches.root)
      then show ?thesis using s(6) reaches_roots [of c ?ps _ "{i}"] by (auto intro: reaches.root)
    qed
    ultimately have "chain_step c {i} (chain, processed) st'"
      using s(5) unfolding chain_step_def
      by (intro conjI exI [of _ "i # js"] exI [of _ "template_node d t # ch"]) auto
    then show ?thesis using s(1) by (auto simp: closed_step_def)
  qed
next
  case (4 f c p ps d st)
  then obtain st1 where s: "build f c p d st = Some (Inr st1)" "build_parents f c ps d st1 = Some (Inr st')"
    by (auto split: option.splits sum.splits)
  note a = 4(1) [OF s(1)] and b = 4(2) [OF s(1) refl s(2)]
  have "chain_step c (set (p # ps)) st st1"
    using a by (auto intro!: chain_step_roots [of c "{p}"] reaches.root)
  moreover have "chain_step c (set (p # ps)) st1 st'"
    using b by (auto intro!: chain_step_roots [of c "set ps"] reaches.root)
  ultimately have "chain_step c (set (p # ps)) st st'" by (rule chain_step_trans)
  moreover have "snd st1 \<subseteq> snd st'" using b by (simp add: chain_step_def closed_step_def)
  ultimately show ?case using a b by auto
qed (auto simp: chain_step_refl)

lemma build_enough:
  "template_closed c S \<Longrightarrow> i \<in> S \<Longrightarrow> card (S - snd st) < f \<Longrightarrow> build f c i d st \<noteq> None"
  "template_closed c S \<Longrightarrow> set is \<subseteq> S \<Longrightarrow> card (S - snd st) < f \<Longrightarrow> build_parents f c is d st \<noteq> None"
proof (induction f c i d st and f c "is" d st rule: build_build_parents.induct)
  case (2 f c i d chain processed)
  show ?case
  proof (cases "i \<in> processed")
    case False
    have "S - insert i processed = (S - processed) - {i}" by auto
    moreover have "i \<in> S - processed" "finite (S - processed)"
      using False 2(3) 2(2) by (auto simp: template_closed_def)
    ultimately have "card (S - insert i processed) < card (S - processed)"
      by (metis card_Diff1_less)
    then have "card (S - insert i processed) < f" using 2(4) by simp
    moreover have "set (to_ParentTemplates t) \<subseteq> S" if "get_template c i = Inr t" for t
      using that 2(2,3) by (auto simp: template_closed_def)
    ultimately show ?thesis using False 2(1) [OF False _ 2(2)] by (auto split: sum.split)
  qed simp
next
  case (4 f c p ps d st)
  have "build f c p d st \<noteq> None" using 4 by simp
  then obtain r where r: "build f c p d st = Some r" by blast
  show ?case
  proof (cases r)
    case (Inr st')
    have "S - snd st' \<subseteq> S - snd st"
      using build_step(1) r Inr unfolding chain_step_def closed_step_def by blast
    moreover have "finite (S - snd st)" using 4(3) by (simp add: template_closed_def)
    ultimately have "card (S - snd st') < f" using 4(5) card_mono le_less_trans by blast
    then show ?thesis using 4(2) [of r st'] r Inr 4(3,4) by simp
  qed (simp add: r)
qed auto

text \<open>C17: When the templates reachable from a host form a finite set that the server's answers stay
  in, the construction of the chain ends, cycles included; without an error the chain has exactly
  one node for each reachable template. A recursion depth of one more than their number is enough.\<close>

theorem buildTemplateChain_complete:
  assumes "template_closed c S" "set (ho_ParentTemplates host) \<subseteq> S" "card S < f"
  shows "\<exists>r. buildTemplateChain f c host = Some r
    \<and> (\<forall>chain. r = Inr chain \<longrightarrow> (\<exists>js. distinct js
        \<and> set js = {i. reaches c (set (ho_ParentTemplates host)) i} \<and> chain_of c js chain))"
proof -
  let ?roots = "set (ho_ParentTemplates host)"
  have "build_parents f c (ho_ParentTemplates host) 1 ([], {}) \<noteq> None"
    using build_enough(2) [OF assms(1,2), of "([], {})" f 1] assms(3) by simp
  then obtain r where r: "build_parents f c (ho_ParentTemplates host) 1 ([], {}) = Some r" by blast
  have "\<exists>js. distinct js \<and> set js = {i. reaches c ?roots i} \<and> chain_of c js (fst st)" if "r = Inr st" for st
  proof -
    from build_step(2) r that have s: "chain_step c ?roots ([], {}) st" "?roots \<subseteq> snd st" by blast+
    then obtain js where js: "distinct js" "set js = snd st" "chain_of c js (fst st)" "\<forall>j\<in>set js. reaches c ?roots j"
      and cl: "closed_step c {} (snd st)" unfolding chain_step_def by auto
    have "reaches c ?roots i \<Longrightarrow> i \<in> snd st" for i
    proof (induction rule: reaches.induct)
      case (parent i t p)
      then show ?case using cl unfolding closed_step_def by fastforce
    qed (use s(2) in blast)
    with js have "set js = {i. reaches c ?roots i}" by blast
    with js show ?thesis by blast
  qed
  with r show ?thesis by (auto simp: buildTemplateChain_def map_sum_def split: sum.splits)
qed

definition sample_client :: client where
  "sample_client = \<lparr>cl_GetProxyFormHost = (\<lambda>_. Inr [''5'']),
     cl_HostGet = (\<lambda>_. Inr [\<lparr>ho_Host = ''10.0.0.1'', ho_Macros = [], ho_ParentTemplates = [''a'']\<rparr>]),
     cl_UsermacroGet = Inr [],
     cl_TemplateGet = (\<lambda>i. if i = ''a'' then Inr [\<lparr>to_TemplateID = ''a'', to_Macros = [], to_ParentTemplates = [''b'']\<rparr>]
       else if i = ''b'' then Inr [\<lparr>to_TemplateID = ''b'', to_Macros = [], to_ParentTemplates = [''a'']\<rparr>]
       else Inr [])\<rparr>"

theorem buildTemplateChain_complete_witness:
  "\<exists>r. buildTemplateChain 3 sample_client \<lparr>ho_Host = ''10.0.0.1'', ho_Macros = [], ho_ParentTemplates = [''a'']\<rparr> = Some r"
proof -
  have "template_closed sample_client {''a'', ''b''}"
    by (auto simp: template_closed_def get_template_def sample_client_def)
  from buildTemplateChain_complete [OF this, of "\<lparr>ho_Host = ''10.0.0.1'', ho_Macros = [], ho_ParentTemplates = [''a'']\<rparr>" 3]
  show ?thesis by auto
qed

section \<open>Macros\<close>

lemma fold_put_macro:
  "fold put_macro ms f k = (case find_first (\<lambda>m. mc_Macro m = k) (rev ms) of
     None \<Rightarrow> f k | Some m \<Rightarrow> Some (mc_Value m))"
  by (induction ms rule: rev_induct) (auto simp: put_macro_def simp del: find_first_None)

lemma fold_put_node_none:
  "\<forall>n\<in>set nodes. tn_Macros n k = None \<Longrightarrow> fold put_node nodes f k = f k"
  by (induction nodes arbitrary: f) (auto simp: put_node_def map_add_def)

lemma fold_put_node_nearest:
  "sorted_wrt (\<lambda>a b. tn_Depth b \<le> tn_Depth a) nodes \<Longrightarrow> \<exists>n\<in>set nodes. tn_Macros n k \<noteq> None \<Longrightarrow>
    \<exists>n\<in>set nodes. tn_Macros n k \<noteq> None \<and> fold put_node nodes f k = tn_Macros n k
      \<and> (\<forall>n'\<in>set nodes. tn_Macros n' k \<noteq> None \<longrightarrow> tn_Depth n \<le> tn_Depth n')"
proof (induction nodes rule: rev_induct)
  case (snoc n nodes)
  show ?case
  proof (cases "tn_Macros n k")
    case None
    with snoc show ?thesis by (auto simp: sorted_wrt_append put_node_def map_add_def)
  next
    case (Some v)
    with snoc(2) show ?thesis
      by (intro bexI [of _ n]) (auto simp: sorted_wrt_append put_node_def map_add_def)
  qed
qed simp

text \<open>C18: The merged macros of a host follow the documented priority: a macro of the host itself wins
  (the last one, if repeated), then the one of a template of least depth among the templates that
  define it, then the global one. A host whose chain is empty makes the function panic.\<close>

theorem mergeMacros_priority:
  assumes "depth_sorted chain nodes"
  shows "if chain = [] then mergeMacros globals nodes hosts = None
    else \<exists>m. mergeMacros globals nodes hosts = Some m
      \<and> (\<forall>k. case find_first (\<lambda>x. mc_Macro x = k) (rev hosts) of
           Some x \<Rightarrow> m k = Some (mc_Value x)
         | None \<Rightarrow> if \<exists>n\<in>set chain. tn_Macros n k \<noteq> None
             then \<exists>n\<in>set chain. m k = tn_Macros n k \<and> m k \<noteq> None
               \<and> (\<forall>n'\<in>set chain. tn_Macros n' k \<noteq> None \<longrightarrow> tn_Depth n \<le> tn_Depth n')
             else m k = map_option mc_Value (find_first (\<lambda>x. mc_Macro x = k) (rev globals)))"
proof (cases "chain = []")
  case True
  with assms show ?thesis by (simp add: depth_sorted_def mergeMacros_def)
next
  case False
  have st: "set nodes = set chain" using assms by (metis depth_sorted_def set_mset_mset)
  with False obtain n ns where ne: "nodes = n # ns" by (cases nodes) auto
  let ?g = "fold put_macro globals Map.empty"
  have g: "?g k = map_option mc_Value (find_first (\<lambda>x. mc_Macro x = k) (rev globals))" for k
    unfolding fold_put_macro by (auto split: option.split simp del: find_first_None)
  have t: "if \<exists>n\<in>set chain. tn_Macros n k \<noteq> None
      then \<exists>n\<in>set chain. fold put_node nodes ?g k = tn_Macros n k \<and> fold put_node nodes ?g k \<noteq> None
        \<and> (\<forall>n'\<in>set chain. tn_Macros n' k \<noteq> None \<longrightarrow> tn_Depth n \<le> tn_Depth n')
      else fold put_node nodes ?g k = ?g k" for k
    using fold_put_node_nearest [of nodes k ?g] fold_put_node_none [of nodes k ?g] assms st
    unfolding depth_sorted_def by (simp split: if_splits) metis
  let ?m = "fold put_macro hosts (fold put_node nodes ?g)"
  have m: "mergeMacros globals nodes hosts = Some ?m" by (simp add: mergeMacros_def ne)
  have "case find_first (\<lambda>x. mc_Macro x = k) (rev hosts) of
           Some x \<Rightarrow> ?m k = Some (mc_Value x)
         | None \<Rightarrow> if \<exists>n\<in>set chain. tn_Macros n k \<noteq> None
             then \<exists>n\<in>set chain. ?m k = tn_Macros n k \<and> ?m k \<noteq> None
               \<and> (\<forall>n'\<in>set chain. tn_Macros n' k \<noteq> None \<longrightarrow> tn_Depth n \<le> tn_Depth n')
             else ?m k = map_option mc_Value (find_first (\<lambda>x. mc_Macro x = k) (rev globals))" for k
  proof (cases "find_first (\<lambda>x. mc_Macro x = k) (rev hosts)")
    case None
    have eq: "?m k = fold put_node nodes ?g k" unfolding fold_put_macro [of hosts] None by simp
    show ?thesis unfolding None option.case g [symmetric] eq by (rule t)
  next
    case (Some x)
    then show ?thesis unfolding fold_put_macro [of hosts] by simp
  qed
  with m False show ?thesis by (simp del: find_first_None)
qed

definition sample_node :: "nat \<Rightarrow> string \<Rightarrow> TemplateNode" where
  "sample_node d v = \<lparr>tn_ID = v, tn_Depth = d, tn_Macros = [''{$LINE_ID}'' \<mapsto> v], tn_ParentIDs = []\<rparr>"

theorem mergeMacros_priority_witness:
  "\<exists>m. mergeMacros [] [sample_node 2 ''far'', sample_node 1 ''near''] [] = Some m \<and> m ''{$LINE_ID}'' \<noteq> None"
proof -
  have "depth_sorted [sample_node 1 ''near'', sample_node 2 ''far''] [sample_node 2 ''far'', sample_node 1 ''near'']"
    by (simp add: depth_sorted_def sample_node_def)
  moreover have "mergeMacros [] [sample_node 2 ''far'', sample_node 1 ''near''] [] = Some [''{$LINE_ID}'' \<mapsto> ''near'']"
    by (simp add: mergeMacros_def put_node_def sample_node_def)
  ultimately show ?thesis
    using mergeMacros_priority [of "[sample_node 1 ''near'', sample_node 2 ''far'']" _ "[]" "[]"] by auto
qed

section \<open>Durations\<close>

lemma Atoi_nonempty: "Atoi s = Some v \<Longrightarrow> s \<noteq> []"
  by (auto simp: Atoi_def)

text \<open>A check interval given as a number of seconds that fits a 64-bit duration is used as it is,
  zero included; an empty, malformed or negative value falls back to the default. Beyond that
  bound the product wraps around, and 9223372037 seconds become a negative interval.\<close>

theorem parseDuration_bounds:
  "(case Atoi v of
      Some sec \<Rightarrow> if sec < 0 then parseDurationFromMacro v d = d
        else if sec \<le> 9223372036 then parseDurationFromMacro v d = sec * Second
        else parseDurationFromMacro v d = (sec * Second + 2 ^ 63) mod 2 ^ 64 - 2 ^ 63
    | None \<Rightarrow> parseDurationFromMacro v d = d)
   \<and> parseDurationFromMacro ''9223372037'' d < 0"
proof -
  have w: "parseDurationFromMacro v d = sec * Second" if "Atoi v = Some sec" "0 \<le> sec" "sec \<le> 9223372036" for sec
    using that Atoi_nonempty [OF that(1)] by (simp add: parseDurationFromMacro_def wrap64_id)
  have "Atoi ''9223372037'' = Some 9223372037"
    by (subst Atoi_digits) (simp_all add: dec_nat_def digit_val_def is_digit_def)
  then have "parseDurationFromMacro ''9223372037'' d < 0"
    by (simp add: parseDurationFromMacro_def wrap64_def)
  then show ?thesis
    using w Atoi_nonempty [of v] by (auto simp: parseDurationFromMacro_def wrap64_def split: option.split)
qed

section \<open>Changes\<close>

text \<open>What a subscriber that follows the events holds.\<close>

definition replay :: "LineChangeEvent \<Rightarrow> (string \<rightharpoonup> Line) \<Rightarrow> string \<rightharpoonup> Line" where
  "replay e m = (case ev_Type e of
     LineDelete \<Rightarrow> m(l_IP (ev_Line e) := None)
   | _ \<Rightarrow> m(l_IP (ev_Line e) \<mapsto> ev_Line e))"

definition keyed :: "(string \<rightharpoonup> Line) \<Rightarrow> bool" where
  "keyed m \<longleftrightarrow> (\<forall>k l. m k = Some l \<longrightarrow> l_IP l = k)"

lemma keyedD: "keyed m \<Longrightarrow> m k = Some l \<Longrightarrow> l_IP l = k"
  by (simp add: keyed_def)

lemma replay_detect_old:
  assumes "keyed old" "keyed new" "old ip = Some l"
  shows "fold replay (detect_old old new ip) m = (case new ip of
     None \<Rightarrow> m(ip := None)
   | Some l' \<Rightarrow> if l_Hash l \<noteq> l_Hash l' then m(ip \<mapsto> l') else m)"
  using assms by (auto simp: detect_old_def replay_def split: option.split dest: keyedD)

lemma fold_replay_old:
  assumes "keyed old" "keyed new"
  shows "distinct ks \<Longrightarrow> set ks \<subseteq> dom old \<Longrightarrow>
    fold replay (concat (map (detect_old old new) ks)) m k = (if k \<in> set ks then (case new k of
        None \<Rightarrow> None
      | Some l' \<Rightarrow> if l_Hash (the (old k)) \<noteq> l_Hash l' then Some l' else m k) else m k)"
proof (induction ks arbitrary: m)
  case (Cons ip ks)
  then obtain l where "old ip = Some l" by auto
  with Cons show ?case
    by (auto simp: replay_detect_old [OF assms] split: option.split)
qed simp

lemma fold_replay_new:
  assumes "keyed new"
  shows "distinct ks \<Longrightarrow> set ks \<subseteq> dom new \<Longrightarrow>
    fold replay (concat (map (detect_new old new) ks)) m k
      = (if k \<in> set ks \<and> old k = None then new k else m k)"
proof (induction ks arbitrary: m)
  case (Cons ip ks)
  then obtain l where l: "new ip = Some l" by auto
  then have "fold replay (detect_new old new ip) m = (if old ip = None then m(ip \<mapsto> l) else m)"
    using keyedD [OF assms l] by (auto simp: detect_new_def replay_def split: option.split)
  with Cons l show ?case by auto
qed simp

lemma filter_concat_key:
  assumes "\<And>x e. x \<in> set ks \<Longrightarrow> e \<in> set (f x) \<Longrightarrow> key e = x" "distinct ks"
  shows "filter (\<lambda>e. key e = k) (concat (map f ks)) = (if k \<in> set ks then f k else [])"
  using assms
proof (induction ks)
  case (Cons x ks)
  have "filter (\<lambda>e. key e = k) (f x) = (if x = k then f x else [])"
    using Cons.prems(1) [of x] by (auto simp: filter_empty_conv filter_id_conv)
  with Cons show ?case by auto
qed simp

lemma detect_keys:
  assumes "keyed old" "keyed new"
  shows "ip \<in> dom old \<Longrightarrow> e \<in> set (detect_old old new ip) \<Longrightarrow> l_IP (ev_Line e) = ip"
    "ip \<in> dom new \<Longrightarrow> e \<in> set (detect_new old new ip) \<Longrightarrow> l_IP (ev_Line e) = ip"
  using assms by (auto simp: detect_old_def detect_new_def split: option.splits if_splits dest: keyedD)

lemma events_at:
  assumes "keyed old" "keyed new" "map_order old ks" "map_order new ks'"
  shows "filter (\<lambda>e. l_IP (ev_Line e) = k) (detectChanges ks ks' old new)
      = (if k \<in> dom old then detect_old old new k else []) @ (if k \<in> dom new then detect_new old new k else [])"
  using filter_concat_key [of ks "detect_old old new" "\<lambda>e. l_IP (ev_Line e)" k]
    filter_concat_key [of ks' "detect_new old new" "\<lambda>e. l_IP (ev_Line e)" k]
    detect_keys [OF assms(1,2)] map_orderD [OF assms(3)] map_orderD [OF assms(4)]
  by (simp add: detectChanges_def)

lemma replay_detect:
  assumes "keyed old" "keyed new" "map_order old ks" "map_order new ks'"
  shows "fold replay (detectChanges ks ks' old new) old k
      = (case (old k, new k) of (Some l, Some l') \<Rightarrow> if l_Hash l = l_Hash l' then Some l else Some l'
         | (_, n) \<Rightarrow> n)"
  using fold_replay_old [OF assms(1,2) map_orderD(1) [OF assms(3)]]
    fold_replay_new [OF assms(2) map_orderD(1) [OF assms(4)]]
    map_orderD(2) [OF assms(3)] map_orderD(2) [OF assms(4)]
  by (auto simp: detectChanges_def split: option.split)

text \<open>C12: Whatever order the maps are visited in, the detected changes replayed on the old lines give
  the new ones: the same addresses, and for each the new line, unless its hash equals that of the
  old one, which then stays. Every address has one event when it was created, deleted or its hash
  changed, and none otherwise.\<close>

theorem detectChanges_replay:
  assumes "keyed old" "keyed new" "map_order old ks" "map_order new ks'"
  shows "fold replay (detectChanges ks ks' old new) old k
      = (case (old k, new k) of (Some l, Some l') \<Rightarrow> if l_Hash l = l_Hash l' then Some l else Some l'
         | (_, n) \<Rightarrow> n)
    \<and> length (filter (\<lambda>e. l_IP (ev_Line e) = k) (detectChanges ks ks' old new))
      = (if map_option l_Hash (old k) = map_option l_Hash (new k) then 0 else 1)"
proof
  show "length (filter (\<lambda>e. l_IP (ev_Line e) = k) (detectChanges ks ks' old new))
      = (if map_option l_Hash (old k) = map_option l_Hash (new k) then 0 else 1)"
    unfolding events_at [OF assms]
    by (auto simp: detect_old_def detect_new_def dom_def split: option.split)
qed (rule replay_detect [OF assms])

theorem detectChanges_replay_witness:
  "fold replay (detectChanges [] [''10.0.0.1''] Map.empty [''10.0.0.1'' \<mapsto> sample_line]) Map.empty ''10.0.0.1''
     = Some sample_line"
proof -
  have "keyed Map.empty" "keyed [''10.0.0.1'' \<mapsto> sample_line]" "map_order Map.empty []"
      "map_order [''10.0.0.1'' \<mapsto> sample_line] [''10.0.0.1'']"
    by (simp_all add: keyed_def sample_line_def map_order_def)
  from detectChanges_replay [OF this, of "''10.0.0.1''"] show ?thesis by simp
qed

text \<open>The lines a fetch produces are keyed by address and carry their hash.\<close>

lemma host_line_fields: "l_IP (host_line host m) = host" "ComputeHash (host_line host m) = host_line host m"
  by (simp_all add: host_line_def Let_def ComputeHash_idem)

lemma fetch_hosts_keyed:
  "fetch_hosts f c srt g hs lines = Fetched lines' \<Longrightarrow> keyed lines \<Longrightarrow> finite (dom lines)
    \<Longrightarrow> keyed lines' \<and> finite (dom lines')"
proof (induction hs arbitrary: lines)
  case (Cons h hs)
  have "keyed (lines(ho_Host h \<mapsto> host_line (ho_Host h) m))" for m
    using Cons.prems(2) by (simp add: keyed_def host_line_fields)
  note put = this
  consider "fetch_hosts f c srt g hs lines = Fetched lines'"
    | m where "fetch_hosts f c srt g hs (lines(ho_Host h \<mapsto> host_line (ho_Host h) m)) = Fetched lines'"
    using Cons.prems(1) by (auto split: option.splits sum.splits)
  then show ?case
  proof cases
    case 1
    with Cons show ?thesis by blast
  next
    case (2 m)
    have "finite (dom (lines(ho_Host h \<mapsto> host_line (ho_Host h) m)))" using Cons.prems(3) by simp
    with 2 put show ?thesis by (rule Cons.IH)
  qed
qed simp

lemma fetchLines_state:
  assumes "fetchLines f c srt cs = (r, cs1)"
  shows "cs_lines cs1 = cs_lines cs \<and> cs_version cs1 = cs_version cs"
    "r = Fetched new \<Longrightarrow> keyed new \<and> finite (dom new)"
proof -
  have "cs_lines (snd (handleProxyId c cs)) = cs_lines cs \<and> cs_version (snd (handleProxyId c cs)) = cs_version cs"
    by (auto simp: handleProxyId_def split: sum.split list.split option.split)
  then show "cs_lines cs1 = cs_lines cs \<and> cs_version cs1 = cs_version cs"
    using assms by (cases "handleProxyId c cs")
      (auto simp: fetchLines_def split: if_splits option.splits sum.splits prod.splits)
  show "r = Fetched new \<Longrightarrow> keyed new \<and> finite (dom new)"
    using assms fetch_hosts_keyed [of f c srt _ _ Map.empty new]
    by (auto simp: fetchLines_def keyed_def split: option.splits sum.splits prod.splits)
qed

lemma replay_versions: "fold replay (map (\<lambda>e. e\<lparr>ev_Version := v\<rparr>) es) m = fold replay es m"
proof (induction es arbitrary: m)
  case (Cons e es)
  have "replay (e\<lparr>ev_Version := v\<rparr>) = replay e"
    by (rule ext) (simp add: replay_def split: ChangeType.split)
  with Cons show ?case by simp
qed simp

lemma detect_empty:
  "filter (\<lambda>e. ev_Type e \<noteq> LineCreate) (detectChanges [] ks' Map.empty new) = []"
  by (auto simp: detectChanges_def detect_new_def filter_empty_conv)

text \<open>C11: The events a synchronisation publishes, replayed by a subscriber that held the old lines,
  give the fetched lines up to equal hashes, except when no line was known before: then nothing is
  published, although lines were created, and the version still advances. A failed fetch changes
  neither lines nor version.\<close>

theorem sync_publishes:
  assumes "keyed (cs_lines cs)" "map_order (cs_lines cs) (order (cs_lines cs))"
    "\<And>new. r = Fetched new \<Longrightarrow> map_order new (order new)" "sync f c srt order cs = (r, events, cs')"
  shows "case r of
      Fetched new \<Rightarrow> cs_lines cs' = new \<and> cs_version cs' = cs_version cs + 1
        \<and> (if cs_lines cs = Map.empty then events = []
           else map_option l_Hash (fold replay events (cs_lines cs) k) = map_option l_Hash (new k))
    | _ \<Rightarrow> cs_lines cs' = cs_lines cs \<and> cs_version cs' = cs_version cs \<and> events = []"
proof -
  obtain r1 cs1 where f: "fetchLines f c srt cs = (r1, cs1)" by fastforce
  note st = fetchLines_state [OF f]
  show ?thesis
  proof (cases r1)
    case (Fetched new)
    let ?old = "cs_lines cs"
    have "r = Fetched new" using assms(4) f Fetched by (auto simp: sync_def)
    then have o: "map_order ?old (order ?old)" "map_order new (order new)" using assms(2,3) by blast+
    have e: "order ?old = [] \<longleftrightarrow> ?old = Map.empty"
      using map_orderD(2) [OF o(1)] by (metis dom_eq_empty_conv set_empty)
    have r: "r = Fetched new" "(events, cs') = sync_changes (order ?old) (order new) new cs1"
      using assms(4) f Fetched st(1) by (auto simp: sync_def)
    have "events = []" if "?old = Map.empty"
      using r(2) that e st(1) detect_empty by (auto simp: sync_changes_def Let_def)
    moreover have "map_option l_Hash (fold replay events ?old k) = map_option l_Hash (new k)" if "?old \<noteq> Map.empty"
      using r(2) that e st(1) replay_detect [OF assms(1) _ o] st(2) [OF Fetched]
      by (auto simp: sync_changes_def Let_def replay_versions split: option.split)
    ultimately show ?thesis using r st(1) by (auto simp: sync_changes_def Let_def)
  qed (use assms(4) f st(1) in \<open>auto simp: sync_def\<close>)
qed

definition sample_syncer :: ConfigSyncer where
  "sample_syncer = \<lparr>cs_proxyName = ''p'', cs_proxyID = 0, cs_lines = [''10.0.0.1'' \<mapsto> sample_line], cs_version = 1\<rparr>"

definition sample_order :: "(string \<rightharpoonup> Line) \<Rightarrow> string list" where
  "sample_order m = filter (\<lambda>k. m k \<noteq> None) [''10.0.0.1'']"

definition sample_fetched :: "string \<rightharpoonup> Line" where
  "sample_fetched = [''10.0.0.1'' \<mapsto> host_line ''10.0.0.1'' Map.empty]"

lemma sample_fetch:
  "fst (fetchLines 3 sample_client id sample_syncer) = Fetched sample_fetched"
  by (simp add: fetchLines_def handleProxyId_def sample_syncer_def sample_client_def buildTemplateChain_def
      get_template_def template_node_def mergeMacros_def put_node_def sample_fetched_def Atoi_def Let_def
      is_digit_def dec_nat_def digit_val_def numeral_3_eq_3)

theorem sync_publishes_witness:
  "\<exists>events cs'. sync 3 sample_client id sample_order sample_syncer = (Fetched sample_fetched, events, cs')
     \<and> cs_lines cs' = sample_fetched
     \<and> map_option l_Hash (fold replay events (cs_lines sample_syncer) ''10.0.0.1'')
        = map_option l_Hash (sample_fetched ''10.0.0.1'')"
proof -
  obtain cs1 where "fetchLines 3 sample_client id sample_syncer = (Fetched sample_fetched, cs1)"
    using sample_fetch by (metis prod.collapse)
  then obtain events cs' where s: "sync 3 sample_client id sample_order sample_syncer = (Fetched sample_fetched, events, cs')"
    by (cases "sync_changes (sample_order (cs_lines cs1)) (sample_order sample_fetched) sample_fetched cs1")
      (simp add: sync_def)
  have "keyed (cs_lines sample_syncer)" "map_order (cs_lines sample_syncer) (sample_order (cs_lines sample_syncer))"
      "map_order sample_fetched (sample_order sample_fetched)" "cs_lines sample_syncer \<noteq> Map.empty"
    by (auto simp: keyed_def sample_syncer_def sample_line_def map_order_def sample_order_def sample_fetched_def)
  then show ?thesis
    using sync_publishes [of sample_syncer sample_order "Fetched sample_fetched" 3 sample_client id events cs' "''10.0.0.1''"] s
    by auto
qed

end
