(* ===== verification/Subscriptions.thy ===== *)
theory Subscriptions
  imports Lines
begin

text \<open>
  Subscribers of the syncer (\<open>Subscribe\<close>, \<open>Close\<close>, \<open>notifyAll\<close> and \<open>Stop\<close> of \<open>syncer/syncer.go\<close>).
  A channel is a number; its buffer holds at most 1000 events. Sending on or closing a closed
  channel panics (\<open>None\<close>). The mutex makes each operation atomic; what a reader takes out of a
  full channel during the retry of \<open>notifyAll\<close> is an argument.
\<close>

record subs =
  sb_subscribers :: "nat list"
  sb_buffer :: "nat \<Rightarrow> LineChangeEvent list"
  sb_closed :: "nat set"
  sb_next :: nat
  sb_once :: "nat set"
  sb_stopped :: bool

definition new_subs :: subs where
  "new_subs = \<lparr>sb_subscribers = [], sb_buffer = (\<lambda>_. []), sb_closed = {}, sb_next = 0, sb_once = {}, sb_stopped = False\<rparr>"

definition close_chan :: "nat \<Rightarrow> subs \<Rightarrow> subs option" where
  "close_chan ch s = (if ch \<in> sb_closed s then None else Some (s\<lparr>sb_closed := insert ch (sb_closed s)\<rparr>))"

fun close_all :: "nat list \<Rightarrow> subs \<Rightarrow> subs option" where
  "close_all [] s = Some s"
| "close_all (ch # chs) s = (case close_chan ch s of None \<Rightarrow> None | Some s' \<Rightarrow> close_all chs s')"

definition Subscribe :: "subs \<Rightarrow> subs" where
  "Subscribe s = s\<lparr>sb_subscribers := sb_subscribers s @ [sb_next s], sb_next := Suc (sb_next s)\<rparr>"

definition Subscription_Close :: "nat \<Rightarrow> subs \<Rightarrow> subs option" where
  "Subscription_Close ch s = (if ch \<in> sb_once s then Some s
     else let s1 = s\<lparr>sb_once := insert ch (sb_once s)\<rparr> in
       if ch \<in> set (sb_subscribers s)
       then close_chan ch (s1\<lparr>sb_subscribers := remove1 ch (sb_subscribers s)\<rparr>)
       else Some s1)"

definition Syncer_Stop :: "subs \<Rightarrow> subs option" where
  "Syncer_Stop s = (if sb_stopped s then Some s
     else map_option (\<lambda>s'. s'\<lparr>sb_subscribers := [], sb_stopped := True\<rparr>) (close_all (sb_subscribers s) s))"

definition send_event :: "nat \<Rightarrow> LineChangeEvent \<Rightarrow> nat \<Rightarrow> subs \<Rightarrow> subs option" where
  "send_event taken e ch s = (if ch \<in> sb_closed s then None
     else if length (sb_buffer s ch) < 1000
     then Some (s\<lparr>sb_buffer := (sb_buffer s)(ch := sb_buffer s ch @ [e])\<rparr>)
     else if taken > 0
     then Some (s\<lparr>sb_buffer := (sb_buffer s)(ch := drop taken (sb_buffer s ch) @ [e])\<rparr>)
     else Some s)"

fun send_all :: "(nat \<Rightarrow> nat) \<Rightarrow> LineChangeEvent \<Rightarrow> nat list \<Rightarrow> subs \<Rightarrow> subs option" where
  "send_all taken e [] s = Some s"
| "send_all taken e (ch # chs) s = (case send_event (taken ch) e ch s of
     None \<Rightarrow> None | Some s' \<Rightarrow> send_all taken e chs s')"

fun notifyAll :: "(LineChangeEvent \<Rightarrow> nat \<Rightarrow> nat) \<Rightarrow> LineChangeEvent list \<Rightarrow> subs \<Rightarrow> subs option" where
  "notifyAll taken [] s = Some s"
| "notifyAll taken (e # es) s = (case send_all (taken e) e (sb_subscribers s) s of
     None \<Rightarrow> None | Some s' \<Rightarrow> notifyAll taken es s')"

definition receive :: "nat \<Rightarrow> subs \<Rightarrow> subs" where
  "receive ch s = s\<lparr>sb_buffer := (sb_buffer s)(ch := tl (sb_buffer s ch))\<rparr>"

datatype sub_op = OpSubscribe | OpClose nat | OpStop | OpReceive nat
  | OpNotify "LineChangeEvent \<Rightarrow> nat \<Rightarrow> nat" "LineChangeEvent list"

text \<open>Only a subscription that was handed out can be closed.\<close>

fun sub_step :: "sub_op \<Rightarrow> subs \<Rightarrow> subs option" where
  "sub_step OpSubscribe s = Some (Subscribe s)"
| "sub_step (OpClose ch) s = (if ch < sb_next s then Subscription_Close ch s else Some s)"
| "sub_step OpStop s = Syncer_Stop s"
| "sub_step (OpReceive ch) s = Some (receive ch s)"
| "sub_step (OpNotify taken es) s = notifyAll taken es s"

fun sub_run :: "sub_op list \<Rightarrow> subs \<Rightarrow> subs option" where
  "sub_run [] s = Some s"
| "sub_run (o1 # os) s = (case sub_step o1 s of None \<Rightarrow> None | Some s' \<Rightarrow> sub_run os s')"

section \<open>Safety\<close>

definition subs_inv :: "subs \<Rightarrow> bool" where
  "subs_inv s \<longleftrightarrow> distinct (sb_subscribers s) \<and> set (sb_subscribers s) \<inter> sb_closed s = {}
     \<and> set (sb_subscribers s) \<union> sb_closed s \<subseteq> {..<sb_next s}
     \<and> (\<forall>ch. length (sb_buffer s ch) \<le> 1000)"

lemma close_all_ok:
  "distinct chs \<Longrightarrow> set chs \<inter> sb_closed s = {} \<Longrightarrow>
    close_all chs s = Some (s\<lparr>sb_closed := sb_closed s \<union> set chs\<rparr>)"
proof (induction chs arbitrary: s)
  case (Cons ch chs)
  let ?s = "s\<lparr>sb_closed := insert ch (sb_closed s)\<rparr>"
  have "close_all chs ?s = Some (?s\<lparr>sb_closed := sb_closed ?s \<union> set chs\<rparr>)"
    using Cons.prems by (intro Cons.IH) auto
  with Cons.prems show ?case by (simp add: close_chan_def)
qed simp

text \<open>What sending leaves alone.\<close>

definition same_subs :: "subs \<Rightarrow> subs \<Rightarrow> bool" where
  "same_subs s s' \<longleftrightarrow> sb_subscribers s' = sb_subscribers s \<and> sb_closed s' = sb_closed s
     \<and> sb_next s' = sb_next s \<and> sb_once s' = sb_once s \<and> sb_stopped s' = sb_stopped s
     \<and> ((\<forall>ch. length (sb_buffer s ch) \<le> 1000) \<longrightarrow> (\<forall>ch. length (sb_buffer s' ch) \<le> 1000))"

lemma send_event_ok: "ch \<notin> sb_closed s \<Longrightarrow> \<exists>s'. send_event n e ch s = Some s' \<and> same_subs s s'"
proof -
  have "length b \<le> 1000 \<Longrightarrow> 0 < n \<Longrightarrow> length b - n \<le> 999" for b :: "LineChangeEvent list" by linarith
  then show "ch \<notin> sb_closed s \<Longrightarrow> ?thesis" by (auto simp: send_event_def same_subs_def)
qed

lemma send_all_ok:
  "set chs \<inter> sb_closed s = {} \<Longrightarrow> \<exists>s'. send_all taken e chs s = Some s' \<and> same_subs s s'"
proof (induction chs arbitrary: s)
  case (Cons ch chs)
  obtain s1 where s1: "send_event (taken ch) e ch s = Some s1" "same_subs s s1"
    using send_event_ok [of ch s "taken ch" e] Cons.prems by auto
  obtain s2 where "send_all taken e chs s1 = Some s2" "same_subs s1 s2"
    using Cons.IH [of s1] Cons.prems s1(2) by (auto simp: same_subs_def)
  with s1 show ?case by (auto simp: same_subs_def)
qed (simp add: same_subs_def)

lemma notifyAll_ok:
  "set (sb_subscribers s) \<inter> sb_closed s = {} \<Longrightarrow> \<exists>s'. notifyAll taken es s = Some s' \<and> same_subs s s'"
proof (induction es arbitrary: s)
  case (Cons e es)
  obtain s1 where s1: "send_all (taken e) e (sb_subscribers s) s = Some s1" "same_subs s s1"
    using send_all_ok Cons.prems by blast
  obtain s2 where "notifyAll taken es s1 = Some s2" "same_subs s1 s2"
    using Cons.IH [of s1] Cons.prems s1(2) by (auto simp: same_subs_def)
  with s1 show ?case by (auto simp: same_subs_def)
qed (simp add: same_subs_def)

lemma sub_step_inv:
  assumes "subs_inv s"
  shows "\<exists>s'. sub_step op1 s = Some s' \<and> subs_inv s'"
proof (cases op1)
  case OpSubscribe
  with assms show ?thesis by (auto simp: subs_inv_def Subscribe_def)
next
  case (OpClose ch)
  with assms show ?thesis
    by (auto simp: subs_inv_def Subscription_Close_def close_chan_def Let_def)
next
  case OpStop
  with assms show ?thesis
    by (auto simp: subs_inv_def Syncer_Stop_def close_all_ok)
next
  case (OpReceive ch)
  have "length (tl (sb_buffer s ch)) \<le> 1000"
    using assms by (simp add: subs_inv_def) (meson diff_le_self le_trans)
  with OpReceive assms show ?thesis by (auto simp: subs_inv_def receive_def)
next
  case (OpNotify taken es)
  with notifyAll_ok [of s taken es] assms show ?thesis
    by (auto simp: subs_inv_def same_subs_def)
qed

lemma sub_run_inv: "subs_inv s \<Longrightarrow> \<exists>s'. sub_run ops s = Some s' \<and> subs_inv s'"
proof (induction ops arbitrary: s)
  case (Cons o1 os)
  then show ?case using sub_step_inv [of s o1] by auto
qed simp

text \<open>C40: No sequence of subscriptions, closings, notifications, receives and stops ever sends on or
  closes a closed channel, and no buffer exceeds 1000 events. Right after the first \<open>Stop\<close> every
  channel that was subscribed is closed.\<close>

theorem subscriptions_safe:
  "\<exists>s. sub_run ops new_subs = Some s
    \<and> set (sb_subscribers s) \<inter> sb_closed s = {} \<and> (\<forall>ch. length (sb_buffer s ch) \<le> 1000)
    \<and> (\<exists>s'. Syncer_Stop s = Some s' \<and> (if sb_stopped s then s' = s
         else sb_subscribers s' = [] \<and> sb_closed s' = sb_closed s \<union> set (sb_subscribers s)))"
proof -
  have "subs_inv new_subs" by (simp add: subs_inv_def new_subs_def)
  then obtain s where s: "sub_run ops new_subs = Some s" "subs_inv s" using sub_run_inv by blast
  then show ?thesis by (auto simp: subs_inv_def Syncer_Stop_def close_all_ok)
qed

text \<open>A subscription made after \<open>Stop\<close> is never closed by the syncer: the second \<open>Stop\<close> does
  nothing.\<close>

lemma subscribe_after_stop_open:
  "sub_run [OpStop, OpSubscribe, OpStop] new_subs = Some s \<Longrightarrow> 0 \<notin> sb_closed s \<and> sb_subscribers s = [0]"
  by (auto simp: new_subs_def Syncer_Stop_def Subscribe_def)

end
