(* ===== verification/Adapters.thy ===== *)
theory Adapters
  imports Ping_Proofs
begin

text \<open>
  The platform adapters (\<open>task/adapter.go\<close>, \<open>task/adapter_cisco.go\<close>): per platform the default
  parameters, a conversion of raw device output, a command template and a parameter check. The
  Go interface is a record of its four methods, and its contract a locale that every adapter of
  the file interprets. \<open>NormalizeParams\<close> writes into the map it is given and returns it, so the
  model's result is also the caller's map afterwards. The monitor itself calls the ping task's
  own builders and parsers instead.
\<close>

record PlatformAdapter =
  NormalizeParams :: "gmap \<Rightarrow> gmap"
  ConvertOutput :: "string \<Rightarrow> gmap"
  GetCommandTemplate :: "TaskType \<Rightarrow> CommandType \<Rightarrow> string + string"
  ValidatePlatformParams :: "gmap \<Rightarrow> string option"

text \<open>\<open>if _, ok := params[k]; !ok { params[k] = v }\<close>\<close>

definition put_default :: "string \<Rightarrow> gvalue \<Rightarrow> gmap \<Rightarrow> gmap" where
  "put_default k v params = (case params k of None \<Rightarrow> params(k \<mapsto> v) | Some _ \<Rightarrow> params)"

definition repeat_within :: "int \<Rightarrow> string \<Rightarrow> gmap \<Rightarrow> string option" where
  "repeat_within hi msg params = (case params ''repeat'' of
     Some (VInt r) \<Rightarrow> if r < 1 \<or> hi < r then Some msg else None | _ \<Rightarrow> None)"

definition timeout_within :: "duration \<Rightarrow> string \<Rightarrow> gmap \<Rightarrow> string option" where
  "timeout_within hi msg params = (case params ''timeout'' of
     Some (VDuration t) \<Rightarrow> if t < Second \<or> hi < t then Some msg else None | _ \<Rightarrow> None)"

section \<open>Generic adapter\<close>

definition Generic_NormalizeParams :: "gmap \<Rightarrow> gmap" where
  "Generic_NormalizeParams params =
     put_default ''timeout'' (VDuration (2 * Second)) (put_default ''repeat'' (VInt 5) params)"

definition Generic_ConvertOutput :: "string \<Rightarrow> gmap" where
  "Generic_ConvertOutput raw = [''raw_output'' \<mapsto> VString raw,
     ''success'' \<mapsto> VBool (\<not> Contains (ToLower raw) ''failed''),
     ''parsed_by'' \<mapsto> VString ''generic_adapter'']"

definition Generic_GetCommandTemplate :: "TaskType \<Rightarrow> CommandType \<Rightarrow> string + string" where
  "Generic_GetCommandTemplate tt ct = (if tt = ''ping'' then Inr ''ping {{.target_ip}}''
     else Inl (''unsupported task type: '' @ tt))"

definition Generic_ValidatePlatformParams :: "gmap \<Rightarrow> string option" where
  "Generic_ValidatePlatformParams params = None"

section \<open>Huawei VRP\<close>

definition Huawei_NormalizeParams :: "gmap \<Rightarrow> gmap" where
  "Huawei_NormalizeParams params =
     put_default ''timeout'' (VDuration (1 * Second)) (put_default ''repeat'' (VInt 4) params)"

definition Huawei_ConvertOutput :: "string \<Rightarrow> gmap" where
  "Huawei_ConvertOutput raw = (let result =
       [''raw_output'' \<mapsto> VString raw, ''parsed_by'' \<mapsto> VString ''huawei_vrp_adapter'']
     in if Contains raw ''packet loss'' then
          if Contains raw ''0% packet loss''
          then result(''success'' \<mapsto> VBool True, ''packet_loss'' \<mapsto> VString ''0%'')
          else if Contains raw ''100% packet loss''
          then result(''success'' \<mapsto> VBool False, ''packet_loss'' \<mapsto> VString ''100%'')
          else result
        else result)"

definition Huawei_GetCommandTemplate :: "TaskType \<Rightarrow> CommandType \<Rightarrow> string + string" where
  "Huawei_GetCommandTemplate tt ct =
    (if tt = ''ping'' then Inr ''ping -c {{.repeat}} -t {{.timeout_seconds}} {{.target_ip}}''
     else Inl (''unsupported task type for Huawei VRP: '' @ tt))"

definition Huawei_ValidatePlatformParams :: "gmap \<Rightarrow> string option" where
  "Huawei_ValidatePlatformParams params =
     repeat_within 20 ''Huawei VRP: repeat count must be between 1 and 20'' params"

section \<open>Cisco IOS XR and NX-OS\<close>

definition IOSXR_NormalizeParams :: "gmap \<Rightarrow> gmap" where
  "IOSXR_NormalizeParams params = put_default ''timeout'' (VDuration (3 * Second)) params"

definition IOSXR_ConvertOutput :: "string \<Rightarrow> gmap" where
  "IOSXR_ConvertOutput raw = (let result =
       [''raw_output'' \<mapsto> VString raw, ''parsed_by'' \<mapsto> VString ''cisco_iosxr_adapter'']
     in if Contains raw ''Success rate is'' then
          if Contains raw ''100 percent''
          then result(''success'' \<mapsto> VBool True, ''success_rate'' \<mapsto> VString ''100%'')
          else result(''success'' \<mapsto> VBool False)
        else result)"

definition IOSXR_GetCommandTemplate :: "TaskType \<Rightarrow> CommandType \<Rightarrow> string + string" where
  "IOSXR_GetCommandTemplate tt ct =
    (if tt = ''ping'' then Inr ''ping {{.target_ip}} repeat {{.repeat}} timeout {{.timeout_seconds}}''
     else Inl (''unsupported task type for Cisco IOS-XR: '' @ tt))"

definition IOSXR_ValidatePlatformParams :: "gmap \<Rightarrow> string option" where
  "IOSXR_ValidatePlatformParams params = None"

definition NXOS_NormalizeParams :: "gmap \<Rightarrow> gmap" where
  "NXOS_NormalizeParams params = put_default ''repeat'' (VInt 5) params"

definition NXOS_ConvertOutput :: "string \<Rightarrow> gmap" where
  "NXOS_ConvertOutput raw = [''raw_output'' \<mapsto> VString raw,
     ''success'' \<mapsto> VBool (Contains raw ''100.00% success''),
     ''parsed_by'' \<mapsto> VString ''cisco_nxos_adapter'']"

definition NXOS_GetCommandTemplate :: "TaskType \<Rightarrow> CommandType \<Rightarrow> string + string" where
  "NXOS_GetCommandTemplate tt ct =
    (if tt = ''ping'' then Inr ''ping {{.target_ip}} count {{.repeat}}''
     else Inl (''unsupported task type for Cisco NX-OS: '' @ tt))"

definition NXOS_ValidatePlatformParams :: "gmap \<Rightarrow> string option" where
  "NXOS_ValidatePlatformParams params = None"

section \<open>H3C Comware\<close>

definition H3C_NormalizeParams :: "gmap \<Rightarrow> gmap" where
  "H3C_NormalizeParams params = (let p =
       put_default ''timeout'' (VDuration (2 * Second)) (put_default ''repeat'' (VInt 5) params)
     in case p ''timeout'' of
          Some (VDuration d) \<Rightarrow> p(''timeout_seconds'' \<mapsto> VInt (int_Seconds d))
        | _ \<Rightarrow> p)"

text \<open>
  The expression \<open>(\d+\.?\d*)%\s+packet\s+loss\<close>: the digit runs are maximal, since only a digit, a
  dot or the percent sign can follow, and so are the runs of white space.
\<close>

definition re_spaces :: "string \<Rightarrow> string option" where
  "re_spaces s = (case s of c # t \<Rightarrow> if re_space c then Some (dropWhile re_space t) else None | [] \<Rightarrow> None)"

definition h3c_re_tail :: "string \<Rightarrow> bool" where
  "h3c_re_tail s = (case strip_prefix ''%'' s of None \<Rightarrow> False
     | Some s1 \<Rightarrow> (case re_spaces s1 of None \<Rightarrow> False
       | Some s2 \<Rightarrow> (case strip_prefix ''packet'' s2 of None \<Rightarrow> False
         | Some s3 \<Rightarrow> (case re_spaces s3 of None \<Rightarrow> False
           | Some s4 \<Rightarrow> strip_prefix ''loss'' s4 \<noteq> None))))"

definition h3c_re_at :: "string \<Rightarrow> string option" where
  "h3c_re_at s = (let ds = takeWhile is_digit s; r = dropWhile is_digit s;
       dot = (case r of c # _ \<Rightarrow> if c = CHR ''.'' then ''.'' else [] | [] \<Rightarrow> []);
       r1 = drop (length dot) r; fs = takeWhile is_digit r1
     in if ds \<noteq> [] \<and> h3c_re_tail (dropWhile is_digit r1) then Some (ds @ dot @ fs) else None)"

fun h3c_re_find :: "string \<Rightarrow> string option" where
  "h3c_re_find [] = None"
| "h3c_re_find (c # s) = (case h3c_re_at (c # s) of Some num \<Rightarrow> Some num | None \<Rightarrow> h3c_re_find s)"

definition h3c_convert_loss :: "string \<Rightarrow> gmap \<Rightarrow> gmap" where
  "h3c_convert_loss packetLoss d = (let d1 = d(''packet_loss'' \<mapsto> VString (packetLoss @ ''%'')) in
     if packetLoss = ''0'' \<or> packetLoss = ''0.0''
     then d1(''success'' \<mapsto> VBool True, ''success_rate'' \<mapsto> VString ''100%'')
     else let d2 = d1(''success'' \<mapsto> VBool False) in
       (case ParseFloat packetLoss of
          Some x \<Rightarrow> d2(''success_rate'' \<mapsto> VString (Itoa (100 - Duration_of_float x) @ ''%''))
        | None \<Rightarrow> d2))"

definition put_outcome :: "bool \<Rightarrow> string \<Rightarrow> string \<Rightarrow> gmap \<Rightarrow> gmap" where
  "put_outcome ok loss rate d =
     d(''success'' \<mapsto> VBool ok, ''packet_loss'' \<mapsto> VString loss, ''success_rate'' \<mapsto> VString rate)"

definition H3C_ConvertOutput :: "string \<Rightarrow> gmap" where
  "H3C_ConvertOutput raw = (let rawLower = ToLower raw; result =
       [''raw_output'' \<mapsto> VString raw, ''parsed_by'' \<mapsto> VString ''h3c_comware_adapter'']
     in if Contains raw ''packet loss'' then
          if Contains raw ''0.0% packet loss'' then put_outcome True ''0%'' ''100%'' result
          else if Contains raw ''100.0% packet loss'' then put_outcome False ''100%'' ''0%'' result
          else (case h3c_re_find raw of
              Some packetLoss \<Rightarrow> h3c_convert_loss packetLoss result
            | None \<Rightarrow> result(''success'' \<mapsto> VBool True))
        else if Contains raw ''Request time out'' \<or> Contains rawLower ''destination host unreachable''
          \<or> Contains rawLower ''no route to host''
        then put_outcome False ''100%'' ''0%'' result
        else result(''success'' \<mapsto> VBool (\<not> Contains rawLower ''failed'')))"

definition H3C_GetCommandTemplate :: "TaskType \<Rightarrow> CommandType \<Rightarrow> string + string" where
  "H3C_GetCommandTemplate tt ct =
    (if tt = ''ping'' then Inr ''ping -c {{.repeat}} -t {{.timeout_seconds}} {{.target_ip}}''
     else Inl (''unsupported task type for H3C Comware: '' @ tt))"

definition H3C_ValidatePlatformParams :: "gmap \<Rightarrow> string option" where
  "H3C_ValidatePlatformParams params =
    (case repeat_within 100 ''H3C Comware: repeat count must be between 1 and 100'' params of
       Some e \<Rightarrow> Some e
     | None \<Rightarrow> timeout_within (10 * Second) ''H3C Comware: timeout must be between 1 and 10 seconds'' params)"

section \<open>Cisco IOS XE\<close>

definition IOSXE_NormalizeParams :: "gmap \<Rightarrow> gmap" where
  "IOSXE_NormalizeParams params =
     put_default ''repeat'' (VInt 5) (put_default ''timeout'' (VDuration (2 * Second)) params)"

definition put_word_rate :: "string \<Rightarrow> gmap \<Rightarrow> gmap" where
  "put_word_rate raw d =
    (if Contains raw ''percent'' then
       (case (case Fields raw of [] \<Rightarrow> None | p # ps \<Rightarrow> percent_before p ps) of
          Some w \<Rightarrow> d(''success_rate'' \<mapsto> VString (w @ ''%''))
        | None \<Rightarrow> d)
     else d)"

definition IOSXE_ConvertOutput :: "string \<Rightarrow> gmap" where
  "IOSXE_ConvertOutput raw = (let result =
       [''raw_output'' \<mapsto> VString raw, ''parsed_by'' \<mapsto> VString ''cisco_iosxe_adapter'']
     in if Contains raw ''Success rate is'' then
          if Contains raw ''100 percent''
          then result(''success'' \<mapsto> VBool True, ''success_rate'' \<mapsto> VString ''100%'')
          else if Contains raw ''0 percent'' then
            if Contains raw ''Success rate is 0 percent''
            then result(''success'' \<mapsto> VBool False, ''success_rate'' \<mapsto> VString ''0%'')
            else put_word_rate raw (result(''success'' \<mapsto> VBool True))
          else put_word_rate raw (result(''success'' \<mapsto> VBool True))
        else result(''success'' \<mapsto> VBool (\<not> Contains (ToLower raw) ''failed'')))"

definition IOSXE_GetCommandTemplate :: "TaskType \<Rightarrow> CommandType \<Rightarrow> string + string" where
  "IOSXE_GetCommandTemplate tt ct =
    (if tt = ''ping'' then Inr ''ping {{.target_ip}} repeat {{.repeat}} timeout {{.timeout_seconds}}''
     else Inl (''unsupported task type for Cisco IOS-XE: '' @ tt))"

definition IOSXE_ValidatePlatformParams :: "gmap \<Rightarrow> string option" where
  "IOSXE_ValidatePlatformParams params =
    (case repeat_within 2000 ''Cisco IOS-XE: repeat count must be between 1 and 2000'' params of
       Some e \<Rightarrow> Some e
     | None \<Rightarrow> timeout_within (36 * Second) ''Cisco IOS-XE: timeout must be between 1 and 36 seconds'' params)"

section \<open>The registry of adapters\<close>

definition GenericAdapter :: PlatformAdapter where
  "GenericAdapter = \<lparr>NormalizeParams = Generic_NormalizeParams, ConvertOutput = Generic_ConvertOutput,
     GetCommandTemplate = Generic_GetCommandTemplate, ValidatePlatformParams = Generic_ValidatePlatformParams\<rparr>"

definition HuaweiVRPAdapter :: PlatformAdapter where
  "HuaweiVRPAdapter = \<lparr>NormalizeParams = Huawei_NormalizeParams, ConvertOutput = Huawei_ConvertOutput,
     GetCommandTemplate = Huawei_GetCommandTemplate, ValidatePlatformParams = Huawei_ValidatePlatformParams\<rparr>"

definition CiscoIOSXRAdapter :: PlatformAdapter where
  "CiscoIOSXRAdapter = \<lparr>NormalizeParams = IOSXR_NormalizeParams, ConvertOutput = IOSXR_ConvertOutput,
     GetCommandTemplate = IOSXR_GetCommandTemplate, ValidatePlatformParams = IOSXR_ValidatePlatformParams\<rparr>"

definition CiscoNXOSAdapter :: PlatformAdapter where
  "CiscoNXOSAdapter = \<lparr>NormalizeParams = NXOS_NormalizeParams, ConvertOutput = NXOS_ConvertOutput,
     GetCommandTemplate = NXOS_GetCommandTemplate, ValidatePlatformParams = NXOS_ValidatePlatformParams\<rparr>"

definition H3CComwareAdapter :: PlatformAdapter where
  "H3CComwareAdapter = \<lparr>NormalizeParams = H3C_NormalizeParams, ConvertOutput = H3C_ConvertOutput,
     GetCommandTemplate = H3C_GetCommandTemplate, ValidatePlatformParams = H3C_ValidatePlatformParams\<rparr>"

definition CiscoIOSXEAdapter :: PlatformAdapter where
  "CiscoIOSXEAdapter = \<lparr>NormalizeParams = IOSXE_NormalizeParams, ConvertOutput = IOSXE_ConvertOutput,
     GetCommandTemplate = IOSXE_GetCommandTemplate, ValidatePlatformParams = IOSXE_ValidatePlatformParams\<rparr>"

definition adapters :: "Platform \<rightharpoonup> PlatformAdapter" where
  "adapters = [PlatformCiscoIOSXE \<mapsto> CiscoIOSXEAdapter, PlatformCiscoIOSXR \<mapsto> CiscoIOSXRAdapter,
     PlatformCiscoNXOS \<mapsto> CiscoNXOSAdapter, PlatformHuaweiVRP \<mapsto> HuaweiVRPAdapter,
     PlatformH3CComware \<mapsto> H3CComwareAdapter]"

definition GetAdapter :: "(Platform \<rightharpoonup> PlatformAdapter) \<Rightarrow> Platform \<Rightarrow> PlatformAdapter" where
  "GetAdapter reg platform = (case reg platform of Some a \<Rightarrow> a | None \<Rightarrow> GenericAdapter)"

definition RegisterAdapter ::
  "Platform \<Rightarrow> PlatformAdapter \<Rightarrow> (Platform \<rightharpoonup> PlatformAdapter) \<Rightarrow> (Platform \<rightharpoonup> PlatformAdapter)" where
  "RegisterAdapter platform a reg = reg(platform \<mapsto> a)"

section \<open>The contract of an adapter\<close>

text \<open>
  What the interface promises to a caller: explicit parameters survive normalisation (the number
  of seconds is derived, not given), normalising again changes nothing and never makes accepted
  parameters unacceptable, the raw output is kept, and \<open>ping\<close> is the only task with a template,
  which names the target.
\<close>

locale platform_adapter =
  fixes normalize :: "gmap \<Rightarrow> gmap"
    and convert :: "string \<Rightarrow> gmap"
    and template :: "TaskType \<Rightarrow> CommandType \<Rightarrow> string + string"
    and valid :: "gmap \<Rightarrow> string option"
  assumes keeps: "params k = Some v \<Longrightarrow> k \<noteq> ''timeout_seconds'' \<Longrightarrow> normalize params k = Some v"
    and idempotent: "normalize (normalize params) = normalize params"
    and normalize_valid: "valid params = None \<Longrightarrow> valid (normalize params) = None"
    and raw_kept: "convert raw ''raw_output'' = Some (VString raw)"
    and template_iff: "isl (template tt ct) \<longleftrightarrow> tt \<noteq> ''ping''"
    and template_target: "template ''ping'' ct = Inr t \<Longrightarrow> Contains t ''{{.target_ip}}''"
begin

lemma normalize_dom: "dom params - {''timeout_seconds''} \<subseteq> dom (normalize params)"
  using keeps by (auto simp: dom_def)

lemma normalize_empty_valid: "valid Map.empty = None \<Longrightarrow> valid (normalize Map.empty) = None"
  by (rule normalize_valid)

lemma ping_template: "\<exists>t. template ''ping'' ct = Inr t \<and> Contains t ''{{.target_ip}}''"
  using template_iff [of "''ping''" ct] template_target [of ct]
  by (cases "template ''ping'' ct") auto

lemma normalize_twice_valid: "valid params = None \<Longrightarrow> valid (normalize (normalize params)) = None"
  by (simp add: idempotent normalize_valid)

end

lemma put_default_keeps: "params k = Some v \<Longrightarrow> put_default k' v' params k = Some v"
  by (auto simp: put_default_def split: option.splits)

lemma put_default_bound: "put_default k v params k \<noteq> None"
  by (auto simp: put_default_def split: option.splits)

lemma put_default_id: "params k \<noteq> None \<Longrightarrow> put_default k v params = params"
  by (auto simp: put_default_def)

lemma put_default_other [simp]: "k \<noteq> k' \<Longrightarrow> put_default k' v params k = params k"
  by (auto simp: put_default_def split: option.splits)

lemma put_default_same: "put_default k v params k = Some (case params k of None \<Rightarrow> v | Some x \<Rightarrow> x)"
  by (auto simp: put_default_def split: option.splits)

lemmas adapter_simps = put_default_keeps put_default_same put_default_id

interpretation generic: platform_adapter Generic_NormalizeParams Generic_ConvertOutput
  Generic_GetCommandTemplate Generic_ValidatePlatformParams
  by unfold_locales
    (auto simp: Generic_NormalizeParams_def Generic_ConvertOutput_def Generic_GetCommandTemplate_def
      Generic_ValidatePlatformParams_def adapter_simps)

interpretation huawei: platform_adapter Huawei_NormalizeParams Huawei_ConvertOutput
  Huawei_GetCommandTemplate Huawei_ValidatePlatformParams
  by unfold_locales
    (auto simp: Huawei_NormalizeParams_def Huawei_ConvertOutput_def Huawei_GetCommandTemplate_def
      Huawei_ValidatePlatformParams_def repeat_within_def Let_def adapter_simps split: option.splits)

interpretation iosxr: platform_adapter IOSXR_NormalizeParams IOSXR_ConvertOutput
  IOSXR_GetCommandTemplate IOSXR_ValidatePlatformParams
  by unfold_locales
    (auto simp: IOSXR_NormalizeParams_def IOSXR_ConvertOutput_def IOSXR_GetCommandTemplate_def
      IOSXR_ValidatePlatformParams_def Let_def adapter_simps)

interpretation nxos: platform_adapter NXOS_NormalizeParams NXOS_ConvertOutput
  NXOS_GetCommandTemplate NXOS_ValidatePlatformParams
  by unfold_locales
    (auto simp: NXOS_NormalizeParams_def NXOS_ConvertOutput_def NXOS_GetCommandTemplate_def
      NXOS_ValidatePlatformParams_def adapter_simps)

interpretation iosxe: platform_adapter IOSXE_NormalizeParams IOSXE_ConvertOutput
  IOSXE_GetCommandTemplate IOSXE_ValidatePlatformParams
  by unfold_locales
    (auto simp: IOSXE_NormalizeParams_def IOSXE_ConvertOutput_def IOSXE_GetCommandTemplate_def
      IOSXE_ValidatePlatformParams_def repeat_within_def timeout_within_def put_word_rate_def Let_def
      adapter_simps split: option.splits list.splits gvalue.splits)

lemma H3C_Normalize_at:
  "H3C_NormalizeParams params k =
    (if k = ''timeout_seconds'' then (case params ''timeout'' of
        None \<Rightarrow> Some (VInt (int_Seconds (2 * Second)))
      | Some (VDuration d) \<Rightarrow> Some (VInt (int_Seconds d)) | _ \<Rightarrow> params k)
     else put_default ''timeout'' (VDuration (2 * Second)) (put_default ''repeat'' (VInt 5) params) k)"
  by (simp add: H3C_NormalizeParams_def Let_def put_default_same split: option.splits gvalue.splits)

lemma H3C_Normalize_idem: "H3C_NormalizeParams (H3C_NormalizeParams params) = H3C_NormalizeParams params"
proof
  fix k
  have "put_default ''timeout'' v (put_default ''repeat'' w (H3C_NormalizeParams params)) = H3C_NormalizeParams params" for v w
    by (simp add: put_default_id H3C_Normalize_at put_default_same)
  then show "H3C_NormalizeParams (H3C_NormalizeParams params) k = H3C_NormalizeParams params k"
    unfolding H3C_Normalize_at [of "H3C_NormalizeParams params"]
    by (cases "params ''timeout''") (auto simp: H3C_Normalize_at put_default_same split: gvalue.splits)
qed

interpretation h3c: platform_adapter H3C_NormalizeParams H3C_ConvertOutput
  H3C_GetCommandTemplate H3C_ValidatePlatformParams
proof unfold_locales
  show "H3C_ValidatePlatformParams (H3C_NormalizeParams params) = None"
    if "H3C_ValidatePlatformParams params = None" for params
    using that by (auto simp: H3C_ValidatePlatformParams_def repeat_within_def timeout_within_def
        H3C_Normalize_at put_default_same split: option.splits gvalue.splits if_splits)
qed (auto simp: H3C_Normalize_at put_default_keeps H3C_Normalize_idem H3C_ConvertOutput_def Let_def
    put_outcome_def h3c_convert_loss_def H3C_GetCommandTemplate_def split: option.splits)

lemmas adapter_defs = GenericAdapter_def HuaweiVRPAdapter_def CiscoIOSXRAdapter_def
  CiscoNXOSAdapter_def H3CComwareAdapter_def CiscoIOSXEAdapter_def

text \<open>The registered adapter of every platform, and the fallback, meet the contract.\<close>

lemma GetAdapter_contract:
  "platform_adapter (NormalizeParams (GetAdapter adapters pl)) (ConvertOutput (GetAdapter adapters pl))
     (GetCommandTemplate (GetAdapter adapters pl)) (ValidatePlatformParams (GetAdapter adapters pl))"
  using generic.platform_adapter_axioms huawei.platform_adapter_axioms iosxr.platform_adapter_axioms
    nxos.platform_adapter_axioms iosxe.platform_adapter_axioms h3c.platform_adapter_axioms
  by (auto simp: GetAdapter_def adapters_def adapter_defs split: option.splits)

lemma GetAdapter_Register:
  "GetAdapter (RegisterAdapter pl a reg) pl' = (if pl' = pl then a else GetAdapter reg pl')"
  by (simp add: GetAdapter_def RegisterAdapter_def)

section \<open>Templates and their parameters\<close>

text \<open>The placeholders of the ping template for which a normalised map with only the target has
  no entry: a template engine has nothing to put there.\<close>

definition unbound_placeholders :: "PlatformAdapter \<Rightarrow> gmap \<Rightarrow> string list" where
  "unbound_placeholders a params = (case GetCommandTemplate a ''ping'' CommandTypeCommands of
     Inl _ \<Rightarrow> []
   | Inr t \<Rightarrow> filter (\<lambda>k. Contains t (''{{.'' @ k @ ''}}'') \<and> NormalizeParams a params k = None)
       [''target_ip'', ''repeat'', ''timeout_seconds''])"

text \<open>The default parameters fill the templates of H3C, NX-OS and the fallback. The templates of
  Huawei and IOS XE ask for a number of seconds that their adapters do not derive from the
  timeout, the one of IOS XR for the number of probes too.\<close>

theorem template_placeholders:
  "unbound_placeholders (GetAdapter adapters pl) [''target_ip'' \<mapsto> VString ip] =
    (if pl \<in> {PlatformHuaweiVRP, PlatformCiscoIOSXE} then [''timeout_seconds'']
     else if pl = PlatformCiscoIOSXR then [''repeat'', ''timeout_seconds''] else [])"
proof -
  have "unbound_placeholders GenericAdapter [''target_ip'' \<mapsto> VString ip] = []"
    by (simp add: unbound_placeholders_def GenericAdapter_def Generic_GetCommandTemplate_def
        Generic_NormalizeParams_def)
  moreover have "unbound_placeholders HuaweiVRPAdapter [''target_ip'' \<mapsto> VString ip] = [''timeout_seconds'']"
    by (simp add: unbound_placeholders_def HuaweiVRPAdapter_def Huawei_GetCommandTemplate_def
        Huawei_NormalizeParams_def put_default_same)
  moreover have "unbound_placeholders CiscoIOSXEAdapter [''target_ip'' \<mapsto> VString ip] = [''timeout_seconds'']"
    by (simp add: unbound_placeholders_def CiscoIOSXEAdapter_def IOSXE_GetCommandTemplate_def
        IOSXE_NormalizeParams_def put_default_same)
  moreover have "unbound_placeholders CiscoIOSXRAdapter [''target_ip'' \<mapsto> VString ip]
      = [''repeat'', ''timeout_seconds'']"
    by (simp add: unbound_placeholders_def CiscoIOSXRAdapter_def IOSXR_GetCommandTemplate_def
        IOSXR_NormalizeParams_def)
  moreover have "unbound_placeholders CiscoNXOSAdapter [''target_ip'' \<mapsto> VString ip] = []"
    by (simp add: unbound_placeholders_def CiscoNXOSAdapter_def NXOS_GetCommandTemplate_def
        NXOS_NormalizeParams_def put_default_same)
  moreover have "unbound_placeholders H3CComwareAdapter [''target_ip'' \<mapsto> VString ip] = []"
    by (simp add: unbound_placeholders_def H3CComwareAdapter_def H3C_GetCommandTemplate_def
        H3C_Normalize_at put_default_same)
  ultimately show ?thesis by (simp add: GetAdapter_def adapters_def)
qed

section \<open>What the conversions report\<close>

text \<open>\<open>percent\<close> does not overlap itself, so its only occurrence around which neither side has
  another one is unique.\<close>

lemma percent_once:
  assumes "u @ ''percent'' @ r = x @ ''percent'' @ y" "\<not> Contains u ''percent''" "\<not> Contains r ''percent''"
  shows "x = u \<and> y = r"
proof -
  have over: "us = []" if "us @ ''percent'' @ r' = ''percent'' @ y'" "\<not> Contains us ''percent''" for us r' y' :: string
  proof (rule ccontr)
    assume "us \<noteq> []"
    with that(1) have "\<exists>t. us = ''percent'' @ t" by (auto simp: append_eq_Cons_conv)
    with that(2) show False by (metis Contains_iff append_Nil)
  qed
  have over': "us = []" if "''percent'' @ r = us @ ''percent'' @ y" for us
  proof (rule ccontr)
    assume "us \<noteq> []"
    with that have "\<exists>t. r = t @ ''percent'' @ y" by (auto simp: Cons_eq_append_conv)
    with assms(3) show False by (auto simp: Contains_iff)
  qed
  from assms(1) obtain us where
    "u = x @ us \<and> us @ ''percent'' @ r = ''percent'' @ y \<or> u @ us = x \<and> ''percent'' @ r = us @ ''percent'' @ y"
    by (auto simp: append_eq_append_conv2)
  then show ?thesis
  proof
    assume a: "u = x @ us \<and> us @ ''percent'' @ r = ''percent'' @ y"
    have "\<not> Contains us ''percent''" using a assms(2) Contains_appendI2 by blast
    with over a have "us = []" by blast
    with a show ?thesis by simp
  next
    assume a: "u @ us = x \<and> ''percent'' @ r = us @ ''percent'' @ y"
    with over' have "us = []" by blast
    with a show ?thesis by simp
  qed
qed

lemma Contains_percent_once:
  assumes "\<not> Contains u ''percent''" "\<not> Contains r ''percent''"
  shows "Contains (u @ ''percent'' @ r) (q @ ''percent'') \<longleftrightarrow> HasSuffix u q"
proof
  assume "Contains (u @ ''percent'' @ r) (q @ ''percent'')"
  then obtain x y where "u @ ''percent'' @ r = (x @ q) @ ''percent'' @ y"
    unfolding Contains_iff by (metis append.assoc)
  with percent_once [OF this assms] show "HasSuffix u q" by (auto simp: HasSuffix_iff)
next
  assume "HasSuffix u q"
  then show "Contains (u @ ''percent'' @ r) (q @ ''percent'')"
    unfolding HasSuffix_iff Contains_iff by (metis append.assoc)
qed

lemma HasPrefix_break: "c \<notin> set p \<Longrightarrow> HasPrefix (a @ c # t) p \<longleftrightarrow> HasPrefix a p"
  by (induction a p rule: HasPrefix.induct) auto

lemma Contains_break: "c \<notin> set p \<Longrightarrow> p \<noteq> [] \<Longrightarrow> Contains (a @ c # t) p \<longleftrightarrow> Contains a p \<or> Contains t p"
proof (induction a)
  case Nil
  then show ?case by (cases p) auto
next
  case (Cons d a)
  then show ?case using HasPrefix_break [of c p "d # a" t] by simp
qed

lemma Fields_acc_Contains: "w \<in> set (Fields_acc acc s) \<Longrightarrow> Contains (rev acc @ s) w"
proof (induction s arbitrary: acc)
  case Nil
  then show ?case by (auto simp: Contains_iff split: if_splits intro: exI [of _ "[]"])
next
  case (Cons c s)
  show ?case
  proof (cases "is_space c")
    case False
    then show ?thesis using Cons.IH [of "c # acc"] Cons.prems by simp
  next
    case True
    then have "w = rev acc \<or> w \<in> set (Fields_acc [] s)" using Cons.prems by (auto split: if_splits)
    then show ?thesis
    proof
      assume "w = rev acc"
      then show ?thesis by (metis Contains_iff append_Nil)
    next
      assume "w \<in> set (Fields_acc [] s)"
      then have "Contains s w" using Cons.IH [of "[]"] by simp
      then show ?thesis using Contains_appendI2 [of s w "rev acc @ [c]"] by simp
    qed
  qed
qed

lemma percent_before_skip:
  "''percent'' \<notin> set us \<Longrightarrow> x \<noteq> ''percent'' \<Longrightarrow>
     percent_before p (us @ x # ''percent'' # vs) = Some x"
  by (induction us arbitrary: p) auto

lemma first_percent:
  assumes "L = us @ x # ''percent'' # vs" "''percent'' \<notin> set us" "x \<noteq> ''percent''"
  shows "(case L of [] \<Rightarrow> None | p # ps \<Rightarrow> percent_before p ps) = Some x"
  using assms percent_before_skip [of "tl us" x "hd us" vs] by (cases us) auto

text \<open>The output around the summary line: what precedes it ends in white space, what follows
  the word starts with it, and neither has a further percentage.\<close>

definition rate_ctx :: "string \<Rightarrow> string \<Rightarrow> bool" where
  "rate_ctx a r \<longleftrightarrow> (a = [] \<or> is_space (last a)) \<and> (r = [] \<or> is_space (hd r))
     \<and> \<not> Contains a ''percent'' \<and> \<not> Contains r ''percent''"

lemma rate_prefix_no_percent:
  assumes "rate_ctx a r"
  shows "\<not> Contains (a @ ''Success rate is '' @ nat_dec n @ '' '') ''percent''"
proof -
  have "CHR ''p'' \<notin> set (''Success rate is '' @ nat_dec n @ '' '')"
    by (simp add: nat_dec_no_char is_digit_def)
  then have s: "\<not> Contains (''Success rate is '' @ nat_dec n @ '' '') ''percent''"
    unfolding Contains_iff by (metis Cons_eq_appendI in_set_conv_decomp)
  show ?thesis
  proof (cases a rule: rev_cases)
    case (snoc b c)
    then have "c \<notin> set ''percent''" "\<not> Contains b ''percent''"
      using assms Contains_appendI1 by (auto simp: rate_ctx_def is_space_def)
    with s snoc show ?thesis
      using Contains_break [of c "''percent''" b "''Success rate is '' @ nat_dec n @ '' ''"] by simp
  qed (use s in simp)
qed

lemma digit_char_0: "digit_char 0 = CHR ''0''"
  by (simp add: digit_char_def char_of_def bit_Suc_0_iff)

lemma nat_dec_0: "nat_dec 0 = ''0''"
  by (subst nat_dec.simps) (simp add: digit_char_0)

lemma rate_suffix_zero:
  "HasSuffix (a @ ''Success rate is '' @ nat_dec n) ''Success rate is 0'' \<longleftrightarrow> n = 0"
proof (cases "n < 10")
  case True
  then have "HasSuffix (a @ ''Success rate is '' @ nat_dec n) ''Success rate is 0''
      \<longleftrightarrow> digit_char n = digit_char 0"
    by (subst nat_dec.simps) (auto simp: HasSuffix_iff digit_char_0)
  also have "\<dots> \<longleftrightarrow> n = 0" using True digit_val_char [of n] digit_val_char [of 0] by auto
  finally show ?thesis .
next
  case False
  let ?m = "nat_dec (n div 10)"
  have "is_digit (last ?m)"
    using nat_dec_digits [of "n div 10"] nat_dec_nonempty last_in_set by (auto simp: list_all_iff)
  moreover have "nat_dec n = butlast ?m @ [last ?m, digit_char (n mod 10)]"
    using False nat_dec_nonempty [of "n div 10"] by (subst nat_dec.simps) simp
  ultimately show ?thesis using False by (auto simp: HasSuffix_iff is_digit_def)
qed

lemma Fields_rate:
  assumes "rate_ctx a r"
  shows "(case Fields (a @ rate_line n r) of [] \<Rightarrow> None | p # ps \<Rightarrow> percent_before p ps) = Some (nat_dec n)"
proof -
  obtain ws where ws: "Fields (rate_line n r) = [''Success'', ''rate'', ''is''] @ nat_dec n # ''percent'' # ws"
    using Fields_rate_line assms by (auto simp: rate_ctx_def)
  have n: "nat_dec n \<noteq> ''percent''" using nat_dec_no_char [of "CHR ''p''" n] by (auto simp: is_digit_def)
  show ?thesis
  proof (cases a rule: rev_cases)
    case (snoc b c)
    then have c: "is_space c" "\<not> Contains b ''percent''"
      using assms Contains_appendI1 by (auto simp: rate_ctx_def)
    then have b: "''percent'' \<notin> set (Fields b)"
      using Fields_acc_Contains [of "''percent''" "[]" b] by (auto simp: Fields_def)
    have "Fields (a @ rate_line n r) = Fields b @ Fields (rate_line n r)"
      using snoc Fields_acc_split [OF c(1), of "[]" b] by (simp add: Fields_def)
    then show ?thesis
      using first_percent [of _ "Fields b @ [''Success'', ''rate'', ''is'']" "nat_dec n" ws] ws b n by simp
  qed (use first_percent [OF ws] n in simp)
qed

text \<open>The IOS XE adapter reports every success rate from 0 to 100 percent as it is printed, and
  success exactly when a probe was answered: unlike the parser of the ping task it tests the
  whole phrase for the zero rate.\<close>

theorem iosxe_adapter_rate:
  assumes "rate_ctx a r" "n \<le> 100"
  shows "IOSXE_ConvertOutput (a @ rate_line n r) ''success_rate'' = Some (VString (nat_dec n @ ''%''))
    \<and> IOSXE_ConvertOutput (a @ rate_line n r) ''success'' = Some (VBool (n \<noteq> 0))"
proof -
  let ?raw = "a @ rate_line n r" and ?u = "a @ ''Success rate is '' @ nat_dec n @ '' ''"
  have r: "\<not> Contains r ''percent''" using assms(1) by (simp add: rate_ctx_def)
  have c: "Contains ?raw ((q @ '' '') @ ''percent'') \<longleftrightarrow> HasSuffix (a @ ''Success rate is '' @ nat_dec n) q" for q
    using Contains_percent_once [OF rate_prefix_no_percent [OF assms(1)] r, of n "q @ '' ''"]
      HasSuffix_snoc [of "a @ ''Success rate is '' @ nat_dec n" "CHR '' ''" q "CHR '' ''"]
    by (simp add: rate_line_def)
  have "Contains ?raw ''100 percent'' \<longleftrightarrow> n = 100"
    using c [of "''100''"] HasSuffix_100 [OF assms(2), of "a @ ''Success rate is ''"] by (simp add: is_digit_def)
  moreover have "Contains ?raw ''Success rate is 0 percent'' \<longleftrightarrow> n = 0"
    using c [of "''Success rate is 0''"] rate_suffix_zero by simp
  moreover have "Contains ?raw ''0 percent'' \<longleftrightarrow> n mod 10 = 0"
    using c [of "''0''"] HasSuffix_0 [of "a @ ''Success rate is ''" n] by simp
  moreover have "Contains ?raw ''Success rate is''" "Contains ?raw ''percent''"
    using Contains_appendI2 [of "rate_line n r"] Contains_appendI2 [of "''percent'' @ r" "''percent''" ?u]
    by (simp_all add: rate_line_def)
  moreover note nat_dec_100 nat_dec_0
  ultimately show ?thesis
    using Fields_rate [OF assms(1), of n]
    by (auto simp: IOSXE_ConvertOutput_def put_word_rate_def Let_def split: option.splits)
qed

theorem iosxe_adapter_rate_witness:
  "IOSXE_ConvertOutput (''ping 10.0.0.1'' @ newline @ ''Success rate is 60 percent (3/5)'') ''success_rate''
     = Some (VString ''60%'')"
proof -
  have n: "nat_dec 60 = ''60''"
    by (simp add: nat_dec.simps digit_char_def char_of_def bit_Suc_0_iff)
  have "rate_ctx (''ping 10.0.0.1'' @ newline) '' (3/5)''" by (simp add: rate_ctx_def is_space_def)
  from iosxe_adapter_rate [OF this, of 60] show ?thesis by (simp add: rate_line_def n)
qed

lemma total_is_zero:
  "Contains s ''100% packet loss'' \<Longrightarrow> Contains s ''0% packet loss''"
  "Contains s ''100.0% packet loss'' \<Longrightarrow> Contains s ''0.0% packet loss''"
  using Contains_trans [of s "''100% packet loss''" "''0% packet loss''"]
    Contains_trans [of s "''100.0% packet loss''" "''0.0% packet loss''"] by simp_all

text \<open>A Huawei summary with a loss of \<open>n\<close> percent: every multiple of ten, a total loss
  included, is converted to success without loss, and other losses are not converted at all;
  the branch for the total loss is never reached.\<close>

lemma huawei_adapter_loss:
  assumes "loss_ctx a r" "n \<le> 100"
  shows "Huawei_ConvertOutput (loss_line a n [] r) ''packet_loss''
      = (if n mod 10 = 0 then Some (VString ''0%'') else None)"
    and "Huawei_ConvertOutput (loss_line a n [] r) ''success''
      = (if n mod 10 = 0 then Some (VBool True) else None)"
proof -
  have pre: "HasPrefix ('' packet loss'' @ r) '' packet loss''" by (simp add: HasPrefix_iff)
  have c: "Contains (loss_line a n [] r) ''0% packet loss'' \<longleftrightarrow> n mod 10 = 0"
    using loss_line_split [OF assms(1) _ pre, of "[]" n "''0''"] HasSuffix_0 [of a n] by simp
  note d = total_is_zero [of "loss_line a n [] r"]
  show "Huawei_ConvertOutput (loss_line a n [] r) ''packet_loss''
      = (if n mod 10 = 0 then Some (VString ''0%'') else None)"
    "Huawei_ConvertOutput (loss_line a n [] r) ''success''
      = (if n mod 10 = 0 then Some (VBool True) else None)"
    using d by (auto simp: Huawei_ConvertOutput_def Let_def loss_line_has c)
qed

lemma huawei_never_total: "Huawei_ConvertOutput raw ''packet_loss'' \<noteq> Some (VString ''100%'')"
  using total_is_zero [of raw] by (auto simp: Huawei_ConvertOutput_def Let_def)

lemma h3c_re_at_before: "CHR ''%'' \<notin> set b \<Longrightarrow> h3c_re_at (b @ CHR '' '' # x) = None"
proof -
  assume b: "CHR ''%'' \<notin> set b"
  have nd: "\<not> is_digit (CHR '' '')" by (simp add: is_digit_def)
  have no: "\<not> h3c_re_tail (t @ CHR '' '' # x)" if "set t \<subseteq> set b" for t
    using that b by (cases t) (auto simp: h3c_re_tail_def)
  let ?r = "dropWhile is_digit b"
  have dw: "dropWhile is_digit (s @ CHR '' '' # x) = dropWhile is_digit s @ CHR '' '' # x" for s
    using nd by (simp add: dropWhile_append3)
  have sub: "set ?r \<subseteq> set b" "set (dropWhile is_digit (drop k ?r)) \<subseteq> set b" for k
    by (auto dest!: set_dropWhileD in_set_dropD)
  show ?thesis
  proof (cases ?r)
    case Nil
    then show ?thesis using no [of "[]"] dw [of b] nd by (simp add: h3c_re_at_def Let_def del: dropWhile_eq_Nil_conv)
  next
    case (Cons c r')
    show ?thesis
      unfolding h3c_re_at_def Let_def dw Cons
      using no [OF sub(2), of 0] no [OF sub(2), of 1] dw [of "c # r'"] dw [of r'] Cons by auto
  qed
qed

lemma h3c_re_find_skip: "CHR ''%'' \<notin> set b \<Longrightarrow> h3c_re_find (b @ CHR '' '' # x) = h3c_re_find x"
proof (induction b)
  case Nil
  then show ?case using h3c_re_at_before [of "[]" x] by simp
next
  case (Cons c b)
  then show ?case using h3c_re_at_before [of "c # b" x] by simp
qed

lemma h3c_re_find_number:
  "h3c_re_find (nat_dec n @ ''.0'' @ ''% packet loss'' @ r) = Some (nat_dec n @ ''.0'')"
proof -
  let ?s = "nat_dec n @ ''.0'' @ ''% packet loss'' @ r"
  have td: "takeWhile is_digit ?s = nat_dec n" "dropWhile is_digit ?s = ''.0'' @ ''% packet loss'' @ r"
    using takeWhile_all [OF nat_dec_digits, of "''.0'' @ ''% packet loss'' @ r" n]
    by (simp_all add: is_digit_def)
  have "h3c_re_tail (''% packet loss'' @ r)"
    by (simp add: h3c_re_tail_def re_spaces_def re_space_def)
  then have "h3c_re_at ?s = Some (nat_dec n @ ''.0'')"
    unfolding h3c_re_at_def Let_def td using nat_dec_nonempty [of n] by (simp add: is_digit_def)
  then show ?thesis using nat_dec_nonempty [of n] by (cases ?s) auto
qed

lemma h3c_re_find_loss: "loss_ctx a r \<Longrightarrow> h3c_re_find (loss_line a n ''.0'' r) = Some (nat_dec n @ ''.0'')"
proof (cases a rule: rev_cases)
  case Nil
  then show ?thesis using h3c_re_find_number [of n r] by (simp add: loss_line_def)
next
  case (snoc b c)
  assume "loss_ctx a r"
  then have "c = CHR '' ''" "CHR ''%'' \<notin> set b" using snoc by (auto simp: loss_ctx_def)
  then show ?thesis
    using h3c_re_find_skip [of b "nat_dec n @ ''.0'' @ ''% packet loss'' @ r"] h3c_re_find_number [of n r] snoc
    by (simp add: loss_line_def)
qed

text \<open>An H3C summary with a loss of \<open>n.0\<close> percent: multiples of ten, a total loss included, are
  converted to success without loss, all other losses exactly.\<close>

lemma h3c_adapter_loss:
  assumes "loss_ctx a r" "n \<le> 100"
  shows "H3C_ConvertOutput (loss_line a n ''.0'' r) ''success'' = Some (VBool (n mod 10 = 0))"
    and "H3C_ConvertOutput (loss_line a n ''.0'' r) ''packet_loss''
      = Some (VString (if n mod 10 = 0 then ''0%'' else nat_dec n @ ''.0%''))"
    and "H3C_ConvertOutput (loss_line a n ''.0'' r) ''success_rate''
      = Some (VString (if n mod 10 = 0 then ''100%'' else nat_dec (100 - n) @ ''%''))"
proof -
  let ?l = "loss_line a n ''.0'' r"
  have pre: "HasPrefix ('' packet loss'' @ r) '' packet loss''" by (simp add: HasPrefix_iff)
  have "HasSuffix (a @ nat_dec n @ ''.0'') ''0.0'' \<longleftrightarrow> HasSuffix (a @ nat_dec n) ''0''"
    using HasSuffix_snoc [of "a @ nat_dec n @ ''.''" "CHR ''0''" "''0.''" "CHR ''0''"]
      HasSuffix_snoc [of "a @ nat_dec n" "CHR ''.''" "''0''" "CHR ''.''"] by simp
  then have c: "Contains ?l ''0.0% packet loss'' \<longleftrightarrow> n mod 10 = 0"
    using loss_line_split [OF assms(1) _ pre, of "''.0''" n "''0.0''"] HasSuffix_0 [of a n] by simp
  have t: "Contains ?l ''100.0% packet loss'' \<longrightarrow> n mod 10 = 0" using total_is_zero(2) [of ?l] c by blast
  have v: "h3c_convert_loss (nat_dec n @ ''.0'') d = d(''packet_loss'' \<mapsto> VString (nat_dec n @ ''.0%''),
      ''success'' \<mapsto> VBool False, ''success_rate'' \<mapsto> VString (nat_dec (100 - n) @ ''%''))" if "n mod 10 \<noteq> 0" for d
  proof -
    have "nat_dec n \<noteq> ''0''" using that dec_nat_dec [of n] nat_dec_0 dec_nat_dec [of 0] by force
    then have "nat_dec n @ ''.0'' \<noteq> ''0'' @ ''.0''" by (simp only: append_same_eq not_False_eq_True)
    then have "nat_dec n @ ''.0'' \<noteq> ''0.0''" by simp
    moreover have "length (nat_dec n @ ''.0'') \<noteq> length ''0''" by simp
    then have "nat_dec n @ ''.0'' \<noteq> ''0''" by metis
    moreover have "Duration_of_float (of_nat n) = int n"
      using assms(2) by (simp add: Duration_of_float_def)
    moreover have "Itoa (100 - int n) = nat_dec (100 - n)"
      using assms(2) by (simp add: Itoa_def nat_diff_distrib)
    ultimately show ?thesis
      using ParseFloat_percent [OF assms(2)] by (simp add: h3c_convert_loss_def Let_def)
  qed
  note defs = H3C_ConvertOutput_def Let_def loss_line_has c put_outcome_def h3c_re_find_loss [OF assms(1)] v
  show "H3C_ConvertOutput ?l ''success'' = Some (VBool (n mod 10 = 0))"
    "H3C_ConvertOutput ?l ''packet_loss'' = Some (VString (if n mod 10 = 0 then ''0%'' else nat_dec n @ ''.0%''))"
    "H3C_ConvertOutput ?l ''success_rate'' = Some (VString (if n mod 10 = 0 then ''100%'' else nat_dec (100 - n) @ ''%''))"
    using t by (auto simp: defs)
qed

section \<open>Properties\<close>



text \<open>The losses the Huawei and H3C adapters convert a summary line with \<open>n\<close> (\<open>n.0\<close>) percent to:
  a multiple of ten, so also a total loss, becomes success without loss; of the others H3C
  reports the loss and the complementary rate exactly, and Huawei reports nothing.\<close>

theorem adapter_losses:
  assumes "loss_ctx a r" "n \<le> 100"
  shows "map (Huawei_ConvertOutput (loss_line a n [] r)) [''success'', ''packet_loss'']
      = (if n mod 10 = 0 then [Some (VBool True), Some (VString ''0%'')] else [None, None])
    \<and> map (H3C_ConvertOutput (loss_line a n ''.0'' r)) [''success'', ''packet_loss'', ''success_rate'']
      = map Some (if n mod 10 = 0 then [VBool True, VString ''0%'', VString ''100%'']
         else [VBool False, VString (nat_dec n @ ''.0%''), VString (nat_dec (100 - n) @ ''%'')])"
  using huawei_adapter_loss [OF assms] h3c_adapter_loss [OF assms] by simp

theorem adapter_losses_witness:
  "Huawei_ConvertOutput ''5 packets transmitted, 100% packet loss'' ''success'' = Some (VBool True)
   \<and> H3C_ConvertOutput ''5 packets transmitted, 100.0% packet loss'' ''success'' = Some (VBool True)"
proof -
  have "loss_ctx ''5 packets transmitted, '' []" by (simp add: loss_ctx_def)
  from adapter_losses [OF this, of 100] show ?thesis by (simp add: loss_line_def nat_dec_100)
qed

end
