(* ===== verification/Task_Errors.thy ===== *)
theory Task_Errors
  imports Registry
begin

text \<open>
  Task errors (\<open>task/errors.go\<close>). The constructors return pointers and \<open>AddDetail\<close> and
  \<open>WithCause\<close> write through them, so the objects live in a heap, a list in allocation order, and
  an \<open>error\<close> value that is a \<open>*TaskError\<close> is an index into it. \<open>Error\<close> follows the causes; a
  cyclic chain has no end, so its model takes fuel and \<open>None\<close> is not returning. A wrapping
  error made by \<open>fmt.Errorf\<close> carries its text and what it wraps.
\<close>

datatype TaskErrorCode = ErrCodeInvalidParams | ErrCodeMissingParams | ErrCodeParamValidation
  | ErrCodeConnectionFailed | ErrCodeConnectionTimeout | ErrCodeAuthFailed
  | ErrCodeExecutionFailed | ErrCodeCommandFailed | ErrCodeTimeout | ErrCodeUnsupportedPlatform
  | ErrCodeUnsupportedCommand | ErrCodeParseOutputFailed | ErrCodeInvalidOutput
  | ErrCodeSystemError | ErrCodeInternalError | ErrCodeResourceLimit
  | ErrCodeTaskNotFound | ErrCodeTaskExists | ErrCodeRegistryError

fun code_text :: "TaskErrorCode \<Rightarrow> string" where
  "code_text ErrCodeInvalidParams = ''INVALID_PARAMS''"
| "code_text ErrCodeMissingParams = ''MISSING_PARAMS''"
| "code_text ErrCodeParamValidation = ''PARAM_VALIDATION''"
| "code_text ErrCodeConnectionFailed = ''CONNECTION_FAILED''"
| "code_text ErrCodeConnectionTimeout = ''CONNECTION_TIMEOUT''"
| "code_text ErrCodeAuthFailed = ''AUTH_FAILED''"
| "code_text ErrCodeExecutionFailed = ''EXECUTION_FAILED''"
| "code_text ErrCodeCommandFailed = ''COMMAND_FAILED''"
| "code_text ErrCodeTimeout = ''TIMEOUT''"
| "code_text ErrCodeUnsupportedPlatform = ''UNSUPPORTED_PLATFORM''"
| "code_text ErrCodeUnsupportedCommand = ''UNSUPPORTED_COMMAND''"
| "code_text ErrCodeParseOutputFailed = ''PARSE_OUTPUT_FAILED''"
| "code_text ErrCodeInvalidOutput = ''INVALID_OUTPUT''"
| "code_text ErrCodeSystemError = ''SYSTEM_ERROR''"
| "code_text ErrCodeInternalError = ''INTERNAL_ERROR''"
| "code_text ErrCodeResourceLimit = ''RESOURCE_LIMIT''"
| "code_text ErrCodeTaskNotFound = ''TASK_NOT_FOUND''"
| "code_text ErrCodeTaskExists = ''TASK_EXISTS''"
| "code_text ErrCodeRegistryError = ''REGISTRY_ERROR''"

datatype gerror = PlainErr string | TaskErr nat | WrapErr string gerror

record TaskError =
  te_Code :: TaskErrorCode
  te_Message :: string
  te_Details :: "gmap option"
  te_Cause :: "gerror option"

type_synonym err_heap = "TaskError list"

section \<open>Construction\<close>

definition alloc :: "TaskError \<Rightarrow> err_heap \<Rightarrow> nat \<times> err_heap" where
  "alloc e h = (length h, h @ [e])"

definition NewTaskError :: "TaskErrorCode \<Rightarrow> string \<Rightarrow> err_heap \<Rightarrow> nat \<times> err_heap" where
  "NewTaskError code message = alloc \<lparr>te_Code = code, te_Message = message, te_Details = Some Map.empty,
     te_Cause = None\<rparr>"

definition NewTaskErrorWithCause ::
  "TaskErrorCode \<Rightarrow> string \<Rightarrow> gerror option \<Rightarrow> err_heap \<Rightarrow> nat \<times> err_heap" where
  "NewTaskErrorWithCause code message cause = alloc \<lparr>te_Code = code, te_Message = message,
     te_Details = Some Map.empty, te_Cause = cause\<rparr>"

definition NewTaskErrorWithDetails ::
  "TaskErrorCode \<Rightarrow> string \<Rightarrow> gmap option \<Rightarrow> err_heap \<Rightarrow> nat \<times> err_heap" where
  "NewTaskErrorWithDetails code message details = alloc \<lparr>te_Code = code, te_Message = message,
     te_Details = details, te_Cause = None\<rparr>"

definition AddDetail :: "string \<Rightarrow> gvalue \<Rightarrow> nat \<Rightarrow> err_heap \<Rightarrow> nat \<times> err_heap" where
  "AddDetail key val e h = (e, h[e := (h ! e)\<lparr>te_Details :=
     Some ((case te_Details (h ! e) of None \<Rightarrow> Map.empty | Some d \<Rightarrow> d)(key \<mapsto> val))\<rparr>])"

definition WithCause :: "gerror option \<Rightarrow> nat \<Rightarrow> err_heap \<Rightarrow> nat \<times> err_heap" where
  "WithCause cause e h = (e, h[e := (h ! e)\<lparr>te_Cause := cause\<rparr>])"

definition ErrInvalidParam :: "string \<Rightarrow> string \<Rightarrow> err_heap \<Rightarrow> nat \<times> err_heap" where
  "ErrInvalidParam paramName reason = NewTaskErrorWithDetails ErrCodeParamValidation
     (''invalid parameter '' @ quote @ paramName @ quote @ '': '' @ reason)
     (Some [''parameter'' \<mapsto> VString paramName, ''reason'' \<mapsto> VString reason])"

definition ErrMissingParam :: "string \<Rightarrow> err_heap \<Rightarrow> nat \<times> err_heap" where
  "ErrMissingParam paramName = NewTaskErrorWithDetails ErrCodeMissingParams
     (''missing required parameter: '' @ paramName) (Some [''parameter'' \<mapsto> VString paramName])"

definition ErrCommandFailed :: "string \<Rightarrow> string \<Rightarrow> gerror option \<Rightarrow> err_heap \<Rightarrow> nat \<times> err_heap" where
  "ErrCommandFailed command output cause h =
    (let (e, h1) = NewTaskErrorWithCause ErrCodeCommandFailed (''command execution failed: '' @ command) cause h;
         (e, h2) = AddDetail ''command'' (VString command) e h1
     in AddDetail ''output'' (VString output) e h2)"

text \<open>The task type in the details has its own dynamic type, of which only the name is kept.\<close>

definition ErrPlatformNotSupported :: "string \<Rightarrow> TaskType \<Rightarrow> err_heap \<Rightarrow> nat \<times> err_heap" where
  "ErrPlatformNotSupported platform taskType = NewTaskErrorWithDetails ErrCodeUnsupportedPlatform
     (''platform '' @ quote @ platform @ quote @ '' not supported for task '' @ quote @ taskType @ quote)
     (Some [''platform'' \<mapsto> VString platform, ''task_type'' \<mapsto> VOther ''task.TaskType''])"

definition ErrCommandTypeNotSupported :: "string \<Rightarrow> string \<Rightarrow> err_heap \<Rightarrow> nat \<times> err_heap" where
  "ErrCommandTypeNotSupported commandType platform = NewTaskErrorWithDetails ErrCodeUnsupportedCommand
     (''command type '' @ quote @ commandType @ quote @ '' not supported on platform '' @ quote @ platform @ quote)
     (Some [''command_type'' \<mapsto> VString commandType, ''platform'' \<mapsto> VString platform])"

text \<open>The package variables, in the order of their initialisation.\<close>

definition predefined :: "(TaskErrorCode \<times> string) list" where
  "predefined = [(ErrCodeTaskNotFound, ''task not found''), (ErrCodeInvalidParams, ''invalid parameters''),
     (ErrCodeMissingParams, ''missing required parameters''), (ErrCodeConnectionFailed, ''connection failed''),
     (ErrCodeTimeout, ''execution timeout''), (ErrCodeUnsupportedPlatform, ''unsupported platform''),
     (ErrCodeParseOutputFailed, ''failed to parse output'')]"

definition init_heap :: err_heap where
  "init_heap = fold (\<lambda>(c, m) h. snd (NewTaskError c m h)) predefined []"

section \<open>Reading\<close>

fun Error :: "nat \<Rightarrow> err_heap \<Rightarrow> gerror \<Rightarrow> string option" where
  "Error 0 h e = None"
| "Error (Suc n) h (PlainErr s) = Some s"
| "Error (Suc n) h (WrapErr s _) = Some s"
| "Error (Suc n) h (TaskErr r) = (let e = h ! r; head = ''['' @ code_text (te_Code e) @ ''] '' @ te_Message e in
     case te_Cause e of None \<Rightarrow> Some head
     | Some c \<Rightarrow> (case Error n h c of None \<Rightarrow> None | Some s \<Rightarrow> Some (head @ '': '' @ s)))"

definition Unwrap :: "err_heap \<Rightarrow> nat \<Rightarrow> gerror option" where
  "Unwrap h r = te_Cause (h ! r)"

definition IsCode :: "TaskErrorCode \<Rightarrow> TaskError \<Rightarrow> bool" where
  "IsCode code e \<longleftrightarrow> te_Code e = code"

definition IsTaskError :: "gerror \<Rightarrow> bool" where
  "IsTaskError err = (case err of TaskErr _ \<Rightarrow> True | _ \<Rightarrow> False)"

definition GetTaskError :: "err_heap \<Rightarrow> gerror \<Rightarrow> TaskError option" where
  "GetTaskError h err = (case err of TaskErr r \<Rightarrow> Some (h ! r) | _ \<Rightarrow> None)"

definition IsErrorCode :: "err_heap \<Rightarrow> gerror \<Rightarrow> TaskErrorCode \<Rightarrow> bool" where
  "IsErrorCode h err code = (case GetTaskError h err of Some e \<Rightarrow> IsCode code e | None \<Rightarrow> False)"

definition IsRecoverableError :: "err_heap \<Rightarrow> gerror \<Rightarrow> bool" where
  "IsRecoverableError h err = (case GetTaskError h err of None \<Rightarrow> False
     | Some e \<Rightarrow> te_Code e \<in> {ErrCodeConnectionTimeout, ErrCodeTimeout, ErrCodeResourceLimit})"

definition IsConfigError :: "err_heap \<Rightarrow> gerror \<Rightarrow> bool" where
  "IsConfigError h err = (case GetTaskError h err of None \<Rightarrow> False
     | Some e \<Rightarrow> te_Code e \<in> {ErrCodeInvalidParams, ErrCodeMissingParams, ErrCodeParamValidation})"

definition IsSystemError :: "err_heap \<Rightarrow> gerror \<Rightarrow> bool" where
  "IsSystemError h err = (case GetTaskError h err of None \<Rightarrow> False
     | Some e \<Rightarrow> te_Code e \<in> {ErrCodeSystemError, ErrCodeInternalError, ErrCodeResourceLimit})"

section \<open>Texts and classes\<close>

lemma code_text_inj: "code_text a = code_text b \<longleftrightarrow> a = b"
  by (cases a; cases b; simp)

text \<open>A heap in which every cause was allocated before the error it explains, which holds when a
  cause is set at construction.\<close>

fun err_below :: "nat \<Rightarrow> gerror \<Rightarrow> bool" where
  "err_below n (TaskErr r) \<longleftrightarrow> r < n"
| "err_below n _ \<longleftrightarrow> True"

definition causes_older :: "err_heap \<Rightarrow> bool" where
  "causes_older h \<longleftrightarrow> (\<forall>r<length h. \<forall>c. te_Cause (h ! r) = Some c \<longrightarrow> err_below r c)"

lemma err_below_mono: "err_below n e \<Longrightarrow> n \<le> m \<Longrightarrow> err_below m e"
  by (cases e) auto

lemma Error_total:
  "causes_older h \<Longrightarrow> err_below n e \<Longrightarrow> n \<le> length h \<Longrightarrow> \<exists>s. Error (Suc n) h e = Some s"
proof (induction n arbitrary: e rule: less_induct)
  case (less n)
  show ?case
  proof (cases e)
    case (TaskErr r)
    then have r: "r < n" using less.prems(2) by simp
    show ?thesis
    proof (cases "te_Cause (h ! r)")
      case None
      then show ?thesis using TaskErr by (simp add: Let_def)
    next
      case (Some c)
      then have c: "err_below r c" using less.prems r by (auto simp: causes_older_def)
      then have "err_below (n - 1) c" using r err_below_mono by fastforce
      then have "\<exists>s. Error (Suc (n - 1)) h c = Some s"
        using less.IH [of "n - 1" c] less.prems r by simp
      then show ?thesis using TaskErr Some r by (auto simp: Let_def)
    qed
  qed simp_all
qed

lemma causes_older_alloc:
  assumes "causes_older h" "\<forall>c. te_Cause e = Some c \<longrightarrow> err_below (length h) c"
  shows "causes_older (snd (alloc e h))"
  using assms by (auto simp: causes_older_def alloc_def nth_append less_Suc_eq)

lemma AddDetail_cause: "r < length h \<Longrightarrow> e < length h \<Longrightarrow>
    te_Cause (snd (AddDetail k v e h) ! r) = te_Cause (h ! r)"
  by (simp add: AddDetail_def nth_list_update)

lemma causes_older_AddDetail:
  "e < length h \<Longrightarrow> causes_older (snd (AddDetail k v e h)) \<longleftrightarrow> causes_older h"
  using AddDetail_cause [of _ h e k v] by (simp add: causes_older_def) (simp add: AddDetail_def)

text \<open>An error that is made its own cause has no text: \<open>Error\<close> recurses for ever.\<close>

lemma Error_cycle: "e < length h \<Longrightarrow> Error n (snd (WithCause (Some (TaskErr e)) e h)) (TaskErr e) = None"
  by (induction n) (simp_all add: WithCause_def Let_def)

text \<open>Details added to a package variable are seen by every later user of it.\<close>

lemma predefined_shared:
  "fst (AddDetail k v 1 init_heap) = 1
   \<and> te_Details (snd (AddDetail k v 1 init_heap) ! 1) = Some [k \<mapsto> v]
   \<and> te_Details (init_heap ! 1) = Some Map.empty"
  by (simp add: AddDetail_def init_heap_def predefined_def NewTaskError_def alloc_def)

text \<open>The text of a failed command: enough fuel for the causes gives it, with the text of the
  cause at the end; the details hold command and output, the class is none of the three, and
  the heap keeps its order, so the error can be a cause in turn.\<close>

theorem ErrCommandFailed_spec:
  assumes "causes_older h" "err_below (length h) c"
  shows "\<exists>s r h1. ErrCommandFailed cmd out (Some c) h = (r, h1) \<and> r = length h \<and> causes_older h1
    \<and> Error (Suc (length h)) h1 c = Some s
    \<and> Error (Suc (Suc (length h))) h1 (TaskErr r)
        = Some (''[COMMAND_FAILED] command execution failed: '' @ cmd @ '': '' @ s)
    \<and> te_Details (h1 ! r) = Some [''command'' \<mapsto> VString cmd, ''output'' \<mapsto> VString out]
    \<and> \<not> IsRecoverableError h1 (TaskErr r) \<and> \<not> IsConfigError h1 (TaskErr r) \<and> \<not> IsSystemError h1 (TaskErr r)"
proof -
  let ?e0 = "\<lparr>te_Code = ErrCodeCommandFailed, te_Message = ''command execution failed: '' @ cmd,
     te_Details = Some Map.empty, te_Cause = Some c\<rparr>"
  let ?e = "?e0\<lparr>te_Details := Some [''command'' \<mapsto> VString cmd, ''output'' \<mapsto> VString out]\<rparr>"
  have eq: "ErrCommandFailed cmd out (Some c) h = (length h, h @ [?e])"
    by (simp add: ErrCommandFailed_def NewTaskErrorWithCause_def alloc_def AddDetail_def)
  have old: "causes_older (h @ [?e])"
    using causes_older_alloc [OF assms(1), of ?e] assms(2) by (simp add: alloc_def)
  have "\<exists>s. Error (Suc (length h)) (h @ [?e]) c = Some s"
    using Error_total [OF old assms(2)] by simp
  then obtain s where "Error (Suc (length h)) (h @ [?e]) c = Some s" by blast
  then show ?thesis
    using eq old
    by (intro exI [of _ s] exI [of _ "length h"] exI [of _ "h @ [?e]"])
      (simp add: Let_def IsRecoverableError_def IsConfigError_def IsSystemError_def GetTaskError_def)
qed

theorem ErrCommandFailed_spec_witness:
  "\<exists>r h1. ErrCommandFailed ''ping'' [] (Some (TaskErr 4)) init_heap = (r, h1) \<and> r = 7
     \<and> te_Details (h1 ! r) = Some [''command'' \<mapsto> VString ''ping'', ''output'' \<mapsto> VString []]"
proof -
  have l: "length init_heap = 7" by (simp add: init_heap_def predefined_def NewTaskError_def alloc_def)
  have "causes_older init_heap"
    by (simp add: causes_older_def init_heap_def predefined_def NewTaskError_def alloc_def numeral_eq_Suc less_Suc_eq)
  from ErrCommandFailed_spec [OF this, of "TaskErr 4" "''ping''" "[]"] show ?thesis by (auto simp: l)
qed

text \<open>The three classes: recoverable and system errors share exactly the resource limit,
  configuration errors are in neither; an error that is wrapped by another one is in no class,
  because only the outermost type is tested.\<close>

lemma error_classes:
  "IsRecoverableError h e \<and> IsSystemError h e \<longleftrightarrow> IsErrorCode h e ErrCodeResourceLimit"
  "\<not> (IsConfigError h e \<and> (IsRecoverableError h e \<or> IsSystemError h e))"
  "\<not> IsRecoverableError h (WrapErr s e) \<and> \<not> IsConfigError h (WrapErr s e) \<and> \<not> IsSystemError h (WrapErr s e)"
  by (auto simp: IsRecoverableError_def IsSystemError_def IsConfigError_def IsErrorCode_def IsCode_def
      GetTaskError_def split: gerror.splits)

end
