(* ===== verification/Metrics.thy ===== *)
theory Metrics
  imports Rebuild_Manager
begin

text \<open>
  The metrics collector (\<open>connection/metrics.go\<close>): its counters with 64-bit wrap-around, every
  method of \<open>DefaultMetricsCollector\<close>, the snapshot with its derived rates, the middleware, and
  what the rebuild manager reports to it. A method that gets the counters of a protocol and then
  adds to them atomically is one update; the compare-and-swap loops and the read-write lock, where
  interleaving matters, are in \<open>Metrics_Races\<close>. The exporters are empty functions in the code.
\<close>

record atomicConnectionMetrics =
  am_created :: int
  am_destroyed :: int
  am_reused :: int
  am_failed :: int
  am_active :: int
  am_idle :: int
  am_total :: int
  am_healthCheckSuccess :: int
  am_healthCheckFailed :: int
  am_healthCheckLatency :: int
  am_connectionsNeedingRebuild :: int
  am_rebuildMarkedTotal :: int
  am_rebuildStarted :: int
  am_rebuildCompleted :: int
  am_rebuildFailed :: int
  am_rebuildDuration :: int
  am_rebuildingConnections :: int
  am_totalLifetime :: int
  am_lifetimeCount :: int

record atomicOperationMetrics =
  ao_count :: int
  ao_errors :: int
  ao_totalDuration :: int
  ao_minDuration :: int
  ao_maxDuration :: int

record collector =
  cl_connectionMetrics :: "Protocol \<rightharpoonup> atomicConnectionMetrics"
  cl_operationMetrics :: "Protocol \<rightharpoonup> (string \<rightharpoonup> atomicOperationMetrics)"
  cl_rebuildMarkedByReason :: "Protocol \<rightharpoonup> (string \<rightharpoonup> int)"
  cl_startTime :: gtime
  cl_lastUpdate :: gtime

definition zero_conn :: atomicConnectionMetrics where
  "zero_conn = \<lparr>am_created = 0, am_destroyed = 0, am_reused = 0, am_failed = 0, am_active = 0, am_idle = 0,
     am_total = 0, am_healthCheckSuccess = 0, am_healthCheckFailed = 0, am_healthCheckLatency = 0,
     am_connectionsNeedingRebuild = 0, am_rebuildMarkedTotal = 0, am_rebuildStarted = 0,
     am_rebuildCompleted = 0, am_rebuildFailed = 0, am_rebuildDuration = 0, am_rebuildingConnections = 0,
     am_totalLifetime = 0, am_lifetimeCount = 0\<rparr>"

definition zero_op :: atomicOperationMetrics where
  "zero_op = \<lparr>ao_count = 0, ao_errors = 0, ao_totalDuration = 0, ao_minDuration = 0, ao_maxDuration = 0\<rparr>"

definition NewDefaultMetricsCollector :: "gtime \<Rightarrow> collector" where
  "NewDefaultMetricsCollector now = \<lparr>cl_connectionMetrics = Map.empty, cl_operationMetrics = Map.empty,
     cl_rebuildMarkedByReason = Map.empty, cl_startTime = now, cl_lastUpdate = now\<rparr>"

section \<open>Counters\<close>

text \<open>The counters of a protocol, or of an operation of it, created on the first access.\<close>

definition getConnectionMetrics :: "Protocol \<Rightarrow> collector \<Rightarrow> atomicConnectionMetrics \<times> collector" where
  "getConnectionMetrics p c = (case cl_connectionMetrics c p of
     Some m \<Rightarrow> (m, c)
   | None \<Rightarrow> (zero_conn, c\<lparr>cl_connectionMetrics := (cl_connectionMetrics c)(p \<mapsto> zero_conn)\<rparr>))"

definition getOperationMetrics :: "Protocol \<Rightarrow> string \<Rightarrow> collector \<Rightarrow> atomicOperationMetrics \<times> collector" where
  "getOperationMetrics p op c =
    (let ops = (case cl_operationMetrics c p of Some ops \<Rightarrow> ops | None \<Rightarrow> Map.empty)
     in case ops op of Some m \<Rightarrow> (m, c)
        | None \<Rightarrow> (zero_op, c\<lparr>cl_operationMetrics := (cl_operationMetrics c)(p \<mapsto> ops(op \<mapsto> zero_op))\<rparr>))"

definition upd_conn ::
  "(atomicConnectionMetrics \<Rightarrow> atomicConnectionMetrics) \<Rightarrow> Protocol \<Rightarrow> collector \<Rightarrow> collector" where
  "upd_conn f p c = (let (m, c1) = getConnectionMetrics p c
     in c1\<lparr>cl_connectionMetrics := (cl_connectionMetrics c1)(p \<mapsto> f m)\<rparr>)"

definition upd_op ::
  "(atomicOperationMetrics \<Rightarrow> atomicOperationMetrics) \<Rightarrow> Protocol \<Rightarrow> string \<Rightarrow> collector \<Rightarrow> collector" where
  "upd_op f p op c = (let (m, c1) = getOperationMetrics p op c
     in c1\<lparr>cl_operationMetrics := (cl_operationMetrics c1)(p \<mapsto>
          (map_get (cl_operationMetrics c1) Map.empty p)(op \<mapsto> f m))\<rparr>)"

definition AddInt64 :: "int \<Rightarrow> int \<Rightarrow> int" where
  "AddInt64 d v = wrap64 (v + d)"

definition IncrementConnectionsCreated :: "Protocol \<Rightarrow> collector \<Rightarrow> collector" where
  "IncrementConnectionsCreated = upd_conn (am_total_update (AddInt64 1) \<circ> am_created_update (AddInt64 1))"

definition IncrementConnectionsDestroyed :: "Protocol \<Rightarrow> collector \<Rightarrow> collector" where
  "IncrementConnectionsDestroyed = upd_conn (am_total_update (AddInt64 (- 1)) \<circ> am_destroyed_update (AddInt64 1))"

definition IncrementConnectionsReused :: "Protocol \<Rightarrow> collector \<Rightarrow> collector" where
  "IncrementConnectionsReused = upd_conn (am_reused_update (AddInt64 1))"

definition IncrementConnectionsFailed :: "Protocol \<Rightarrow> collector \<Rightarrow> collector" where
  "IncrementConnectionsFailed = upd_conn (am_failed_update (AddInt64 1))"

definition SetActiveConnections :: "int \<Rightarrow> Protocol \<Rightarrow> collector \<Rightarrow> collector" where
  "SetActiveConnections n = upd_conn (am_active_update (\<lambda>_. n))"

definition SetIdleConnections :: "int \<Rightarrow> Protocol \<Rightarrow> collector \<Rightarrow> collector" where
  "SetIdleConnections n = upd_conn (am_idle_update (\<lambda>_. n))"

definition SetPoolSize :: "int \<Rightarrow> Protocol \<Rightarrow> collector \<Rightarrow> collector" where
  "SetPoolSize n = upd_conn (am_total_update (\<lambda>_. n))"

definition IncrementHealthCheckSuccess :: "Protocol \<Rightarrow> collector \<Rightarrow> collector" where
  "IncrementHealthCheckSuccess = upd_conn (am_healthCheckSuccess_update (AddInt64 1))"

definition IncrementHealthCheckFailed :: "Protocol \<Rightarrow> collector \<Rightarrow> collector" where
  "IncrementHealthCheckFailed = upd_conn (am_healthCheckFailed_update (AddInt64 1))"

definition RecordHealthCheckDuration :: "duration \<Rightarrow> Protocol \<Rightarrow> collector \<Rightarrow> collector" where
  "RecordHealthCheckDuration d = upd_conn (am_healthCheckLatency_update (\<lambda>_. d))"

definition RecordConnectionLifetime :: "duration \<Rightarrow> Protocol \<Rightarrow> collector \<Rightarrow> collector" where
  "RecordConnectionLifetime d =
     upd_conn (am_lifetimeCount_update (AddInt64 1) \<circ> am_totalLifetime_update (AddInt64 d))"

definition IncrementConnectionsNeedingRebuild :: "Protocol \<Rightarrow> collector \<Rightarrow> collector" where
  "IncrementConnectionsNeedingRebuild = upd_conn (am_connectionsNeedingRebuild_update (AddInt64 1))"

definition IncrementRebuildMarked :: "string \<Rightarrow> Protocol \<Rightarrow> collector \<Rightarrow> collector" where
  "IncrementRebuildMarked reason p c =
    (let c1 = upd_conn (am_rebuildMarkedTotal_update (AddInt64 1)) p c;
         reasons = map_get (cl_rebuildMarkedByReason c1) Map.empty p
     in c1\<lparr>cl_rebuildMarkedByReason := (cl_rebuildMarkedByReason c1)(p \<mapsto>
          reasons(reason \<mapsto> wrap64 (map_get reasons 0 reason + 1)))\<rparr>)"

definition IncrementRebuildStarted :: "Protocol \<Rightarrow> collector \<Rightarrow> collector" where
  "IncrementRebuildStarted =
     upd_conn (am_rebuildingConnections_update (AddInt64 1) \<circ> am_rebuildStarted_update (AddInt64 1))"

definition IncrementRebuildCompleted :: "Protocol \<Rightarrow> collector \<Rightarrow> collector" where
  "IncrementRebuildCompleted =
     upd_conn (am_rebuildingConnections_update (AddInt64 (- 1)) \<circ> am_rebuildCompleted_update (AddInt64 1))"

definition IncrementRebuildFailed :: "Protocol \<Rightarrow> collector \<Rightarrow> collector" where
  "IncrementRebuildFailed =
     upd_conn (am_rebuildingConnections_update (AddInt64 (- 1)) \<circ> am_rebuildFailed_update (AddInt64 1))"

definition RecordRebuildDuration :: "duration \<Rightarrow> Protocol \<Rightarrow> collector \<Rightarrow> collector" where
  "RecordRebuildDuration d = upd_conn (am_rebuildDuration_update (\<lambda>_. d))"

definition SetRebuildingConnections :: "int \<Rightarrow> Protocol \<Rightarrow> collector \<Rightarrow> collector" where
  "SetRebuildingConnections n = upd_conn (am_rebuildingConnections_update (\<lambda>_. n))"

definition IncrementRebuildingConnections :: "Protocol \<Rightarrow> collector \<Rightarrow> collector" where
  "IncrementRebuildingConnections = upd_conn (am_rebuildingConnections_update (AddInt64 1))"

definition DecrementRebuildingConnections :: "Protocol \<Rightarrow> collector \<Rightarrow> collector" where
  "DecrementRebuildingConnections = upd_conn (am_rebuildingConnections_update (AddInt64 (- 1)))"

section \<open>Operations\<close>

text \<open>\<open>RecordOperationDuration\<close> without contention: each compare-and-swap succeeds at once. A
  minimum of 0 stands for "none yet".\<close>

definition better_min :: "int \<Rightarrow> int \<Rightarrow> bool" where
  "better_min nanos current \<longleftrightarrow> current = 0 \<or> nanos < current"

definition better_max :: "int \<Rightarrow> int \<Rightarrow> bool" where
  "better_max nanos current \<longleftrightarrow> nanos > current"

definition record_duration :: "duration \<Rightarrow> atomicOperationMetrics \<Rightarrow> atomicOperationMetrics" where
  "record_duration nanos m = m\<lparr>ao_totalDuration := AddInt64 nanos (ao_totalDuration m),
     ao_minDuration := (if better_min nanos (ao_minDuration m) then nanos else ao_minDuration m),
     ao_maxDuration := (if better_max nanos (ao_maxDuration m) then nanos else ao_maxDuration m)\<rparr>"

definition RecordOperationDuration :: "duration \<Rightarrow> Protocol \<Rightarrow> string \<Rightarrow> collector \<Rightarrow> collector" where
  "RecordOperationDuration d = upd_op (record_duration d)"

definition IncrementOperationCount :: "Protocol \<Rightarrow> string \<Rightarrow> collector \<Rightarrow> collector" where
  "IncrementOperationCount = upd_op (ao_count_update (AddInt64 1))"

definition IncrementOperationErrors :: "Protocol \<Rightarrow> string \<Rightarrow> collector \<Rightarrow> collector" where
  "IncrementOperationErrors = upd_op (ao_errors_update (AddInt64 1))"

text \<open>\<open>WrapOperation\<close> on an operation that takes \<open>d\<close> and ends with \<open>err\<close>.\<close>

definition WrapOperation ::
  "Protocol \<Rightarrow> string \<Rightarrow> duration \<Rightarrow> 'e option \<Rightarrow> collector \<Rightarrow> 'e option \<times> collector" where
  "WrapOperation p op d err c =
    (let c1 = RecordOperationDuration d p op (IncrementOperationCount p op c)
     in (err, if err = None then c1 else IncrementOperationErrors p op c1))"

definition Reset :: "gtime \<Rightarrow> collector \<Rightarrow> collector" where
  "Reset now c = NewDefaultMetricsCollector now"

section \<open>Snapshots\<close>

record ConnectionMetrics =
  cm_Protocol :: Protocol
  cm_Counters :: atomicConnectionMetrics
  cm_RebuildMarkedByReason :: "(string \<rightharpoonup> int) option"
  cm_CreationRate :: rat
  cm_DestructionRate :: rat
  cm_ReuseRate :: rat
  cm_FailureRate :: rat
  cm_AverageLifetime :: duration

record OperationMetrics =
  om_Operation :: string
  om_Counters :: atomicOperationMetrics
  om_AvgDuration :: duration
  om_SuccessRate :: rat
  om_ErrorRate :: rat
  om_Throughput :: rat

record MetricsSnapshot =
  ms_Timestamp :: gtime
  ms_ConnectionMetrics :: "Protocol \<rightharpoonup> ConnectionMetrics"
  ms_OperationMetrics :: "Protocol \<rightharpoonup> (string \<rightharpoonup> OperationMetrics)"
  ms_Uptime :: duration

text \<open>A count per second of uptime, 0 when no time passed since the last snapshot.\<close>

definition per_second :: "duration \<Rightarrow> duration \<Rightarrow> int \<Rightarrow> rat" where
  "per_second delta uptime n =
     (if Seconds delta > 0 then float_round (float_round (of_int n) / Seconds uptime) else 0)"

definition share :: "int \<Rightarrow> int \<Rightarrow> rat" where
  "share n whole = (if whole > 0 then float_div n whole else 0)"

text \<open>The copied counters are kept as one record; the 64-bit sums of the code wrap.\<close>

definition conn_snapshot ::
  "duration \<Rightarrow> duration \<Rightarrow> (string \<rightharpoonup> int) option \<Rightarrow> Protocol \<Rightarrow> atomicConnectionMetrics \<Rightarrow> ConnectionMetrics" where
  "conn_snapshot delta uptime reasons p m = \<lparr>cm_Protocol = p, cm_Counters = m,
     cm_RebuildMarkedByReason = reasons,
     cm_CreationRate = per_second delta uptime (am_created m),
     cm_DestructionRate = per_second delta uptime (am_destroyed m),
     cm_ReuseRate = share (am_reused m) (wrap64 (am_created m + am_reused m)),
     cm_FailureRate = share (am_failed m) (wrap64 (am_created m + am_failed m)),
     cm_AverageLifetime = (if am_lifetimeCount m > 0 then quot (am_totalLifetime m) (am_lifetimeCount m) else 0)\<rparr>"

definition op_snapshot :: "duration \<Rightarrow> duration \<Rightarrow> string \<Rightarrow> atomicOperationMetrics \<Rightarrow> OperationMetrics" where
  "op_snapshot delta uptime op m = \<lparr>om_Operation = op, om_Counters = m,
     om_AvgDuration = (if ao_count m > 0 then quot (ao_totalDuration m) (ao_count m) else 0),
     om_SuccessRate = share (wrap64 (ao_count m - ao_errors m)) (ao_count m),
     om_ErrorRate = share (ao_errors m) (ao_count m),
     om_Throughput = per_second delta uptime (ao_count m)\<rparr>"

text \<open>The share of a rate is only computed for a positive count, which is the divisor.\<close>

definition GetMetrics :: "gtime \<Rightarrow> collector \<Rightarrow> MetricsSnapshot \<times> collector" where
  "GetMetrics now c = (let uptime = time_sub now (cl_startTime c); delta = time_sub now (cl_lastUpdate c) in
    (\<lparr>ms_Timestamp = now,
      ms_ConnectionMetrics = (\<lambda>p. map_option
        (conn_snapshot delta uptime (cl_rebuildMarkedByReason c p) p) (cl_connectionMetrics c p)),
      ms_OperationMetrics = (\<lambda>p. map_option
        (\<lambda>ops op. map_option (op_snapshot delta uptime op) (ops op)) (cl_operationMetrics c p)),
      ms_Uptime = uptime\<rparr>,
     c\<lparr>cl_lastUpdate := now\<rparr>))"

section \<open>What the rebuild manager reports\<close>

text \<open>\<open>sendRebuildMarkedEvent\<close>, \<open>sendRebuildStartedEvent\<close> and \<open>sendRebuildCompletedEvent\<close>: the calls
  that go with each event; \<open>d\<close> is the duration of a completed rebuild.\<close>

fun collect_rebuild :: "duration \<Rightarrow> rebuild_event \<Rightarrow> collector \<Rightarrow> collector" where
  "collect_rebuild d (RebuildMarked p i reason) =
     IncrementConnectionsNeedingRebuild p \<circ> IncrementRebuildMarked reason p"
| "collect_rebuild d (RebuildStarted p i) =
     IncrementRebuildingConnections p \<circ> IncrementRebuildStarted p"
| "collect_rebuild d (RebuildCompleted p i ok) =
     (if ok then IncrementRebuildCompleted p else IncrementRebuildFailed p)
       \<circ> DecrementRebuildingConnections p \<circ> RecordRebuildDuration d p"

section \<open>Accounting\<close>

lemma AddInt64_wrap: "AddInt64 d (wrap64 v) = wrap64 (v + d)"
  by (simp add: AddInt64_def)

definition conn_of :: "collector \<Rightarrow> Protocol \<Rightarrow> atomicConnectionMetrics" where
  "conn_of c p = map_get (cl_connectionMetrics c) zero_conn p"

definition op_of :: "collector \<Rightarrow> Protocol \<Rightarrow> string \<Rightarrow> atomicOperationMetrics" where
  "op_of c p op = map_get (map_get (cl_operationMetrics c) Map.empty p) zero_op op"

definition marked_of :: "collector \<Rightarrow> Protocol \<Rightarrow> string \<Rightarrow> int" where
  "marked_of c p reason = map_get (map_get (cl_rebuildMarkedByReason c) Map.empty p) 0 reason"

lemma of_upd_conn [simp]:
  "conn_of (upd_conn f q c) p = (if p = q then f (conn_of c p) else conn_of c p)"
  "op_of (upd_conn f q c) = op_of c" "marked_of (upd_conn f q c) = marked_of c"
  by (auto simp: upd_conn_def getConnectionMetrics_def conn_of_def op_of_def marked_of_def map_get_def
      fun_eq_iff split: option.splits)

lemma of_upd_op [simp]:
  "op_of (upd_op f q op' c) p op = (if p = q \<and> op = op' then f (op_of c p op) else op_of c p op)"
  "conn_of (upd_op f q op' c) = conn_of c" "marked_of (upd_op f q op' c) = marked_of c"
  by (auto simp: upd_op_def getOperationMetrics_def conn_of_def op_of_def marked_of_def map_get_def
      fun_eq_iff Let_def split: option.splits)

lemma reasons_upd_conn [simp]: "cl_rebuildMarkedByReason (upd_conn f q c) = cl_rebuildMarkedByReason c"
  by (simp add: upd_conn_def getConnectionMetrics_def split: option.splits)

lemma of_reasons_update [simp]:
  "conn_of (c\<lparr>cl_rebuildMarkedByReason := x\<rparr>) = conn_of c" "op_of (c\<lparr>cl_rebuildMarkedByReason := x\<rparr>) = op_of c"
  by (simp_all add: conn_of_def op_of_def fun_eq_iff)

lemma of_marked [simp]:
  "conn_of (IncrementRebuildMarked r q c) p
     = (if p = q then am_rebuildMarkedTotal_update (AddInt64 1) (conn_of c p) else conn_of c p)"
  "op_of (IncrementRebuildMarked r q c) = op_of c"
  "marked_of (IncrementRebuildMarked r q c) p r'
     = (if p = q \<and> r' = r then wrap64 (marked_of c p r' + 1) else marked_of c p r')"
  unfolding IncrementRebuildMarked_def Let_def by (simp_all add: marked_of_def map_get_def)

lemma of_new [simp]:
  "conn_of (NewDefaultMetricsCollector t) p = zero_conn" "op_of (NewDefaultMetricsCollector t) p op = zero_op"
  "marked_of (NewDefaultMetricsCollector t) p r = 0"
  by (simp_all add: conn_of_def op_of_def marked_of_def NewDefaultMetricsCollector_def)

text \<open>The calls of the program, each for one protocol.\<close>

datatype mcall = CCreated | CDestroyed | CReused | CFailed | CPoolSize int
  | is_CMarked: CMarked string | CNeeding | CStarted | CCompleted | CRebuildFailed | CIncRebuilding | CDecRebuilding
  | CWrap string duration bool

fun mcall_apply :: "Protocol \<times> mcall \<Rightarrow> collector \<Rightarrow> collector" where
  "mcall_apply (p, CCreated) c = IncrementConnectionsCreated p c"
| "mcall_apply (p, CDestroyed) c = IncrementConnectionsDestroyed p c"
| "mcall_apply (p, CReused) c = IncrementConnectionsReused p c"
| "mcall_apply (p, CFailed) c = IncrementConnectionsFailed p c"
| "mcall_apply (p, CPoolSize n) c = SetPoolSize n p c"
| "mcall_apply (p, CMarked r) c = IncrementRebuildMarked r p c"
| "mcall_apply (p, CNeeding) c = IncrementConnectionsNeedingRebuild p c"
| "mcall_apply (p, CStarted) c = IncrementRebuildStarted p c"
| "mcall_apply (p, CCompleted) c = IncrementRebuildCompleted p c"
| "mcall_apply (p, CRebuildFailed) c = IncrementRebuildFailed p c"
| "mcall_apply (p, CIncRebuilding) c = IncrementRebuildingConnections p c"
| "mcall_apply (p, CDecRebuilding) c = DecrementRebuildingConnections p c"
| "mcall_apply (p, CWrap op d failed) c = snd (WrapOperation p op d (if failed then Some () else None) c)"

lemmas mcall_defs = IncrementConnectionsCreated_def IncrementConnectionsDestroyed_def
  IncrementConnectionsReused_def IncrementConnectionsFailed_def SetPoolSize_def
  IncrementConnectionsNeedingRebuild_def IncrementRebuildStarted_def IncrementRebuildCompleted_def
  IncrementRebuildFailed_def IncrementRebuildingConnections_def DecrementRebuildingConnections_def
  RecordRebuildDuration_def WrapOperation_def IncrementOperationCount_def IncrementOperationErrors_def
  RecordOperationDuration_def

definition run_calls :: "(Protocol \<times> mcall) list \<Rightarrow> collector \<Rightarrow> collector" where
  "run_calls xs c = fold mcall_apply xs c"

text \<open>How often \<open>p\<close> was called with a call that satisfies \<open>P\<close>.\<close>

definition ncalls :: "Protocol \<Rightarrow> (mcall \<Rightarrow> bool) \<Rightarrow> (Protocol \<times> mcall) list \<Rightarrow> int" where
  "ncalls p P xs = int (length (filter (\<lambda>x. fst x = p \<and> P (snd x)) xs))"

lemma ncalls_simps [simp]: "ncalls p P [] = 0"
  "ncalls p P (xs @ [(q, k)]) = ncalls p P xs + (if q = p \<and> P k then 1 else 0)"
  by (simp_all add: ncalls_def)

lemma run_calls_snoc [simp]: "run_calls [] c = c" "run_calls (xs @ [x]) c = mcall_apply x (run_calls xs c)"
  by (simp_all add: run_calls_def)

abbreviation counts :: "(atomicConnectionMetrics \<Rightarrow> int) \<Rightarrow> Protocol \<Rightarrow> gtime \<Rightarrow> (Protocol \<times> mcall) list \<Rightarrow> int" where
  "counts f p t xs \<equiv> f (conn_of (run_calls xs (NewDefaultMetricsCollector t)) p)"

text \<open>A counter that every call changes by adding sums up what the calls add.\<close>

definition added :: "(mcall \<Rightarrow> int) \<Rightarrow> Protocol \<Rightarrow> (Protocol \<times> mcall) list \<Rightarrow> int" where
  "added d p xs = (\<Sum>(q, k)\<leftarrow>xs. if q = p then d k else 0)"

lemma added_simps [simp]: "added d p [] = 0"
  "added d p (xs @ [(q, k)]) = added d p xs + (if q = p then d k else 0)"
  by (simp_all add: added_def)

lemma counter_sum:
  assumes "g (NewDefaultMetricsCollector t) = 0"
    and "\<And>q k c. (q, k) \<in> set xs \<Longrightarrow> g (mcall_apply (q, k) c) = (if q = p then AddInt64 (d k) (g c) else g c)
       \<or> (if q = p then d k else 0) = 0 \<and> g (mcall_apply (q, k) c) = g c"
  shows "g (run_calls xs (NewDefaultMetricsCollector t)) = wrap64 (added d p xs)"
  using assms(2)
proof (induction xs rule: rev_induct)
  case (snoc x xs)
  obtain q k where x: "x = (q, k)" by (cases x)
  have "g (run_calls xs (NewDefaultMetricsCollector t)) = wrap64 (added d p xs)"
    using snoc by simp
  then show ?case using snoc.prems [of q k "run_calls xs (NewDefaultMetricsCollector t)"] x
    by (auto simp: AddInt64_wrap split: if_splits)
qed (simp add: assms(1))

lemma added_ncalls: "added (\<lambda>k. if P k then 1 else 0) p xs = ncalls p P xs"
  by (induction xs) (auto simp: added_def ncalls_def)

lemma created_count: "counts am_created p t xs = wrap64 (ncalls p ((=) CCreated) xs)"
  unfolding added_ncalls [symmetric]
  apply (rule counter_sum)
   apply (simp add: zero_conn_def)
  subgoal for q k c by (cases k) (simp_all add: mcall_defs)
  done

lemma total_count:
  assumes "\<forall>n. (p, CPoolSize n) \<notin> set xs"
  shows "counts am_total p t xs = wrap64 (ncalls p ((=) CCreated) xs - ncalls p ((=) CDestroyed) xs)"
proof -
  have "added (case_mcall 1 (- 1) 0 0 (\<lambda>_. 0) (\<lambda>_. 0) 0 0 0 0 0 0 (\<lambda>_ _ _. 0)) p xs
      = ncalls p ((=) CCreated) xs - ncalls p ((=) CDestroyed) xs"
    by (induction xs) (auto simp: added_def ncalls_def split: mcall.split)
  moreover have "counts am_total p t xs
      = wrap64 (added (case_mcall 1 (- 1) 0 0 (\<lambda>_. 0) (\<lambda>_. 0) 0 0 0 0 0 0 (\<lambda>_ _ _. 0)) p xs)"
    apply (rule counter_sum)
     apply (simp add: zero_conn_def)
    subgoal for q k c using assms by (cases k) (auto simp: mcall_defs)
    done
  ultimately show ?thesis by simp
qed

lemma rebuilding_count:
  "counts am_rebuildingConnections p t xs = wrap64 (ncalls p (\<lambda>k. k = CStarted \<or> k = CIncRebuilding) xs
     - ncalls p (\<lambda>k. k = CCompleted \<or> k = CRebuildFailed \<or> k = CDecRebuilding) xs)"
proof -
  have "added (case_mcall 0 0 0 0 (\<lambda>_. 0) (\<lambda>_. 0) 0 1 (- 1) (- 1) 1 (- 1) (\<lambda>_ _ _. 0)) p xs
      = ncalls p (\<lambda>k. k = CStarted \<or> k = CIncRebuilding) xs
        - ncalls p (\<lambda>k. k = CCompleted \<or> k = CRebuildFailed \<or> k = CDecRebuilding) xs"
    by (induction xs) (auto simp: added_def ncalls_def split: mcall.split)
  moreover have "counts am_rebuildingConnections p t xs
      = wrap64 (added (case_mcall 0 0 0 0 (\<lambda>_. 0) (\<lambda>_. 0) 0 1 (- 1) (- 1) 1 (- 1) (\<lambda>_ _ _. 0)) p xs)"
    apply (rule counter_sum)
     apply (simp add: zero_conn_def)
    subgoal for q k c by (cases k) (simp_all add: mcall_defs)
    done
  ultimately show ?thesis by simp
qed

lemma marked_count:
  "counts am_rebuildMarkedTotal p t xs = wrap64 (ncalls p is_CMarked xs)"
  "marked_of (run_calls xs (NewDefaultMetricsCollector t)) p r = wrap64 (ncalls p ((=) (CMarked r)) xs)"
  unfolding added_ncalls [symmetric]
   apply (rule counter_sum)
    apply (simp add: zero_conn_def)
  subgoal for q k c by (cases k) (simp_all add: mcall_defs)
  apply (rule counter_sum)
   apply simp
  subgoal for q k c by (cases k) (auto simp: mcall_defs AddInt64_def)
  done

lemma op_count:
  "ao_count (op_of (run_calls xs (NewDefaultMetricsCollector t)) p op)
     = wrap64 (ncalls p (\<lambda>k. \<exists>d b. k = CWrap op d b) xs)"
  "ao_errors (op_of (run_calls xs (NewDefaultMetricsCollector t)) p op)
     = wrap64 (ncalls p (\<lambda>k. \<exists>d. k = CWrap op d True) xs)"
  unfolding added_ncalls [symmetric]
   apply (rule counter_sum)
    apply (simp add: zero_op_def)
  subgoal for q k c by (cases k) (auto simp: mcall_defs record_duration_def Let_def)
  apply (rule counter_sum)
   apply (simp add: zero_op_def)
  subgoal for q k c by (cases k) (auto simp: mcall_defs record_duration_def Let_def)
  done

definition reasons :: "(Protocol \<times> mcall) list \<Rightarrow> string set" where
  "reasons xs = set (concat (map (\<lambda>x. case snd x of CMarked r \<Rightarrow> [r] | _ \<Rightarrow> []) xs))"

lemma wrap64_sum: "finite S \<Longrightarrow> wrap64 (\<Sum>r\<in>S. wrap64 (f r)) = wrap64 (\<Sum>r\<in>S. f r)"
proof (induction S rule: finite_induct)
  case (insert r S)
  have "wrap64 (f r + (\<Sum>r\<in>S. wrap64 (f r))) = wrap64 (f r + wrap64 (\<Sum>r\<in>S. wrap64 (f r)))" by simp
  with insert show ?case by simp
qed simp

lemma marks_by_reason:
  assumes "finite S" "reasons xs \<subseteq> S"
  shows "(\<Sum>r\<in>S. ncalls p ((=) (CMarked r)) xs) = ncalls p is_CMarked xs"
  using assms(2)
proof (induction xs)
  case (Cons x xs)
  then have IH: "(\<Sum>r\<in>S. ncalls p ((=) (CMarked r)) xs) = ncalls p is_CMarked xs" by (simp add: reasons_def)
  have head: "ncalls p P (x # xs) = ncalls p P xs + (if fst x = p \<and> P (snd x) then 1 else 0)" for P
    by (simp add: ncalls_def)
  have "(\<Sum>r\<in>S. if fst x = p \<and> CMarked r = snd x then 1 else 0 :: int) = (if fst x = p \<and> is_CMarked (snd x) then 1 else 0)"
  proof (cases "snd x")
    case (CMarked r)
    then have "r \<in> S" using Cons.prems by (auto simp: reasons_def)
    then show ?thesis using CMarked assms(1) by auto
  qed auto
  with IH show ?case by (simp add: head sum.distrib)
qed (simp add: ncalls_def)

text \<open>After any calls on a new collector, with 64-bit wrap-around: the number of connections is
  the difference of the created and the destroyed ones unless it was set, the number of rebuilds
  in progress the difference of the calls that open and that close one, the marks are counted as
  often in total as over all reasons, and the counted operations are the failed and the
  successful ones.\<close>

theorem metrics_accounting:
  assumes "\<forall>n. (p, CPoolSize n) \<notin> set xs"
  shows "counts am_total p t xs = wrap64 (counts am_created p t xs - ncalls p ((=) CDestroyed) xs)
    \<and> counts am_rebuildingConnections p t xs
        = wrap64 (ncalls p (\<lambda>k. k = CStarted \<or> k = CIncRebuilding) xs
            - ncalls p (\<lambda>k. k = CCompleted \<or> k = CRebuildFailed \<or> k = CDecRebuilding) xs)
    \<and> counts am_rebuildMarkedTotal p t xs
        = wrap64 (\<Sum>r\<in>reasons xs. marked_of (run_calls xs (NewDefaultMetricsCollector t)) p r)
    \<and> ao_count (op_of (run_calls xs (NewDefaultMetricsCollector t)) p op)
        = wrap64 (ao_errors (op_of (run_calls xs (NewDefaultMetricsCollector t)) p op)
            + ncalls p (\<lambda>k. \<exists>d. k = CWrap op d False) xs)"
proof -
  have "ncalls p (\<lambda>k. \<exists>d b. k = CWrap op d b) xs
      = ncalls p (\<lambda>k. \<exists>d. k = CWrap op d True) xs + ncalls p (\<lambda>k. \<exists>d. k = CWrap op d False) xs"
    by (induction xs rule: rev_induct) (auto simp: ex_bool_eq)
  moreover have "finite (reasons xs)" by (simp only: reasons_def List.finite_set)
  ultimately show ?thesis
    using wrap64_add(1) [of "ncalls p ((=) CCreated) xs" "- ncalls p ((=) CDestroyed) xs"]
    by (simp add: created_count total_count [OF assms] rebuilding_count marked_count op_count
        wrap64_sum marks_by_reason)
qed

theorem metrics_accounting_witness:
  "counts am_total ''ssh'' 0 [(''ssh'', CCreated), (''ssh'', CCreated), (''ssh'', CDestroyed)] = 1"
proof -
  let ?xs = "[(''ssh'', CCreated), (''ssh'', CCreated), (''ssh'', CDestroyed)]"
  have "\<forall>n. (''ssh'', CPoolSize n) \<notin> set ?xs" by simp
  from metrics_accounting [OF this, of 0] show ?thesis
    by (simp add: created_count ncalls_def wrap64_id)
qed

text \<open>The rebuild manager reports every start and every end of a rebuild twice to the same
  counter, so the number of rebuilding connections it shows is twice the real one.\<close>

definition in_progress :: "Protocol \<Rightarrow> rebuild_event list \<Rightarrow> int" where
  "in_progress p es = (\<Sum>e\<leftarrow>es. case e of RebuildStarted q _ \<Rightarrow> if q = p then 1 else 0
     | RebuildCompleted q _ _ \<Rightarrow> if q = p then - 1 else 0 | _ \<Rightarrow> 0)"

lemma collect_rebuilding:
  "am_rebuildingConnections (conn_of (collect_rebuild d e c) p)
     = (case e of RebuildStarted q _ \<Rightarrow> if q = p then AddInt64 1 (AddInt64 1 (am_rebuildingConnections (conn_of c p)))
          else am_rebuildingConnections (conn_of c p)
        | RebuildCompleted q _ _ \<Rightarrow> if q = p then AddInt64 (- 1) (AddInt64 (- 1) (am_rebuildingConnections (conn_of c p)))
          else am_rebuildingConnections (conn_of c p)
        | RebuildMarked _ _ _ \<Rightarrow> am_rebuildingConnections (conn_of c p))"
  by (cases e) (simp_all add: mcall_defs)

theorem rebuilding_doubled:
  "am_rebuildingConnections (conn_of (fold (\<lambda>(d, e). collect_rebuild d e) es (NewDefaultMetricsCollector t)) p)
     = wrap64 (2 * in_progress p (map snd es))"
proof (induction es rule: rev_induct)
  case (snoc x es)
  obtain d e where x: "x = (d, e)" by (cases x)
  show ?case using snoc by (cases e) (simp_all add: x collect_rebuilding AddInt64_wrap in_progress_def
        case_prod_unfold algebra_simps del: collect_rebuild.simps)
qed (simp add: zero_conn_def in_progress_def)

section \<open>Rates\<close>

lemma round_even_le: "x \<le> of_int n \<Longrightarrow> round_even x \<le> n"
proof -
  assume x: "x \<le> of_int n"
  then have "\<lfloor>x\<rfloor> \<le> n" by linarith
  moreover have "\<lfloor>x\<rfloor> < n \<or> x = of_int n" using x by linarith
  ultimately show ?thesis by (auto simp: round_even_def Let_def)
qed

lemma round_even_nonneg: "0 \<le> x \<Longrightarrow> 0 \<le> round_even x"
  by (auto simp: round_even_def Let_def)

lemma nat_bit_len_mono: "m \<le> n \<Longrightarrow> nat_bit_len m \<le> nat_bit_len n"
proof (induction n arbitrary: m rule: less_induct)
  case (less n)
  show ?case
  proof (cases "m = 0")
    case False
    then have "m div 2 \<le> n div 2" "n div 2 < n" using less.prems by (auto intro: div_le_mono)
    then have "nat_bit_len (m div 2) \<le> nat_bit_len (n div 2)" by (rule less.IH [rotated])
    then show ?thesis using False less.prems by (subst (1 2) nat_bit_len.simps) simp
  qed (simp add: nat_bit_len.simps)
qed

lemma float_exp_unit: "0 \<le> x \<Longrightarrow> x \<le> 1 \<Longrightarrow> float_exp x \<le> 0"
proof -
  assume x: "0 \<le> x" "x \<le> 1"
  obtain a b where q: "quotient_of x = (a, b)" by (cases "quotient_of x")
  then have b: "b > 0" "x = of_int a / of_int b" using quotient_of_denom_pos quotient_of_div by auto
  then have "a \<le> b" using x(2) by (simp add: divide_le_eq)
  then have "bit_len a \<le> bit_len b" by (simp add: bit_len_def nat_bit_len_mono)
  then show ?thesis using x(1) q by (simp add: float_exp_def Let_def)
qed

lemma float_round_unit:
  assumes "0 \<le> x" "x \<le> 1"
  shows "0 \<le> float_round x \<and> float_round x \<le> 1"
proof (cases "x = 0")
  case False
  obtain k where k: "pow2 (float_exp x) = 1 / 2 ^ k"
    using float_exp_unit [OF assms] by (metis pow2_def div_by_1 dual_order.antisym minus_zero nat_0 power_0)
  have "x / (1 / 2 ^ k) \<le> of_int (2 ^ k)" using assms(2) by simp
  then have "round_even (x / (1 / 2 ^ k)) \<le> 2 ^ k" by (rule round_even_le)
  then have "rat_of_int (round_even (x / (1 / 2 ^ k))) \<le> 2 ^ k"
    by (metis of_int_le_iff of_int_numeral of_int_power)
  moreover have "0 \<le> round_even (x / (1 / 2 ^ k))" using assms(1) by (intro round_even_nonneg) simp
  ultimately show ?thesis using False by (simp add: float_round_def Let_def k divide_le_eq)
qed simp

lemma share_unit:
  assumes "0 \<le> n" "n \<le> whole" "whole < 2 ^ 53"
  shows "0 \<le> share n whole \<and> share n whole \<le> 1"
proof -
  have "float_round (of_int n) = of_int n" "float_round (of_int whole) = of_int whole"
    using assms by (simp_all add: float_round_int)
  then show ?thesis
    using assms float_round_unit [of "of_int n / of_int whole"]
    by (auto simp: share_def float_div_def divide_le_eq)
qed

text \<open>As long as the counters are not negative, errors are not more than operations and the sums
  stay below \<open>2 ^ 53\<close>, every rate of a snapshot is between 0 and 1; taking it changes no counter.\<close>

theorem snapshot_rates:
  assumes "0 \<le> am_created m" "0 \<le> am_reused m" "0 \<le> am_failed m"
    and "am_created m + am_reused m < 2 ^ 53" "am_created m + am_failed m < 2 ^ 53"
    and "0 \<le> ao_errors k" "ao_errors k \<le> ao_count k" "ao_count k < 2 ^ 53"
    and "cl_connectionMetrics c p = Some m" "cl_operationMetrics c p = Some ops" "ops op = Some k"
  shows "\<exists>M K. ms_ConnectionMetrics (fst (GetMetrics now c)) p = Some M
    \<and> map_option (\<lambda>o'. o' op) (ms_OperationMetrics (fst (GetMetrics now c)) p) = Some (Some K)
    \<and> list_all (\<lambda>r. 0 \<le> r \<and> r \<le> 1) [cm_ReuseRate M, cm_FailureRate M, om_SuccessRate K, om_ErrorRate K]
    \<and> conn_of (snd (GetMetrics now c)) = conn_of c \<and> op_of (snd (GetMetrics now c)) = op_of c"
proof -
  have w: "wrap64 n = n" if "0 \<le> n" "n < 2 ^ 53" for n using that by (intro wrap64_id) simp_all
  show ?thesis
    using assms share_unit [of "am_reused m" "am_created m + am_reused m"]
      share_unit [of "am_failed m" "am_created m + am_failed m"] share_unit [of "ao_errors k" "ao_count k"]
      share_unit [of "ao_count k - ao_errors k" "ao_count k"]
    by (simp add: GetMetrics_def Let_def conn_snapshot_def op_snapshot_def w conn_of_def op_of_def fun_eq_iff)
qed

theorem snapshot_rates_witness:
  "\<exists>M. ms_ConnectionMetrics (fst (GetMetrics 9 (IncrementOperationCount ''ssh'' ''execute''
     (IncrementConnectionsReused ''ssh'' (IncrementConnectionsCreated ''ssh'' (NewDefaultMetricsCollector 0)))))) ''ssh''
     = Some M \<and> cm_ReuseRate M \<le> 1"
proof -
  let ?c = "IncrementOperationCount ''ssh'' ''execute''
     (IncrementConnectionsReused ''ssh'' (IncrementConnectionsCreated ''ssh'' (NewDefaultMetricsCollector 0)))"
  let ?m = "zero_conn\<lparr>am_created := 1, am_total := 1, am_reused := 1\<rparr>"
  have c: "cl_connectionMetrics ?c ''ssh'' = Some ?m"
    "cl_operationMetrics ?c ''ssh'' = Some [''execute'' \<mapsto> zero_op\<lparr>ao_count := 1\<rparr>]"
    by (simp_all add: mcall_defs upd_conn_def upd_op_def getConnectionMetrics_def getOperationMetrics_def
        NewDefaultMetricsCollector_def AddInt64_def wrap64_id zero_conn_def zero_op_def map_get_def)
  show ?thesis
    using snapshot_rates [OF _ _ _ _ _ _ _ _ c, of "zero_op\<lparr>ao_count := 1\<rparr>" "''execute''" 9]
    by (auto simp: zero_conn_def zero_op_def)
qed

end
