(* ===== verification/Metrics_Races.thy ===== *)
theory Metrics_Races
  imports Metrics
begin

text \<open>
  The two places of \<open>connection/metrics.go\<close> where goroutines interleave below the level of a
  method. \<open>RecordOperationDuration\<close> updates minimum and maximum by compare-and-swap loops: a
  goroutine is a program point, and a step of it one atomic access. \<open>GetMetrics\<close> takes the read
  lock of the collector and, for every protocol, takes it again, while every recording call takes
  the write lock: the lock is modelled with Go's rule that a waiting writer holds back new
  readers.
\<close>

section \<open>Compare-and-swap loops\<close>

datatype rec_point = RAdd | RMinLoad | RMinCas int | RMaxLoad | RMaxCas int | RDone

text \<open>One atomic access of a goroutine that records \<open>nanos\<close>; \<open>None\<close> when it has returned.\<close>

fun rec_step ::
  "int \<Rightarrow> rec_point \<Rightarrow> atomicOperationMetrics \<Rightarrow> (rec_point \<times> atomicOperationMetrics) option" where
  "rec_step nanos RAdd m = Some (RMinLoad, m\<lparr>ao_totalDuration := AddInt64 nanos (ao_totalDuration m)\<rparr>)"
| "rec_step nanos RMinLoad m =
     Some (if better_min nanos (ao_minDuration m) then RMinCas (ao_minDuration m) else RMaxLoad, m)"
| "rec_step nanos (RMinCas current) m =
     Some (if ao_minDuration m = current then (RMaxLoad, m\<lparr>ao_minDuration := nanos\<rparr>) else (RMinLoad, m))"
| "rec_step nanos RMaxLoad m =
     Some (if better_max nanos (ao_maxDuration m) then RMaxCas (ao_maxDuration m) else RDone, m)"
| "rec_step nanos (RMaxCas current) m =
     Some (if ao_maxDuration m = current then (RDone, m\<lparr>ao_maxDuration := nanos\<rparr>) else (RMaxLoad, m))"
| "rec_step nanos RDone m = None"

type_synonym rec_state = "atomicOperationMetrics \<times> (int \<times> rec_point) list"

text \<open>A schedule names the goroutine that moves next; \<open>None\<close> when it names one that cannot.\<close>

definition rec_move :: "nat \<Rightarrow> rec_state \<Rightarrow> rec_state option" where
  "rec_move i s = (case s of (m, ts) \<Rightarrow> if i < length ts then
     (case rec_step (fst (ts ! i)) (snd (ts ! i)) m of None \<Rightarrow> None
      | Some (pt, m') \<Rightarrow> Some (m', ts[i := (fst (ts ! i), pt)])) else None)"

fun rec_run :: "nat list \<Rightarrow> rec_state \<Rightarrow> rec_state option" where
  "rec_run [] s = Some s"
| "rec_run (i # is) s = (case rec_move i s of None \<Rightarrow> None | Some s' \<Rightarrow> rec_run is s')"

definition rec_start :: "int list \<Rightarrow> rec_state" where
  "rec_start ds = (zero_op, map (\<lambda>d. (d, RAdd)) ds)"

definition rec_finished :: "rec_state \<Rightarrow> bool" where
  "rec_finished s \<longleftrightarrow> (\<forall>t\<in>set (snd s). snd t = RDone)"

subsection \<open>What a loop leaves in its cell\<close>

text \<open>
  A cell that only ever takes a better value. \<open>best S\<close> is the value for the set \<open>S\<close> of recorded
  ones: the locale asks that replacing happens exactly when the new value is the best.
\<close>

locale cas_cell =
  fixes better :: "int \<Rightarrow> int \<Rightarrow> bool" and best :: "int set \<Rightarrow> int"
  assumes replace: "finite S \<Longrightarrow> \<forall>d\<in>S. 0 < d \<Longrightarrow> 0 < n \<Longrightarrow> better n (best S) \<Longrightarrow> best (insert n S) = n"
    and keep: "finite S \<Longrightarrow> \<forall>d\<in>S. 0 < d \<Longrightarrow> 0 < n \<Longrightarrow> \<not> better n (best S) \<Longrightarrow> best (insert n S) = best S"
begin

definition holds :: "int set \<Rightarrow> int \<Rightarrow> bool" where
  "holds S v \<longleftrightarrow> finite S \<and> (\<forall>d\<in>S. 0 < d) \<and> v = best S"

lemma holds_swap: "holds S v \<Longrightarrow> 0 < n \<Longrightarrow> better n v \<Longrightarrow> holds (insert n S) n"
  by (simp add: holds_def replace)

lemma holds_skip: "holds S v \<Longrightarrow> 0 < n \<Longrightarrow> \<not> better n v \<Longrightarrow> holds (insert n S) v"
  by (simp add: holds_def keep)

lemma holds_best: "holds S v \<Longrightarrow> v = best S"
  by (simp add: holds_def)

end

definition best_min :: "int set \<Rightarrow> int" where
  "best_min S = (if S = {} then 0 else Min S)"

definition best_max :: "int set \<Rightarrow> int" where
  "best_max S = (if S = {} then 0 else Max S)"

interpretation min_cell: cas_cell better_min best_min
proof
  fix S :: "int set" and n :: int
  assume S: "finite S" "\<forall>d\<in>S. 0 < d" "0 < n"
  show "best_min (insert n S) = n" if "better_min n (best_min S)"
  proof (cases "S = {}")
    case False
    then have "0 < Min S" using S by simp
    then have "n < Min S" using that False by (simp add: better_min_def best_min_def)
    then show ?thesis using S False by (simp add: best_min_def)
  qed (simp add: best_min_def)
  show "best_min (insert n S) = best_min S" if "\<not> better_min n (best_min S)"
  proof -
    have "S \<noteq> {}" "\<not> n < Min S"
      using that by (auto simp: better_min_def best_min_def split: if_splits)
    moreover have "Min (insert n S) = min n (Min S)" using S(1) \<open>S \<noteq> {}\<close> by (rule Min_insert)
    ultimately show ?thesis unfolding best_min_def min_def by auto
  qed
qed

interpretation max_cell: cas_cell better_max best_max
proof
  fix S :: "int set" and n :: int
  assume S: "finite S" "\<forall>d\<in>S. 0 < d" "0 < n"
  show "best_max (insert n S) = n" if "better_max n (best_max S)"
  proof (cases "S = {}")
    case False
    then have "Max S < n" using that by (simp add: better_max_def best_max_def)
    then show ?thesis using S False by (simp add: best_max_def)
  qed (simp add: best_max_def)
  show "best_max (insert n S) = best_max S" if "\<not> better_max n (best_max S)"
  proof -
    have "S \<noteq> {}" using that S by (auto simp: better_max_def best_max_def)
    then have "n \<le> Max S" using that by (simp add: better_max_def best_max_def)
    with \<open>S \<noteq> {}\<close> S show ?thesis by (simp add: best_max_def)
  qed
qed

subsection \<open>Invariant\<close>

definition past_add :: "rec_point \<Rightarrow> bool" where
  "past_add pt \<longleftrightarrow> pt \<noteq> RAdd"

definition past_min :: "rec_point \<Rightarrow> bool" where
  "past_min pt \<longleftrightarrow> pt = RMaxLoad \<or> (\<exists>v. pt = RMaxCas v) \<or> pt = RDone"

definition past_max :: "rec_point \<Rightarrow> bool" where
  "past_max pt \<longleftrightarrow> pt = RDone"

definition done_of :: "(rec_point \<Rightarrow> bool) \<Rightarrow> (int \<times> rec_point) list \<Rightarrow> int set" where
  "done_of P ts = {d. \<exists>pt. (d, pt) \<in> set ts \<and> P pt}"

definition point_ok :: "int \<Rightarrow> rec_point \<Rightarrow> bool" where
  "point_ok d pt \<longleftrightarrow> 0 < d \<and> (case pt of RMinCas v \<Rightarrow> better_min d v | RMaxCas v \<Rightarrow> better_max d v | _ \<Rightarrow> True)"

definition rec_inv :: "rec_state \<Rightarrow> bool" where
  "rec_inv s \<longleftrightarrow> (case s of (m, ts) \<Rightarrow> (\<forall>(d, pt)\<in>set ts. point_ok d pt)
     \<and> min_cell.holds (done_of past_min ts) (ao_minDuration m)
     \<and> max_cell.holds (done_of past_max ts) (ao_maxDuration m)
     \<and> ao_totalDuration m = wrap64 (\<Sum>(d, pt)\<leftarrow>ts. if past_add pt then d else 0))"

lemma done_of_update:
  assumes "i < length ts" "ts ! i = (d, pt)" "P pt \<Longrightarrow> P pt'"
  shows "done_of P (ts[i := (d, pt')]) = (if P pt' then insert d (done_of P ts) else done_of P ts)"
proof -
  have ts: "ts = take i ts @ (d, pt) # drop (Suc i) ts" using assms(1,2) by (metis id_take_nth_drop)
  have up: "ts[i := (d, pt')] = take i ts @ (d, pt') # drop (Suc i) ts" using assms(1) by (rule upd_conv_take_nth_drop)
  have split: "done_of P (xs @ (d, q) # ys) = done_of P (xs @ ys) \<union> (if P q then {d} else {})" for xs ys q
    by (auto simp: done_of_def)
  show ?thesis
    unfolding up by (subst (4) ts, subst (3) ts) (use assms(3) in \<open>auto simp: split\<close>)
qed

lemma rec_inv_start: "\<forall>d\<in>set ds. 0 < d \<Longrightarrow> rec_inv (rec_start ds)"
proof -
  assume "\<forall>d\<in>set ds. 0 < d"
  moreover have "done_of past_min (snd (rec_start ds)) = {}" "done_of past_max (snd (rec_start ds)) = {}"
    by (auto simp: done_of_def rec_start_def past_min_def past_max_def)
  moreover have "(\<Sum>(d, pt)\<leftarrow>snd (rec_start ds). if past_add pt then d else 0) = 0"
    by (induction ds) (simp_all add: rec_start_def past_add_def)
  ultimately show ?thesis
    by (auto simp: rec_inv_def rec_start_def zero_op_def point_ok_def min_cell.holds_def max_cell.holds_def
        best_min_def best_max_def)
qed

text \<open>One access, by cases of the program point.\<close>

lemmas past_defs = past_add_def past_min_def past_max_def point_ok_def

lemma rec_step_inv:
  assumes "rec_step d pt m = Some (pt', m')" "point_ok d pt"
    and "min_cell.holds A (ao_minDuration m)" "max_cell.holds B (ao_maxDuration m)"
    and "past_min pt \<Longrightarrow> d \<in> A" "past_max pt \<Longrightarrow> d \<in> B"
  shows "point_ok d pt'" "past_min pt \<Longrightarrow> past_min pt'" "past_max pt \<Longrightarrow> past_max pt'"
    and "past_add pt'"
    and "min_cell.holds (if past_min pt' then insert d A else A) (ao_minDuration m')"
    and "max_cell.holds (if past_max pt' then insert d B else B) (ao_maxDuration m')"
    and "ao_totalDuration m' = (if past_add pt then ao_totalDuration m else AddInt64 d (ao_totalDuration m))"
proof -
  have d: "0 < d" using assms(2) by (simp add: point_ok_def)
  note min = min_cell.holds_swap [OF assms(3) d] min_cell.holds_skip [OF assms(3) d]
  note max = max_cell.holds_swap [OF assms(4) d] max_cell.holds_skip [OF assms(4) d]
  show "point_ok d pt'" using assms(1,2) by (cases pt) (auto simp: past_defs split: if_splits)
  show "past_min pt \<Longrightarrow> past_min pt'" "past_max pt \<Longrightarrow> past_max pt'" "past_add pt'"
    using assms(1) by (cases pt; auto simp: past_defs split: if_splits)+
  show "min_cell.holds (if past_min pt' then insert d A else A) (ao_minDuration m')"
    using assms min by (cases pt) (auto simp: past_defs insert_absorb split: if_splits)
  show "max_cell.holds (if past_max pt' then insert d B else B) (ao_maxDuration m')"
    using assms max by (cases pt) (auto simp: past_defs insert_absorb split: if_splits)
  show "ao_totalDuration m' = (if past_add pt then ao_totalDuration m else AddInt64 d (ao_totalDuration m))"
    using assms(1) by (cases pt) (auto simp: past_defs split: if_splits)
qed

lemma sum_list_update_point:
  assumes "i < length ts" "ts ! i = (d, pt)"
  shows "(\<Sum>(d, pt)\<leftarrow>ts[i := (d, pt')]. f d pt) + f d pt = (\<Sum>(d, pt)\<leftarrow>ts. f d pt) + (f d pt' :: int)"
  using assms
proof (induction ts arbitrary: i)
  case (Cons t ts)
  then show ?case by (cases i) auto
qed simp

lemma rec_move_cases:
  assumes "rec_move i (m, ts) = Some (m', ts')"
  obtains d pt pt' where "i < length ts" "ts ! i = (d, pt)" "rec_step d pt m = Some (pt', m')"
    "ts' = ts[i := (d, pt')]"
  using assms by (cases "ts ! i") (auto simp: rec_move_def split: if_splits option.splits)

lemma rec_move_inv:
  assumes "rec_inv (m, ts)" "rec_move i (m, ts) = Some (m', ts')"
  shows "rec_inv (m', ts')"
proof -
  obtain d pt pt' where st: "i < length ts" "ts ! i = (d, pt)" "rec_step d pt m = Some (pt', m')"
      "ts' = ts[i := (d, pt')]" by (rule rec_move_cases [OF assms(2)])
  then have mem: "(d, pt) \<in> set ts" by (metis nth_mem)
  have inv: "\<forall>(d, pt)\<in>set ts. point_ok d pt" "min_cell.holds (done_of past_min ts) (ao_minDuration m)"
      "max_cell.holds (done_of past_max ts) (ao_maxDuration m)"
      "ao_totalDuration m = wrap64 (\<Sum>(d, pt)\<leftarrow>ts. if past_add pt then d else 0)"
    using assms(1) by (simp_all add: rec_inv_def)
  have ok: "point_ok d pt" using inv(1) mem by blast
  have A: "past_min pt \<Longrightarrow> d \<in> done_of past_min ts" "past_max pt \<Longrightarrow> d \<in> done_of past_max ts"
    using mem by (auto simp: done_of_def)
  note step = rec_step_inv [OF st(3) ok inv(2,3) A]
  have "\<forall>(d, pt)\<in>set ts'. point_ok d pt"
    using inv(1) step(1) set_update_subset_insert [of ts i "(d, pt')"] unfolding st(4) by blast
  moreover have "done_of past_min ts' = (if past_min pt' then insert d (done_of past_min ts) else done_of past_min ts)"
      "done_of past_max ts' = (if past_max pt' then insert d (done_of past_max ts) else done_of past_max ts)"
    unfolding st(4) using step(2,3) done_of_update [OF st(1,2)] by blast+
  moreover have "ao_totalDuration m' = wrap64 (\<Sum>(d, pt)\<leftarrow>ts'. if past_add pt then d else 0)"
    using step(4,7) inv(4) sum_list_update_point [OF st(1,2), where f = "\<lambda>d pt. if past_add pt then d else 0" and pt' = pt']
    by (auto simp: st(4) AddInt64_wrap split: if_splits)
  ultimately show ?thesis using step(5,6) by (simp add: rec_inv_def)
qed

lemma rec_run_inv: "rec_inv s \<Longrightarrow> rec_run is s = Some s' \<Longrightarrow> rec_inv s'"
proof (induction "is" arbitrary: s)
  case (Cons i "is")
  then show ?case
    by (cases s; cases "rec_move i s") (auto intro: rec_move_inv)
qed simp

subsection \<open>Termination\<close>

text \<open>
  A failing swap means that another goroutine has swapped since the load. The weight of a
  goroutine counts the accesses it still makes, a stale load costing two more, and \<open>K\<close> for each
  of the two cells it has not left: leaving pays for the loads it makes stale.
\<close>

fun weight :: "nat \<Rightarrow> atomicOperationMetrics \<Rightarrow> rec_point \<Rightarrow> nat" where
  "weight K m RAdd = 5 + 2 * K"
| "weight K m RMinLoad = 4 + 2 * K"
| "weight K m (RMinCas v) = (if v = ao_minDuration m then 3 else 5) + 2 * K"
| "weight K m RMaxLoad = 2 + K"
| "weight K m (RMaxCas v) = (if v = ao_maxDuration m then 1 else 3) + K"
| "weight K m RDone = 0"

definition rec_measure :: "rec_state \<Rightarrow> nat" where
  "rec_measure s = (case s of (m, ts) \<Rightarrow> \<Sum>j<length ts. weight (2 * length ts) m (snd (ts ! j)))"

lemma weight_stale: "weight K m' pt \<le> weight K m pt + 2"
  by (cases pt) auto

lemma weight_step:
  assumes "rec_step d pt m = Some (pt', m')"
  shows "(\<forall>q. weight K m' q = weight K m q) \<and> Suc (weight K m' pt') \<le> weight K m pt
    \<or> Suc (weight K m' pt' + K) \<le> weight K m pt"
proof (cases pt)
  case RAdd
  then have "weight K m' q = weight K m q" for q using assms by (cases q) auto
  then show ?thesis using RAdd assms by auto
qed (use assms in \<open>auto split: if_splits\<close>)

lemma rec_move_measure:
  assumes "rec_move i (m, ts) = Some (m', ts')"
  shows "rec_measure (m', ts') < rec_measure (m, ts) \<and> length ts' = length ts"
proof -
  obtain d pt pt' where st: "i < length ts" "ts ! i = (d, pt)" "rec_step d pt m = Some (pt', m')"
      "ts' = ts[i := (d, pt')]" by (rule rec_move_cases [OF assms])
  let ?n = "length ts" and ?K = "2 * length ts"
  let ?w = "\<lambda>j. weight ?K m (snd (ts ! j))" and ?w' = "\<lambda>j. weight ?K m' (snd (ts' ! j))"
  have split: "(\<Sum>j<?n. f j) = f i + (\<Sum>j\<in>{..<?n} - {i}. f j)" for f :: "nat \<Rightarrow> nat"
    using st(1) by (simp add: sum.remove)
  have other: "?w' j = weight ?K m' (snd (ts ! j))" if "j \<in> {..<?n} - {i}" for j
    using that by (simp add: st(4))
  have own: "?w' i = weight ?K m' pt'" "?w i = weight ?K m pt" using st by simp_all
  consider (same) "\<forall>q. weight ?K m' q = weight ?K m q" "Suc (weight ?K m' pt') \<le> weight ?K m pt"
    | (swap) "Suc (weight ?K m' pt' + ?K) \<le> weight ?K m pt"
    using weight_step [OF st(3), of ?K] by blast
  then have "(\<Sum>j<?n. ?w' j) < (\<Sum>j<?n. ?w j)"
  proof cases
    case same
    then have "(\<Sum>j\<in>{..<?n} - {i}. ?w' j) = (\<Sum>j\<in>{..<?n} - {i}. ?w j)"
      using other by (intro sum.cong) auto
    with same(2) own show ?thesis unfolding split by simp
  next
    case swap
    have "(\<Sum>j\<in>{..<?n} - {i}. ?w' j) \<le> (\<Sum>j\<in>{..<?n} - {i}. ?w j + 2)"
      using other weight_stale by (intro sum_mono) simp
    also have "\<dots> = (\<Sum>j\<in>{..<?n} - {i}. ?w j) + 2 * (?n - 1)"
      using st(1) by (subst sum.distrib) simp
    finally show ?thesis using swap own unfolding split by simp
  qed
  moreover have "length ts' = length ts" by (simp add: st(4))
  ultimately show ?thesis by (simp add: rec_measure_def)
qed

lemma rec_run_bound: "rec_run is s = Some s' \<Longrightarrow> length is + rec_measure s' \<le> rec_measure s \<and> length (snd s') = length (snd s)"
proof (induction "is" arbitrary: s)
  case (Cons i "is")
  obtain s1 where s1: "rec_move i s = Some s1" "rec_run is s1 = Some s'"
    using Cons.prems by (auto split: option.splits)
  then have "rec_measure s1 < rec_measure s" "length (snd s1) = length (snd s)"
    using rec_move_measure by (cases s; cases s1; auto)+
  with Cons.IH [OF s1(2)] show ?case by simp
qed simp

lemma rec_run_durations: "rec_run is s = Some s' \<Longrightarrow> map fst (snd s') = map fst (snd s)"
proof (induction "is" arbitrary: s)
  case (Cons i "is")
  obtain s1 where s1: "rec_move i s = Some s1" "rec_run is s1 = Some s'"
    using Cons.prems by (auto split: option.splits)
  obtain m ts m1 ts1 where s: "s = (m, ts)" "s1 = (m1, ts1)" by (cases s; cases s1)
  obtain d pt pt' where "i < length ts" "ts ! i = (d, pt)" "ts1 = ts[i := (d, pt')]"
    using rec_move_cases s1(1) s by metis
  then have "map fst ts1 = map fst ts" by (metis fst_conv list_update_id map_update nth_map)
  with Cons.IH [OF s1(2)] s show ?case by simp
qed simp

text \<open>C27: Whatever the interleaving of goroutines that record positive durations: together they make at
  most \<open>n * (4 * n + 5)\<close> accesses, a goroutine that has not returned can always move, and when
  all have returned the cells hold the 64-bit sum, the minimum and the maximum of the recorded
  durations.\<close>

theorem record_durations:
  assumes "\<forall>d\<in>set ds. 0 < d" "ds \<noteq> []" "rec_run is (rec_start ds) = Some s"
  shows "length is \<le> length ds * (4 * length ds + 5)
    \<and> (rec_finished s \<or> (\<exists>i. rec_move i s \<noteq> None))
    \<and> (rec_finished s \<longrightarrow> ao_totalDuration (fst s) = wrap64 (sum_list ds)
        \<and> ao_minDuration (fst s) = Min (set ds) \<and> ao_maxDuration (fst s) = Max (set ds))"
proof -
  obtain m ts where s: "s = (m, ts)" by (cases s)
  have b: "length is \<le> rec_measure (rec_start ds)" using rec_run_bound [OF assms(3)] by simp
  have "rec_measure (rec_start ds) = length ds * (4 * length ds + 5)"
    by (simp add: rec_measure_def rec_start_def algebra_simps)
  moreover have "\<exists>i. rec_move i s \<noteq> None" if nf: "\<not> rec_finished s"
  proof -
    obtain d pt where "(d, pt) \<in> set ts" "pt \<noteq> RDone" using nf by (auto simp: rec_finished_def s)
    then obtain i where i: "i < length ts" "ts ! i = (d, pt)" by (metis in_set_conv_nth)
    have "rec_step d pt m \<noteq> None" using \<open>pt \<noteq> RDone\<close> by (cases pt) auto
    then show ?thesis using i by (auto simp: rec_move_def s intro!: exI [of _ i])
  qed
  moreover have "ao_totalDuration m = wrap64 (sum_list ds) \<and> ao_minDuration m = Min (set ds)
      \<and> ao_maxDuration m = Max (set ds)" if fin: "rec_finished s"
  proof -
    have inv: "rec_inv (m, ts)" using rec_run_inv [OF rec_inv_start [OF assms(1)] assms(3)] s by simp
    have f: "map fst ts = ds" using rec_run_durations [OF assms(3)] s by (simp add: rec_start_def comp_def)
    have all: "snd t = RDone" if "t \<in> set ts" for t using that fin by (auto simp: rec_finished_def s)
    have "done_of P ts = set ds" if "P RDone" for P
      using that all f by (force simp: done_of_def)
    then have "done_of past_min ts = set ds" "done_of past_max ts = set ds" by (simp_all add: past_defs)
    moreover have "(\<Sum>(d, pt)\<leftarrow>ts. if past_add pt then d else 0) = sum_list (map fst ts)"
      by (intro arg_cong [where f = sum_list] map_cong) (auto simp: past_defs dest: all)
    ultimately show ?thesis
      using inv assms(2) f by (auto simp: rec_inv_def best_min_def best_max_def
          dest!: min_cell.holds_best max_cell.holds_best)
  qed
  ultimately show ?thesis using b s by auto
qed

theorem record_durations_witness:
  "\<exists>s. rec_run [0, 1, 0, 1, 1, 0, 0, 0, 0, 1] (rec_start [5, 3]) = Some s
     \<and> ao_minDuration (fst s) = 3 \<and> ao_maxDuration (fst s) = 5"
proof -
  let ?m = "zero_op\<lparr>ao_totalDuration := 8, ao_minDuration := 3, ao_maxDuration := 5\<rparr>"
  have r: "rec_run [0, 1, 0, 1, 1, 0, 0, 0, 0, 1] (rec_start [5, 3]) = Some (?m, [(5, RDone), (3, RDone)])"
    by (simp add: rec_start_def rec_move_def zero_op_def better_min_def better_max_def AddInt64_def wrap64_id)
  have "ao_minDuration ?m = Min (set [5, 3]) \<and> ao_maxDuration ?m = Max (set [5, 3])"
    using record_durations [OF _ _ r] by (simp add: rec_finished_def)
  then show ?thesis using r by auto
qed

text \<open>A duration of 0 is forgotten: the cell uses 0 for "none yet", so the next recording replaces
  the minimum although it is larger.\<close>

lemma zero_duration_forgotten:
  "ao_minDuration (fold record_duration [5, 0, 7] zero_op) = 7"
  by (simp add: record_duration_def better_min_def better_max_def zero_op_def)

section \<open>The read-write lock\<close>

text \<open>
  A snapshot of \<open>k\<close> protocols holds the read lock (\<open>GOuter j\<close>, \<open>j\<close> protocols left) and takes it
  once more to copy the reasons of each (\<open>GInner\<close>). A recording call announces itself (\<open>WWait\<close>),
  waits until there is no reader, and then holds the lock (\<open>WIn\<close>). A reader can only enter when
  no writer waits or holds; that a released lock serves waiting readers first makes no
  difference to which states are stuck.
\<close>

datatype writer_state = WNone | WPending | WHeld

record rwlock =
  rw_readers :: nat
  rw_writer :: writer_state

datatype lk_point = GStart nat | GOuter nat | GInner nat | GEnd | WStart | WWait | WIn | WEnd

fun lk_step :: "lk_point \<Rightarrow> rwlock \<Rightarrow> (lk_point \<times> rwlock) option" where
  "lk_step (GStart k) l = (if rw_writer l = WNone then Some (GOuter k, l\<lparr>rw_readers := Suc (rw_readers l)\<rparr>) else None)"
| "lk_step (GOuter 0) l = Some (GEnd, l\<lparr>rw_readers := rw_readers l - 1\<rparr>)"
| "lk_step (GOuter (Suc j)) l =
     (if rw_writer l = WNone then Some (GInner j, l\<lparr>rw_readers := Suc (rw_readers l)\<rparr>) else None)"
| "lk_step (GInner j) l = Some (GOuter j, l\<lparr>rw_readers := rw_readers l - 1\<rparr>)"
| "lk_step GEnd l = None"
| "lk_step WStart l = (if rw_writer l = WNone then Some (WWait, l\<lparr>rw_writer := WPending\<rparr>) else None)"
| "lk_step WWait l = (if rw_readers l = 0 then Some (WIn, l\<lparr>rw_writer := WHeld\<rparr>) else None)"
| "lk_step WIn l = Some (WEnd, l\<lparr>rw_writer := WNone\<rparr>)"
| "lk_step WEnd l = None"

type_synonym lk_state = "rwlock \<times> lk_point list"

inductive lk_reach :: "nat list \<Rightarrow> nat \<Rightarrow> lk_state \<Rightarrow> bool" for ks n where
  start: "lk_reach ks n (\<lparr>rw_readers = 0, rw_writer = WNone\<rparr>, map GStart ks @ replicate n WStart)"
| move: "lk_reach ks n (l, ts) \<Longrightarrow> i < length ts \<Longrightarrow> lk_step (ts ! i) l = Some (pt, l') \<Longrightarrow>
    lk_reach ks n (l', ts[i := pt])"

definition lk_stuck :: "lk_state \<Rightarrow> bool" where
  "lk_stuck s \<longleftrightarrow> (\<exists>pt\<in>set (snd s). pt \<noteq> GEnd \<and> pt \<noteq> WEnd) \<and> (\<forall>pt\<in>set (snd s). lk_step pt (fst s) = None)"

fun reads :: "lk_point \<Rightarrow> nat" where
  "reads (GOuter _) = 1" | "reads (GInner _) = 2" | "reads _ = 0"

fun protocols_left :: "lk_point \<Rightarrow> nat" where
  "protocols_left (GStart j) = j" | "protocols_left (GOuter j) = j" | "protocols_left (GInner j) = Suc j"
| "protocols_left _ = 0"

definition is_writer :: "lk_point \<Rightarrow> bool" where
  "is_writer pt \<longleftrightarrow> pt \<in> {WStart, WWait, WIn, WEnd}"

definition lk_inv :: "nat list \<Rightarrow> nat \<Rightarrow> lk_state \<Rightarrow> bool" where
  "lk_inv ks n s \<longleftrightarrow> (case s of (l, ts) \<Rightarrow> rw_readers l = sum_list (map reads ts)
     \<and> (rw_writer l = WPending \<longrightarrow> WWait \<in> set ts) \<and> (rw_writer l = WHeld \<longrightarrow> WIn \<in> set ts)
     \<and> (n = 0 \<longrightarrow> (\<forall>pt\<in>set ts. \<not> is_writer pt))
     \<and> ((\<forall>k\<in>set ks. k = 0) \<longrightarrow> (\<forall>pt\<in>set ts. protocols_left pt = 0)))"

lemma sum_list_reads_update:
  "i < length ts \<Longrightarrow> sum_list (map reads (ts[i := pt])) + reads (ts ! i) = sum_list (map reads ts) + reads pt"
proof (induction ts arbitrary: i)
  case (Cons t ts)
  then show ?case by (cases i) auto
qed simp

lemma lk_step_local:
  assumes "lk_step pt l = Some (pt', l')"
  shows "rw_readers l' + reads pt = rw_readers l + reads pt' \<or> rw_readers l < reads pt"
    and "rw_writer l' = WPending \<Longrightarrow> pt' = WWait \<or> (rw_writer l = WPending \<and> pt \<noteq> WWait)"
    and "rw_writer l' = WHeld \<Longrightarrow> pt' = WIn \<or> (rw_writer l = WHeld \<and> pt \<noteq> WIn)"
    and "is_writer pt' = is_writer pt" "protocols_left pt' \<le> protocols_left pt"
  using assms by (cases "(pt, l)" rule: lk_step.cases; auto simp: is_writer_def split: if_splits)+

lemma in_update:
  assumes "i < length ts" "y = x \<or> x \<in> set ts \<and> ts ! i \<noteq> x"
  shows "x \<in> set (ts[i := y])"
  using assms by (metis in_set_conv_nth length_list_update nth_list_update_eq nth_list_update_neq)

lemma lk_reach_inv: "lk_reach ks n s \<Longrightarrow> lk_inv ks n s"
proof (induction rule: lk_reach.induct)
  case start
  have "sum_list (map (reads \<circ> GStart) ks) = 0" by (induction ks) simp_all
  then show ?case by (auto simp: lk_inv_def is_writer_def map_replicate_const sum_list_replicate)
next
  case (move l ts i pt l')
  let ?ts = "ts[i := pt]"
  note loc = lk_step_local [OF move.hyps(3)]
  have mem: "ts ! i \<in> set ts" using move.hyps(2) by simp
  have sub: "set ?ts \<subseteq> insert pt (set ts)" by (rule set_update_subset_insert)
  have inv: "rw_readers l = sum_list (map reads ts)" "rw_writer l = WPending \<longrightarrow> WWait \<in> set ts"
      "rw_writer l = WHeld \<longrightarrow> WIn \<in> set ts" "n = 0 \<longrightarrow> (\<forall>q\<in>set ts. \<not> is_writer q)"
      "(\<forall>k\<in>set ks. k = 0) \<longrightarrow> (\<forall>q\<in>set ts. protocols_left q = 0)"
    using move.IH by (simp_all add: lk_inv_def)
  have "reads (ts ! i) \<le> sum_list (map reads ts)" using mem by (simp add: member_le_sum_list)
  then have "rw_readers l' = sum_list (map reads ?ts)"
    using loc(1) inv(1) sum_list_reads_update [OF move.hyps(2), of pt] by linarith
  moreover have "rw_writer l' = WPending \<longrightarrow> WWait \<in> set ?ts"
    using loc(2) inv(2) by (intro impI in_update [OF move.hyps(2)]) blast
  moreover have "rw_writer l' = WHeld \<longrightarrow> WIn \<in> set ?ts"
    using loc(3) inv(3) by (intro impI in_update [OF move.hyps(2)]) blast
  moreover have "n = 0 \<longrightarrow> (\<forall>q\<in>set ?ts. \<not> is_writer q)"
    using inv(4) sub mem loc(4) by blast
  moreover have "(\<forall>k\<in>set ks. k = 0) \<longrightarrow> (\<forall>q\<in>set ?ts. protocols_left q = 0)"
  proof
    assume "\<forall>k\<in>set ks. k = 0"
    then have old: "\<forall>q\<in>set ts. protocols_left q = 0" using inv(5) by blast
    then have "protocols_left pt = 0" using loc(5) mem by fastforce
    with old sub show "\<forall>q\<in>set ?ts. protocols_left q = 0" by blast
  qed
  ultimately show ?case by (simp add: lk_inv_def)
qed

text \<open>Without a nested lock, or without a recording call, somebody can always move.\<close>

lemma lk_not_stuck:
  assumes "lk_inv ks n (l, ts)" "n = 0 \<or> (\<forall>k\<in>set ks. k = 0)"
  shows "\<not> lk_stuck (l, ts)"
proof
  assume "lk_stuck (l, ts)"
  then obtain pt where pt: "pt \<in> set ts" "pt \<noteq> GEnd" "pt \<noteq> WEnd"
    and no: "\<And>q. q \<in> set ts \<Longrightarrow> lk_step q l = None" by (auto simp: lk_stuck_def)
  have w: "rw_writer l = WPending \<longrightarrow> WWait \<in> set ts" "rw_writer l = WHeld \<longrightarrow> WIn \<in> set ts"
    and nw: "n = 0 \<Longrightarrow> \<not> is_writer q" if "q \<in> set ts" for q
    using assms(1) that by (auto simp: lk_inv_def)
  have in0: "WIn \<notin> set ts" using no by force
  have free: "rw_writer l = WNone \<Longrightarrow> False"
  proof -
    assume f: "rw_writer l = WNone"
    have "reads q = 0" if "q \<in> set ts" for q
      using no [OF that] f by (cases "(q, l)" rule: lk_step.cases) auto
    then have "rw_readers l = 0" using assms(1) by (simp add: lk_inv_def)
    then show False using no [OF pt(1)] f pt(2,3) by (cases "(pt, l)" rule: lk_step.cases) auto
  qed
  have "rw_writer l = WPending" using free in0 w [OF pt(1)] by (cases "rw_writer l") auto
  then have ww: "WWait \<in> set ts" using w [OF pt(1)] by simp
  then have "n \<noteq> 0" using nw [OF ww] by (auto simp: is_writer_def)
  then have z: "\<forall>k\<in>set ks. k = 0" using assms(2) by simp
  have "reads q = 0" if "q \<in> set ts" for q
  proof -
    have "protocols_left q = 0" using z that assms(1) by (simp add: lk_inv_def)
    then show ?thesis using no [OF that] by (cases "(q, l)" rule: lk_step.cases) auto
  qed
  then have "rw_readers l = 0" using assms(1) by (simp add: lk_inv_def)
  then show False using no [OF ww] by simp
qed

lemma lk_deadlock:
  assumes "k \<in> set ks" "0 < k" "0 < n"
  shows "\<exists>s. lk_reach ks n s \<and> lk_stuck s"
proof -
  obtain i where i: "i < length ks" "ks ! i = k" using assms(1) by (metis in_set_conv_nth)
  let ?ts = "map GStart ks @ replicate n WStart"
  let ?ts1 = "?ts[i := GOuter k]" and ?l1 = "\<lparr>rw_readers = 1, rw_writer = WNone\<rparr>"
  let ?ts2 = "?ts1[length ks := WWait]" and ?l2 = "\<lparr>rw_readers = 1, rw_writer = WPending\<rparr>"
  have "lk_reach ks n (?l1, ?ts1)"
    using lk_reach.move [OF lk_reach.start, of i ks n "GOuter k" ?l1] i by (simp add: nth_append)
  from lk_reach.move [OF this, of "length ks" WWait ?l2]
  have reach: "lk_reach ks n (?l2, ?ts2)" using assms(3) i by (simp add: nth_append)
  have pts: "set ?ts2 \<subseteq> {WWait, GOuter k, WStart} \<union> range GStart"
    using set_update_subset_insert [of ?ts1 "length ks" WWait] set_update_subset_insert [of ?ts i "GOuter k"]
    by fastforce
  have "lk_step (GOuter k) ?l2 = None" using assms(2) by (cases k) auto
  then have "lk_step pt ?l2 = None" if "pt \<in> set ?ts2" for pt using that pts by auto
  moreover have "WWait \<in> set ?ts2" using assms(3) by (intro set_update_memI) simp
  ultimately have "lk_stuck (?l2, ?ts2)" unfolding lk_stuck_def by fastforce
  with reach show ?thesis by blast
qed

text \<open>C22: Snapshots and recording calls can block each other for ever exactly when a snapshot covers at
  least one protocol and there is at least one recording call: the nested read lock waits for
  the writer, which waits for the outer one.\<close>

theorem GetMetrics_deadlock:
  "(\<exists>s. lk_reach ks n s \<and> lk_stuck s) \<longleftrightarrow> 0 < n \<and> (\<exists>k\<in>set ks. 0 < k)"
proof
  assume "\<exists>s. lk_reach ks n s \<and> lk_stuck s"
  then obtain l ts where "lk_inv ks n (l, ts)" "lk_stuck (l, ts)" using lk_reach_inv by fast
  with lk_not_stuck show "0 < n \<and> (\<exists>k\<in>set ks. 0 < k)" by (metis neq0_conv)
qed (use lk_deadlock in blast)

end
