(* ===== verification/Drivers.thy ===== *)
theory Drivers
  imports Ping
begin

text \<open>
  The protocol drivers and their factories (\<open>connection/scrapli_driver.go\<close>, \<open>ssh_driver.go\<close>,
  \<open>scrapli_factory.go\<close>, \<open>ssh_factory.go\<close>). The network libraries are parameters: records of the
  functions the code calls, which read and change a world \<open>'w\<close>. A context is the function that
  gives its error, if it has ended, in a world. A call that waits for a result or for the end of
  its context asks the library record which of the two came first. The methods of the Scrapli
  driver are split where they release their lock, so that other calls can be put in between.
\<close>

section \<open>Contexts\<close>

type_synonym 'w ctx = "'w \<Rightarrow> string option"

definition background :: "'w ctx" where
  "background = (\<lambda>_. None)"

definition cancel_ctx :: "'w \<Rightarrow> 'w ctx \<Rightarrow> 'w ctx" where
  "cancel_ctx w c = (\<lambda>_. Some (case c w of Some e \<Rightarrow> e | None \<Rightarrow> ''context canceled''))"

section \<open>The Scrapli driver\<close>

datatype close_result = CloseOk | CloseErr string | ClosePanic string

text \<open>The part of scrapligo the driver calls. Handles name its platform and driver objects.
  \<open>nl_timeout\<close> is \<open>context.SSH_WithTimeout\<close>; \<open>nl_first c w w'\<close> says that the context \<open>c\<close> ended, in the
  world it returns, before a call that was started in \<open>w\<close> and would have ended in \<open>w'\<close>.\<close>

record 'w netlib =
  nl_platform :: "string \<Rightarrow> string \<Rightarrow> string \<Rightarrow> string \<Rightarrow> duration \<Rightarrow> 'w \<Rightarrow> (string + nat) \<times> 'w"
  nl_driver :: "nat \<Rightarrow> 'w \<Rightarrow> (string + nat) \<times> 'w"
  nl_open :: "nat \<Rightarrow> 'w \<Rightarrow> string option \<times> 'w"
  nl_close :: "nat \<Rightarrow> 'w \<Rightarrow> close_result \<times> 'w"
  nl_commands :: "nat \<Rightarrow> string list \<Rightarrow> 'w \<Rightarrow> (string + string list) \<times> 'w"
  nl_interactive :: "nat \<Rightarrow> SendInteractiveEvent list \<Rightarrow> 'w \<Rightarrow> (string + string) \<times> 'w"
  nl_prompt :: "nat \<Rightarrow> 'w \<Rightarrow> (string + string) \<times> 'w"
  nl_config :: "nat \<Rightarrow> string \<Rightarrow> 'w \<Rightarrow> (string + string) \<times> 'w"
  nl_timeout :: "'w ctx \<Rightarrow> duration \<Rightarrow> 'w \<Rightarrow> 'w ctx"
  nl_first :: "'w ctx \<Rightarrow> 'w \<Rightarrow> 'w \<Rightarrow> 'w option"

text \<open>The channel of an open driver is named by the driver's handle.\<close>

record 'w ScrapliDriver =
  sd_host :: string
  sd_username :: string
  sd_password :: string
  sd_platform :: string
  sd_driver :: "nat option"
  sd_channel :: "nat option"
  sd_maxRetries :: int
  sd_timeout :: duration
  sd_ctx :: "'w ctx option"
  sd_cancel :: bool
  sd_closed :: bool

subsection \<open>Connect\<close>

text \<open>The locked check: \<open>None\<close> when the call goes on, else the error it returns.\<close>

definition connect_check :: "'w ScrapliDriver \<Rightarrow> string option option" where
  "connect_check d = (if sd_closed d then Some (Some ''driver already closed'')
     else if sd_driver d \<noteq> None \<and> sd_channel d \<noteq> None then Some None else None)"

definition default_ctx :: "'w netlib \<Rightarrow> 'w \<Rightarrow> 'w ScrapliDriver \<Rightarrow> 'w ScrapliDriver" where
  "default_ctx L w d = (case sd_ctx d of
     None \<Rightarrow> d\<lparr>sd_ctx := Some (nl_timeout L background (sd_timeout d) w), sd_cancel := True\<rparr>
   | Some _ \<Rightarrow> if sd_cancel d then d else d\<lparr>sd_cancel := True\<rparr>)"

definition open_driver ::
  "'w netlib \<Rightarrow> string \<Rightarrow> nat \<Rightarrow> 'w ScrapliDriver \<Rightarrow> 'w \<Rightarrow> string option \<times> 'w ScrapliDriver \<times> 'w" where
  "open_driver L msg h d w = (case nl_open L h w of
     (Some e, w1) \<Rightarrow> (Some (msg @ e), d\<lparr>sd_driver := None, sd_channel := None\<rparr>, w1)
   | (None, w1) \<Rightarrow> (None, d\<lparr>sd_driver := Some h, sd_channel := Some h\<rparr>, w1))"

text \<open>The rest of \<open>Connect\<close>, which holds no lock.\<close>

definition connect_open ::
  "'w netlib \<Rightarrow> 'w ScrapliDriver \<Rightarrow> 'w \<Rightarrow> string option \<times> 'w ScrapliDriver \<times> 'w" where
  "connect_open L d0 w = (let d = default_ctx L w d0 in case sd_driver d of
     Some h \<Rightarrow> open_driver L ''open existing driver failed: '' h d w
   | None \<Rightarrow>
      (case nl_platform L (sd_platform d) (sd_host d) (sd_username d) (sd_password d) (sd_timeout d) w of
         (Inl e, w1) \<Rightarrow> (Some (''create platform failed: '' @ e), d, w1)
       | (Inr p, w1) \<Rightarrow> (case nl_driver L p w1 of
           (Inl e, w2) \<Rightarrow> (Some (''get network driver failed: '' @ e), d, w2)
         | (Inr h, w2) \<Rightarrow> open_driver L ''open connection failed: '' h d w2)))"

definition Connect ::
  "'w netlib \<Rightarrow> 'w ScrapliDriver \<Rightarrow> 'w \<Rightarrow> string option \<times> 'w ScrapliDriver \<times> 'w" where
  "Connect L d w = (case connect_check d of Some r \<Rightarrow> (r, d, w) | None \<Rightarrow> connect_open L d w)"

subsection \<open>Commands\<close>

text \<open>
  The block every command starts with: refuse a closed driver (not in \<open>SendConfig\<close>) and one
  without a library driver, connect when there is no channel, and give up when there is none
  afterwards. The result is the handle to use.
\<close>

definition ensure_channel ::
  "'w netlib \<Rightarrow> bool \<Rightarrow> string \<Rightarrow> string \<Rightarrow> 'w ScrapliDriver \<Rightarrow> 'w \<Rightarrow> (string + nat) \<times> 'w ScrapliDriver \<times> 'w" where
  "ensure_channel L check uninit unavailable d w =
    (if check \<and> sd_closed d then (Inl ''driver already closed'', d, w)
     else if sd_driver d = None then (Inl uninit, d, w)
     else let (e, d1, w1) = (if sd_channel d = None then Connect L d w else (None, d, w)) in
       case e of Some err \<Rightarrow> (Inl (''connection not established: '' @ err), d1, w1)
       | None \<Rightarrow> (case (sd_driver d1, sd_channel d1) of
           (Some h, Some _) \<Rightarrow> (Inr h, d1, w1)
         | _ \<Rightarrow> (Inl unavailable, d1, w1)))"

text \<open>Waiting for the result of a call made in its own goroutine, or for the end of the context.\<close>

definition await :: "'w netlib \<Rightarrow> 'w ctx \<Rightarrow> 'w \<Rightarrow> (string + 'r) \<times> 'w \<Rightarrow> (string + 'r) \<times> 'w" where
  "await L c w res = (case nl_first L c w (snd res) of
     Some w1 \<Rightarrow> (Inl (case c w1 of Some e \<Rightarrow> e | None \<Rightarrow> []), w1)
   | None \<Rightarrow> res)"

text \<open>The results of several commands, separated by line breaks.\<close>

fun raw_data :: "string list \<Rightarrow> string" where
  "raw_data [] = []"
| "raw_data (r # rs) = r @ (if rs = [] then [] else newline) @ raw_data rs"

definition exec_payload ::
  "'w netlib \<Rightarrow> 'w ctx \<Rightarrow> duration \<Rightarrow> nat \<Rightarrow> Command \<Rightarrow> 'w \<Rightarrow> (string + string) \<times> 'w" where
  "exec_payload L c timeout h req w =
    (let execCtx = nl_timeout L c timeout w in
     if cmd_Type req = CommandTypeCommands then
       (case cmd_Payload req of
          PCommands cmds \<Rightarrow> (case await L execCtx w (nl_commands L h cmds w) of
             (Inl e, w1) \<Rightarrow> (Inl e, w1) | (Inr rs, w1) \<Rightarrow> (Inr (raw_data rs), w1))
        | _ \<Rightarrow> (Inl ''invalid commands payload'', w))
     else if cmd_Type req = CommandTypeInteractiveEvent then
       (case cmd_Payload req of
          PEvents events \<Rightarrow> await L execCtx w (nl_interactive L h events w)
        | _ \<Rightarrow> (Inl ''invalid events payload'', w))
     else (Inl ''unsupported command type'', w))"

definition Scrapli_Execute ::
  "'w netlib \<Rightarrow> 'w ctx option \<Rightarrow> Command option \<Rightarrow> 'w ScrapliDriver \<Rightarrow> 'w
     \<Rightarrow> (string + string) \<times> 'w ScrapliDriver \<times> 'w" where
  "Scrapli_Execute L ctx req d w =
    (case ensure_channel L True ''driver not properly initialized''
        ''channel not available after connection attempt'' d w of
       (Inl e, d1, w1) \<Rightarrow> (Inl e, d1, w1)
     | (Inr h, d1, w1) \<Rightarrow>
        let d2 = (if ctx = None \<and> sd_ctx d1 = None
              then d1\<lparr>sd_ctx := Some (nl_timeout L background (sd_timeout d1) w1), sd_cancel := True\<rparr> else d1);
            c = (case ctx of Some c \<Rightarrow> c | None \<Rightarrow> (case sd_ctx d2 of Some c \<Rightarrow> c | None \<Rightarrow> background))
        in case c w1 of
             Some e \<Rightarrow> (Inl e, d2, w1)
           | None \<Rightarrow> (case req of
               None \<Rightarrow> (Inl ''request cannot be nil'', d2, w1)
             | Some r \<Rightarrow> let (res, w2) = exec_payload L c (sd_timeout d2) h r w1 in (res, d2, w2)))"

definition SendConfig ::
  "'w netlib \<Rightarrow> string \<Rightarrow> 'w ScrapliDriver \<Rightarrow> 'w \<Rightarrow> (string + string) \<times> 'w ScrapliDriver \<times> 'w" where
  "SendConfig L config d w =
    (case ensure_channel L False ''driver not initialized''
        ''driver or channel not available after connection attempt'' d w of
       (Inl e, d1, w1) \<Rightarrow> (Inl e, d1, w1)
     | (Inr h, d1, w1) \<Rightarrow> let (r, w2) = nl_config L h config w1 in (r, d1, w2))"

definition SendInteractive ::
  "'w netlib \<Rightarrow> SendInteractiveEvent list \<Rightarrow> 'w ScrapliDriver \<Rightarrow> 'w \<Rightarrow> (string + string) \<times> 'w ScrapliDriver \<times> 'w" where
  "SendInteractive L events d w =
    (case ensure_channel L True ''driver not initialized'' ''channel not available after connection attempt'' d w of
       (Inl e, d1, w1) \<Rightarrow> (Inl e, d1, w1)
     | (Inr h, d1, w1) \<Rightarrow> (case nl_interactive L h events w1 of
         (Inl e, w2) \<Rightarrow> (Inl (''send interactive failed: '' @ e), d1, w2) | (Inr r, w2) \<Rightarrow> (Inr r, d1, w2)))"

definition Scrapli_SendCommands ::
  "'w netlib \<Rightarrow> string list \<Rightarrow> 'w ScrapliDriver \<Rightarrow> 'w \<Rightarrow> (string + string list) \<times> 'w ScrapliDriver \<times> 'w" where
  "Scrapli_SendCommands L commands d w =
    (case ensure_channel L True ''driver not initialized''
        ''driver or channel not available after connection attempt'' d w of
       (Inl e, d1, w1) \<Rightarrow> (Inl e, d1, w1)
     | (Inr h, d1, w1) \<Rightarrow> (case nl_commands L h commands w1 of
         (Inl e, w2) \<Rightarrow> (Inl (''send command failed: '' @ e), d1, w2) | (Inr r, w2) \<Rightarrow> (Inr r, d1, w2)))"

text \<open>\<open>GetPrompt\<close> also returns a string with some of its errors, which no caller reads. It checks
  only the library driver after connecting, which a successful \<open>Connect\<close> always leaves.\<close>

definition GetPrompt :: "'w netlib \<Rightarrow> 'w ScrapliDriver \<Rightarrow> 'w \<Rightarrow> (string + string) \<times> 'w ScrapliDriver \<times> 'w" where
  "GetPrompt L d w =
    (if sd_closed d then (Inl ''driver already closed'', d, w)
     else if sd_driver d = None then (Inl ''driver not initialized'', d, w)
     else let (e, d1, w1) = (if sd_channel d = None then Connect L d w else (None, d, w)) in
       case e of Some err \<Rightarrow> (Inl (''connection not established: '' @ err), d1, w1)
       | None \<Rightarrow> (case sd_driver d1 of
           None \<Rightarrow> (Inl ''driver not available'', d1, w1)
         | Some h \<Rightarrow> let (r, w2) = nl_prompt L h w1 in (r, d1, w2)))"

definition GetPromptWithContext ::
  "'w netlib \<Rightarrow> 'w ctx option \<Rightarrow> 'w ScrapliDriver \<Rightarrow> 'w \<Rightarrow> (string + string) \<times> 'w ScrapliDriver \<times> 'w" where
  "GetPromptWithContext L ctx d w =
    (let c = (case ctx of Some c \<Rightarrow> c | None \<Rightarrow> background);
         execCtx = nl_timeout L c (sd_timeout d) w;
         (r, d1, w1) = GetPrompt L d w;
         (r', w2) = await L execCtx w (r, w1)
     in (r', d1, w2))"

definition WithContext :: "'w ctx \<Rightarrow> 'w ScrapliDriver \<Rightarrow> 'w ScrapliDriver" where
  "WithContext c d = (if sd_closed d then d else d\<lparr>sd_ctx := Some c, sd_cancel := True\<rparr>)"

subsection \<open>Close\<close>

text \<open>Under the lock: mark the driver closed. \<open>Inl\<close> is the return value of a call that ends here;
  \<open>Inr b\<close> goes on, after giving the lock away for 200 ms when \<open>b\<close>.\<close>

definition close_mark :: "'w \<Rightarrow> 'w ScrapliDriver \<Rightarrow> (string option + bool) \<times> 'w ScrapliDriver" where
  "close_mark w d =
    (if sd_closed d then (Inl None, d)
     else let d1 = d\<lparr>sd_closed := True\<rparr> in
       if sd_driver d1 = None then (Inl None, d1\<lparr>sd_channel := None\<rparr>)
       else if sd_cancel d1 then (Inr True, d1\<lparr>sd_ctx := map_option (cancel_ctx w) (sd_ctx d1)\<rparr>)
       else (Inr False, d1))"

definition expected_close_error :: "string \<Rightarrow> bool" where
  "expected_close_error e \<longleftrightarrow> Contains e ''invalid argument'' \<or> Contains e ''use of closed network connection''
     \<or> Contains e ''already closed'' \<or> Contains e ''connection reset by peer'' \<or> Contains e ''broken pipe''
     \<or> Contains e ''send on closed channel''"

definition close_error :: "close_result \<Rightarrow> string option" where
  "close_error r = (case (case r of CloseOk \<Rightarrow> None | CloseErr e \<Rightarrow> Some e
        | ClosePanic e \<Rightarrow> Some (''panic during close: '' @ e)) of
     None \<Rightarrow> None | Some e \<Rightarrow> if expected_close_error e then None else Some e)"

definition close_finish ::
  "'w netlib \<Rightarrow> bool \<Rightarrow> 'w ScrapliDriver \<Rightarrow> 'w \<Rightarrow> string option \<times> 'w ScrapliDriver \<times> 'w" where
  "close_finish L waited d w =
    (if waited \<and> sd_closed d \<and> sd_driver d = None then (None, d, w)
     else let (err, w1) = (case sd_driver d of None \<Rightarrow> (None, w)
                | Some h \<Rightarrow> let (r, w1) = nl_close L h w in (close_error r, w1));
              d1 = d\<lparr>sd_driver := None, sd_channel := None\<rparr>;
              live = (case sd_ctx d1 of None \<Rightarrow> False | Some c \<Rightarrow> c w1 = None)
       in (err, if live then d1 else d1\<lparr>sd_ctx := None, sd_cancel := False\<rparr>, w1))"

definition Scrapli_Close ::
  "'w netlib \<Rightarrow> 'w ScrapliDriver \<Rightarrow> 'w \<Rightarrow> string option \<times> 'w ScrapliDriver \<times> 'w" where
  "Scrapli_Close L d w = (case close_mark w d of
     (Inl r, d1) \<Rightarrow> (r, d1, w) | (Inr b, d1) \<Rightarrow> close_finish L b d1 w)"

subsection \<open>Factory\<close>

text \<open>The platform of the configuration's metadata; \<open>stringer\<close> is the \<open>String\<close> method of a value of
  a further type, if it has one.\<close>

definition platform_name :: "(string \<Rightarrow> string option) \<Rightarrow> gvalue option \<Rightarrow> string + string" where
  "platform_name stringer v = (case v of
     None \<Rightarrow> Inl (''metadata '' @ [CHR 0x27] @ ''platform'' @ [CHR 0x27] @ '' field missing'')
   | Some x \<Rightarrow> (case (case x of VString s \<Rightarrow> Some s | VPlatform s \<Rightarrow> Some s | VBytes s \<Rightarrow> Some s
          | VDuration n \<Rightarrow> Some (Duration_String n) | VOther n \<Rightarrow> stringer n | _ \<Rightarrow> None) of
       None \<Rightarrow> Inl (''unsupported platform type: '' @ type_name x)
     | Some s \<Rightarrow> if s = [] then Inl ''platform cannot be empty'' else Inr s))"

definition ScrapliFactory_CreateWithContext ::
  "'w netlib \<Rightarrow> (string \<Rightarrow> string option) \<Rightarrow> 'w ctx \<Rightarrow> config \<Rightarrow> 'w \<Rightarrow> (string + 'w ScrapliDriver) \<times> 'w" where
  "ScrapliFactory_CreateWithContext L stringer ctx cfg w =
    (case ctx w of Some e \<Rightarrow> (Inl e, w)
     | None \<Rightarrow> (case platform_name stringer (Metadata cfg ''platform'') of
         Inl e \<Rightarrow> (Inl e, w)
       | Inr platformOS \<Rightarrow>
          (case nl_platform L platformOS (Host cfg) (Username cfg) (Password cfg) (60 * Second) w of
             (Inl e, w1) \<Rightarrow> (Inl (''create platform failed: '' @ e), w1)
           | (Inr p, w1) \<Rightarrow> (case nl_driver L p w1 of
               (Inl e, w2) \<Rightarrow> (Inl (''get network driver failed: '' @ e), w2)
             | (Inr h, w2) \<Rightarrow> (Inr \<lparr>sd_host = Host cfg, sd_username = Username cfg, sd_password = Password cfg,
                  sd_platform = platformOS, sd_driver = Some h, sd_channel = None, sd_maxRetries = 3,
                  sd_timeout = ConnectTimeout cfg, sd_ctx = Some ctx, sd_cancel = True, sd_closed = False\<rparr>, w2)))))"

definition ScrapliFactory_Create ::
  "'w netlib \<Rightarrow> (string \<Rightarrow> string option) \<Rightarrow> config \<Rightarrow> 'w \<Rightarrow> (string + 'w ScrapliDriver) \<times> 'w" where
  "ScrapliFactory_Create L stringer cfg w = ScrapliFactory_CreateWithContext L stringer background cfg w"

definition check_timeout :: "config \<Rightarrow> duration" where
  "check_timeout cfg = (if HealthCheckTimeout cfg = 0 then 5 * Second else HealthCheckTimeout cfg)"

definition ScrapliFactory_HealthCheck ::
  "'w netlib \<Rightarrow> config \<Rightarrow> 'w ScrapliDriver \<Rightarrow> 'w \<Rightarrow> bool \<times> 'w ScrapliDriver \<times> 'w" where
  "ScrapliFactory_HealthCheck L cfg d w =
    (case GetPromptWithContext L (Some (nl_timeout L background (check_timeout cfg) w)) d w of
       (r, d1, w1) \<Rightarrow> (\<not> isl r, d1, w1))"

section \<open>The SSH driver\<close>

text \<open>The part of \<open>x/crypto/ssh\<close> the driver calls: \<open>sl_run\<close> gives the output and the error.\<close>

record 'w sshlib =
  sl_dial :: "string \<Rightarrow> string \<Rightarrow> string \<Rightarrow> duration \<Rightarrow> 'w \<Rightarrow> (string + nat) \<times> 'w"
  sl_session :: "nat \<Rightarrow> 'w \<Rightarrow> (string + nat) \<times> 'w"
  sl_close_client :: "nat \<Rightarrow> 'w \<Rightarrow> 'w"
  sl_run :: "nat \<Rightarrow> string \<Rightarrow> 'w \<Rightarrow> (string \<times> string option) \<times> 'w"
  sl_close :: "nat \<Rightarrow> 'w \<Rightarrow> string option \<times> 'w"
  sl_timeout :: "'w ctx \<Rightarrow> duration \<Rightarrow> 'w \<Rightarrow> 'w ctx"
  sl_first :: "'w ctx \<Rightarrow> 'w \<Rightarrow> 'w \<Rightarrow> 'w option"

record SSHDriver =
  sh_session :: nat
  sh_timeout :: duration

definition NewSSHDriver :: "nat \<Rightarrow> SSHDriver" where
  "NewSSHDriver session = \<lparr>sh_session = session, sh_timeout = 30 * Second\<rparr>"

definition SSH_WithTimeout :: "duration \<Rightarrow> SSHDriver \<Rightarrow> SSHDriver" where
  "SSH_WithTimeout t d = d\<lparr>sh_timeout := t\<rparr>"

text \<open>Output is collected over the commands; the first error ends the loop.\<close>

fun SSH_SendCommands :: "'w sshlib \<Rightarrow> nat \<Rightarrow> string list \<Rightarrow> 'w \<Rightarrow> (string \<times> string option) \<times> 'w" where
  "SSH_SendCommands L s [] w = (([], None), w)"
| "SSH_SendCommands L s (cmd # cmds) w = (case sl_run L s cmd w of
     ((out, Some e), w1) \<Rightarrow> ((out, Some (''command execution failed: '' @ e)), w1)
   | ((out, None), w1) \<Rightarrow> (case SSH_SendCommands L s cmds w1 of
       ((out2, err), w2) \<Rightarrow> ((out @ out2, err), w2)))"

definition SSH_SendInteractive :: "SendInteractiveEvent list \<Rightarrow> string \<times> string option" where
  "SSH_SendInteractive events = ([], Some ''SSH protocol does not support interactive commands'')"

record ProtocolResponse =
  pr_Success :: bool
  pr_RawData :: string

text \<open>\<open>has_deadline\<close> tells whether the given context has one; the driver's timeout is used otherwise.\<close>

definition SSH_Execute ::
  "'w sshlib \<Rightarrow> ('w ctx \<times> bool) option \<Rightarrow> Command \<Rightarrow> SSHDriver \<Rightarrow> 'w
     \<Rightarrow> (ProtocolResponse option \<times> string option) \<times> 'w" where
  "SSH_Execute L ctx req d w =
    (if cmd_Type req \<noteq> CommandTypeCommands then ((None, Some ''unsupported command type''), w)
     else case cmd_Payload req of
       PCommands cmds \<Rightarrow>
        (let c = (case ctx of None \<Rightarrow> sl_timeout L background (sh_timeout d) w
              | Some (c, has_deadline) \<Rightarrow> if has_deadline then c else sl_timeout L c (sh_timeout d) w);
             ((out, err), w1) = SSH_SendCommands L (sh_session d) cmds w
         in case sl_first L c w w1 of
              Some w2 \<Rightarrow> ((None, Some (case c w2 of Some e \<Rightarrow> e | None \<Rightarrow> [])), w2)
            | None \<Rightarrow> ((Some \<lparr>pr_Success = (err = None), pr_RawData = out\<rparr>, err), w1))
     | _ \<Rightarrow> ((None, Some ''invalid commands payload''), w))"

definition SSH_Close :: "'w sshlib \<Rightarrow> SSHDriver \<Rightarrow> 'w \<Rightarrow> string option \<times> 'w" where
  "SSH_Close L d w = sl_close L (sh_session d) w"

definition SSH_GetCapability :: ProtocolCapability where
  "SSH_GetCapability = \<lparr>pc_Protocol = ProtocolSSH, pc_PlatformSupport = [PlatformCiscoIOSXE, PlatformHuaweiVRP],
     pc_CommandTypesSupport = [CommandTypeCommands], pc_ConfigModes = [], pc_MaxConcurrent = 3,
     pc_Timeout = 30 * Second, pc_SupportsAutoComplete = False\<rparr>"

definition ssh_dial_failed :: string where
  "ssh_dial_failed = ''SSH'' @ [CHR 0xE8, CHR 0xBF, CHR 0x9E, CHR 0xE6, CHR 0x8E, CHR 0xA5, CHR 0xE5, CHR 0xA4,
     CHR 0xB1, CHR 0xE8, CHR 0xB4, CHR 0xA5] @ '': ''"

definition ssh_session_failed :: string where
  "ssh_session_failed = [CHR 0xE5, CHR 0x88, CHR 0x9B, CHR 0xE5, CHR 0xBB, CHR 0xBA, CHR 0xE4, CHR 0xBC, CHR 0x9A,
     CHR 0xE8, CHR 0xAF, CHR 0x9D, CHR 0xE5, CHR 0xA4, CHR 0xB1, CHR 0xE8, CHR 0xB4, CHR 0xA5] @ '': ''"

text \<open>The default port is put into a copy that the dial does not use.\<close>

definition SSHFactory_CreateWithContext ::
  "'w sshlib \<Rightarrow> 'w ctx \<Rightarrow> config \<Rightarrow> 'w \<Rightarrow> (string + SSHDriver) \<times> 'w" where
  "SSHFactory_CreateWithContext L ctx cfg w =
    (case ctx w of Some e \<Rightarrow> (Inl e, w)
     | None \<Rightarrow>
        let configCopy = (if Port cfg = 0 then cfg\<lparr>Port := 22\<rparr> else cfg) in
        (case sl_dial L (Host cfg @ '':'' @ Itoa (Port cfg)) (Username cfg) (Password cfg) (ConnectTimeout cfg) w of
           (Inl e, w1) \<Rightarrow> (Inl (ssh_dial_failed @ e), w1)
         | (Inr client, w1) \<Rightarrow> (case sl_session L client w1 of
             (Inl e, w2) \<Rightarrow> (Inl (ssh_session_failed @ e), sl_close_client L client w2)
           | (Inr s, w2) \<Rightarrow> let timeout = (if ReadTimeout cfg = 0 then 30 * Second else ReadTimeout cfg)
               in (Inr (SSH_WithTimeout timeout (NewSSHDriver s)), w2))))"

definition SSHFactory_Create :: "'w sshlib \<Rightarrow> config \<Rightarrow> 'w \<Rightarrow> (string + SSHDriver) \<times> 'w" where
  "SSHFactory_Create L cfg w = SSHFactory_CreateWithContext L background cfg w"

definition SSHFactory_HealthCheck :: "'w sshlib \<Rightarrow> config \<Rightarrow> SSHDriver \<Rightarrow> 'w \<Rightarrow> bool \<times> 'w" where
  "SSHFactory_HealthCheck L cfg d w =
    (let c = sl_timeout L background (check_timeout cfg) w;
         ((_, err), w1) = SSH_Execute L (Some (c, True))
            \<lparr>cmd_Type = CommandTypeCommands, cmd_Payload = PCommands [''show clock'']\<rparr> d w
     in (err = None, w1))"

section \<open>Life of a Scrapli driver\<close>

lemma raw_data_Join: "raw_data rs = Join rs newline"
proof (induction rs)
  case (Cons r rs)
  then show ?case by (cases rs) auto
qed simp

lemmas driver_calls = Scrapli_Execute_def SendConfig_def SendInteractive_def Scrapli_SendCommands_def
  GetPrompt_def Connect_def connect_check_def ensure_channel_def

lemma closed_refuses:
  assumes "sd_closed d"
  shows "Connect L d w = (Some ''driver already closed'', d, w)"
    and "Scrapli_Execute L c req d w = (Inl ''driver already closed'', d, w)"
    and "SendInteractive L es d w = (Inl ''driver already closed'', d, w)"
    and "Scrapli_SendCommands L cs d w = (Inl ''driver already closed'', d, w)"
    and "GetPrompt L d w = (Inl ''driver already closed'', d, w)"
    and "Scrapli_Close L d w = (None, d, w)"
  using assms by (simp_all add: driver_calls Scrapli_Close_def close_mark_def)

lemma close_finish_shape:
  assumes "close_finish L b d w = (r, d1, w1)" "sd_driver d \<noteq> None"
  shows "sd_driver d1 = None \<and> sd_channel d1 = None \<and> sd_closed d1 = sd_closed d"
  using assms by (auto simp: close_finish_def Let_def split: option.splits if_splits prod.splits)

lemma Close_shape:
  assumes "Scrapli_Close L d w = (r, d1, w1)" "\<not> sd_closed d"
  shows "sd_closed d1 \<and> sd_driver d1 = None \<and> sd_channel d1 = None"
proof -
  consider (none) "sd_driver d = None" | (some) h where "sd_driver d = Some h" by (cases "sd_driver d")
  then show ?thesis
  proof cases
    case none
    then show ?thesis using assms by (auto simp: Scrapli_Close_def close_mark_def)
  next
    case some
    obtain b d' where m: "close_mark w d = (Inr b, d')" "sd_driver d' = Some h" "sd_closed d'"
      using some assms(2) by (cases "sd_cancel d") (auto simp: close_mark_def Let_def)
    then have "close_finish L b d' w = (r, d1, w1)" using assms(1) by (simp add: Scrapli_Close_def)
    from close_finish_shape [OF this] m(2,3) show ?thesis by simp
  qed
qed

lemma Close_result:
  assumes "Scrapli_Close L d w = (r, d1, w1)" "\<not> sd_closed d"
  shows "(r, w1) = (case sd_driver d of None \<Rightarrow> (None, w)
     | Some h \<Rightarrow> (close_error (fst (nl_close L h w)), snd (nl_close L h w)))"
  using assms
  by (cases "sd_driver d"; cases "sd_cancel d")
    (auto simp: Scrapli_Close_def close_mark_def close_finish_def Let_def split: prod.splits)

text \<open>C24: Closing a driver that is not closed: the library driver, if there is one, is closed once, its
  error is returned unless it is one of the expected ones (a panic becomes an error); after that
  every command and \<open>Connect\<close> fail without touching driver or network, and closing again does
  nothing.\<close>

theorem closed_driver_final:
  assumes "\<not> sd_closed d" "Scrapli_Close L d w = (r, d1, w1)"
  shows "(r, w1) = (case sd_driver d of None \<Rightarrow> (None, w)
       | Some h \<Rightarrow> (close_error (fst (nl_close L h w)), snd (nl_close L h w)))
    \<and> Connect L d1 w' = (Some ''driver already closed'', d1, w')
    \<and> Scrapli_Execute L c req d1 w' = (Inl ''driver already closed'', d1, w')
    \<and> SendConfig L cfg d1 w' = (Inl ''driver not initialized'', d1, w')
    \<and> SendInteractive L es d1 w' = (Inl ''driver already closed'', d1, w')
    \<and> Scrapli_SendCommands L cs d1 w' = (Inl ''driver already closed'', d1, w')
    \<and> GetPrompt L d1 w' = (Inl ''driver already closed'', d1, w')
    \<and> Scrapli_Close L d1 w' = (None, d1, w')"
proof -
  have d1: "sd_closed d1" "sd_driver d1 = None" using Close_shape [OF assms(2,1)] by simp_all
  then have "SendConfig L cfg d1 w' = (Inl ''driver not initialized'', d1, w')"
    by (simp add: SendConfig_def ensure_channel_def)
  with closed_refuses [OF d1(1)] Close_result [OF assms(2,1)] show ?thesis by blast
qed

text \<open>A library whose world is the set of open handles; new drivers get the next handle.\<close>

definition demo_lib :: "(nat \<times> nat list) netlib" where
  "demo_lib = \<lparr>nl_platform = (\<lambda>_ _ _ _ _ w. (Inr 0, w)), nl_driver = (\<lambda>_ (n, os). (Inr n, (Suc n, os))),
     nl_open = (\<lambda>h (n, os). (None, (n, h # os))), nl_close = (\<lambda>h (n, os). (CloseOk, (n, removeAll h os))),
     nl_commands = (\<lambda>h cs w. (Inr cs, w)), nl_interactive = (\<lambda>h es w. (Inr [], w)),
     nl_prompt = (\<lambda>h w. (Inr ''>'', w)), nl_config = (\<lambda>h c w. (Inr c, w)),
     nl_timeout = (\<lambda>c _ _. c), nl_first = (\<lambda>_ _ _. None)\<rparr>"

definition demo_driver :: "(nat \<times> nat list) ScrapliDriver" where
  "demo_driver = \<lparr>sd_host = ''r1'', sd_username = ''u'', sd_password = ''p'', sd_platform = ''cisco_iosxe'',
     sd_driver = Some 0, sd_channel = None, sd_maxRetries = 3, sd_timeout = 5 * Second,
     sd_ctx = Some background, sd_cancel = True, sd_closed = False\<rparr>"

theorem closed_driver_final_witness:
  "\<exists>d1. Scrapli_Close demo_lib demo_driver (1, []) = (None, d1, (1, []))
     \<and> Connect demo_lib d1 (1, []) = (Some ''driver already closed'', d1, (1, []))"
proof -
  obtain r d1 w1 where c: "Scrapli_Close demo_lib demo_driver (1, []) = (r, d1, w1)"
    by (cases "Scrapli_Close demo_lib demo_driver (1, [])") auto
  have "\<not> sd_closed demo_driver" by (simp add: demo_driver_def)
  from closed_driver_final [OF this c, of "(1, [])"] c show ?thesis
    by (simp add: demo_driver_def demo_lib_def close_error_def)
qed

text \<open>C28: A first open that fails removes the library driver: from then on every command fails without
  trying again, although \<open>Connect\<close> itself would make a new driver.\<close>

theorem open_failure_permanent:
  assumes "\<not> sd_closed d" "sd_driver d = Some h" "sd_channel d = None" "nl_open L h w = (Some e, w1)"
  shows "\<exists>d1. Scrapli_Execute L c req d w
      = (Inl (''connection not established: open existing driver failed: '' @ e), d1, w1)
    \<and> (\<forall>c req w'. Scrapli_Execute L c req d1 w' = (Inl ''driver not properly initialized'', d1, w'))
    \<and> connect_check d1 = None"
proof -
  let ?d1 = "(default_ctx L w d)\<lparr>sd_driver := None, sd_channel := None\<rparr>"
  have k: "sd_driver (default_ctx L w d) = sd_driver d" "sd_closed (default_ctx L w d) = sd_closed d"
    by (auto simp: default_ctx_def split: option.splits)
  have "Scrapli_Execute L c req d w
      = (Inl (''connection not established: open existing driver failed: '' @ e), ?d1, w1)"
    using assms k by (simp add: driver_calls connect_open_def open_driver_def Let_def)
  moreover have "Scrapli_Execute L c req ?d1 w' = (Inl ''driver not properly initialized'', ?d1, w')" for c req w'
    using assms(1) k by (simp add: Scrapli_Execute_def ensure_channel_def)
  moreover have "connect_check ?d1 = None" using assms(1) k by (simp add: connect_check_def)
  ultimately show ?thesis by blast
qed

theorem open_failure_permanent_witness:
  "\<exists>d1. connect_check d1 = None \<and> (\<forall>w'. Scrapli_Execute (demo_lib\<lparr>nl_open := (\<lambda>h w. (Some ''refused'', w))\<rparr>)
     None None d1 w' = (Inl ''driver not properly initialized'', d1, w'))"
proof -
  let ?L = "demo_lib\<lparr>nl_open := (\<lambda>h w. (Some ''refused'', w))\<rparr>"
  have "\<not> sd_closed demo_driver" "sd_driver demo_driver = Some 0" "sd_channel demo_driver = None"
      "nl_open ?L 0 (1, []) = (Some ''refused'', (1, []))"
    by (simp_all add: demo_driver_def)
  from open_failure_permanent [OF this, of None None] show ?thesis by blast
qed



text \<open>A command on a driver that the factory made and nobody used: it is opened once, and when
  the context is alive and the device answers in time, the raw data are the answers, one per
  command, separated by line breaks; the driver is then open for the next command.\<close>

theorem Execute_first_use:
  assumes "ScrapliFactory_CreateWithContext L stringer ctx0 cfg w0 = (Inr d, w)"
    and "sd_driver d = Some h" "nl_open L h w = (None, w1)" "c w1 = None"
    and "nl_commands L h cmds w1 = (Inr rs, w2)"
    and "nl_first L (nl_timeout L c (ConnectTimeout cfg) w1) w1 w2 = None"
  shows "\<exists>d1. Scrapli_Execute L (Some c) (Some \<lparr>cmd_Type = CommandTypeCommands, cmd_Payload = PCommands cmds\<rparr>) d w
      = (Inr (Join rs newline), d1, w2)
    \<and> sd_driver d1 = Some h \<and> sd_channel d1 = Some h \<and> \<not> sd_closed d1"
proof -
  have d: "sd_channel d = None" "\<not> sd_closed d" "sd_timeout d = ConnectTimeout cfg" "sd_ctx d = Some ctx0" "sd_cancel d"
    using assms(1) by (auto simp: ScrapliFactory_CreateWithContext_def split: option.splits sum.splits prod.splits)
  let ?d1 = "d\<lparr>sd_driver := Some h, sd_channel := Some h\<rparr>"
  have "ensure_channel L True ''driver not properly initialized''
      ''channel not available after connection attempt'' d w = (Inr h, ?d1, w1)"
    using assms(2,3) d
    by (simp add: ensure_channel_def Connect_def connect_check_def connect_open_def default_ctx_def open_driver_def)
  then show ?thesis
    using assms(4-6) d by (simp add: Scrapli_Execute_def exec_payload_def await_def raw_data_Join)
qed

theorem Execute_first_use_witness:
  "\<exists>d d1. ScrapliFactory_Create demo_lib (\<lambda>_. None) (NewConfigBuilder\<lparr>Metadata := [''platform'' \<mapsto> VString ''cisco_iosxe'']\<rparr>)
       (7, []) = (Inr d, (8, []))
     \<and> Scrapli_Execute demo_lib (Some background)
         (Some \<lparr>cmd_Type = CommandTypeCommands, cmd_Payload = PCommands [''a'', ''b'']\<rparr>) d (8, [])
       = (Inr (''a'' @ newline @ ''b''), d1, (8, [7]))"
proof -
  let ?cfg = "NewConfigBuilder\<lparr>Metadata := [''platform'' \<mapsto> VString ''cisco_iosxe'']\<rparr>"
  obtain d where d: "ScrapliFactory_CreateWithContext demo_lib (\<lambda>_. None) background ?cfg (7, []) = (Inr d, (8, []))"
      "sd_driver d = Some 7"
    by (simp add: ScrapliFactory_CreateWithContext_def background_def platform_name_def demo_lib_def)
  have "nl_open demo_lib 7 (8, []) = (None, (8, [7]))" "background (8, [7]) = None"
      "nl_commands demo_lib 7 [''a'', ''b''] (8, [7]) = (Inr [''a'', ''b''], (8, [7]))"
      "nl_first demo_lib (nl_timeout demo_lib background (ConnectTimeout ?cfg) (8, [7])) (8, [7]) (8, [7]) = None"
    by (simp_all add: demo_lib_def background_def)
  from Execute_first_use [OF d this] d(1) show ?thesis
    by (auto simp: ScrapliFactory_Create_def)
qed

section \<open>An SSH driver serves one command\<close>

text \<open>
  The documentation of \<open>ssh.Session\<close> says that a session accepts one call of \<open>Run\<close>. \<open>started\<close> is
  that state of the session in the world: running sets it, and a session that has started
  answers \<open>Run\<close> with an error, no output and no other effect.
\<close>

text \<open>So a list of two commands never succeeds, and after one call of \<open>Execute\<close> that ran a
  command, be it a health check, every later one fails.\<close>

theorem ssh_single_use:
  assumes run: "\<And>cmd v. \<not> started v \<Longrightarrow> started (snd (sl_run L (sh_session d) cmd v))"
    and busy: "\<And>cmd v. started v \<Longrightarrow> sl_run L (sh_session d) cmd v = (([], Some e), v)"
    and first: "\<And>c v v'. sl_first L c v v' = None"
  shows "snd (fst (SSH_SendCommands L (sh_session d) (c1 # c2 # cs) w)) \<noteq> None
    \<and> (\<forall>w'. started w' \<longrightarrow> fst (SSHFactory_HealthCheck L cfg d w') = False)
    \<and> started (snd (SSHFactory_HealthCheck L cfg d w))
    \<and> (\<forall>ctx c. snd (fst (SSH_Execute L ctx \<lparr>cmd_Type = CommandTypeCommands, cmd_Payload = PCommands (c # cs)\<rparr> d
         (snd (SSHFactory_HealthCheck L cfg d w)))) = Some (''command execution failed: '' @ e))"
proof -
  let ?s = "sh_session d"
  have bad: "SSH_SendCommands L ?s (cmd # cmds) v = (([], Some (''command execution failed: '' @ e)), v)"
    if "started v" for cmd cmds v using busy [OF that] by simp
  have one: "started (snd (SSH_SendCommands L ?s [c] v))" for c v
    using run [of v c] busy [of v c]
    by (cases "started v") (auto split: prod.splits option.splits)
  have two: "snd (fst (SSH_SendCommands L ?s (c1 # c2 # cs) w)) \<noteq> None"
  proof (cases "sl_run L ?s c1 w")
    case (Pair oe w1)
    then have "started w1" using run [of w c1] busy [of w c1] by (cases "started w") auto
    then show ?thesis using Pair bad [of w1 c2 cs] by (cases oe) (auto split: option.splits)
  qed
  have exec: "SSH_Execute L ctx \<lparr>cmd_Type = CommandTypeCommands, cmd_Payload = PCommands xs\<rparr> d v
      = (let ((out, err), v1) = SSH_SendCommands L ?s xs v
         in ((Some \<lparr>pr_Success = (err = None), pr_RawData = out\<rparr>, err), v1))" for ctx xs v
    by (simp add: SSH_Execute_def first Let_def split: prod.splits)
  have hc: "SSHFactory_HealthCheck L cfg d v = (snd (fst (SSH_SendCommands L ?s [''show clock''] v)) = None,
      snd (SSH_SendCommands L ?s [''show clock''] v))" for v
    by (simp add: SSHFactory_HealthCheck_def exec Let_def split: prod.splits)
  have st: "started (snd (SSHFactory_HealthCheck L cfg d w))" using one by (simp only: hc snd_conv)
  have "fst (SSHFactory_HealthCheck L cfg d w') = False" if "started w'" for w'
    using bad [OF that, of "''show clock''" "[]"] by (simp add: hc del: SSH_SendCommands.simps)
  moreover have "snd (fst (SSH_Execute L ctx \<lparr>cmd_Type = CommandTypeCommands, cmd_Payload = PCommands (c # cs)\<rparr> d
      (snd (SSHFactory_HealthCheck L cfg d w)))) = Some (''command execution failed: '' @ e)" for ctx c
    using bad [OF st, of c cs] by (simp add: exec del: SSH_SendCommands.simps)
  ultimately show ?thesis using two st by blast
qed

definition once_lib :: "bool sshlib" where
  "once_lib = \<lparr>sl_dial = (\<lambda>_ _ _ _ w. (Inr 0, w)), sl_session = (\<lambda>_ w. (Inr 0, w)), sl_close_client = (\<lambda>_ w. w),
     sl_run = (\<lambda>_ c w. if w then (([], Some ''ssh: session already started''), w) else ((c, None), True)),
     sl_close = (\<lambda>_ w. (None, w)), sl_timeout = (\<lambda>c _ _. c), sl_first = (\<lambda>_ _ _. None)\<rparr>"

theorem ssh_single_use_witness:
  "snd (fst (SSH_Execute once_lib None \<lparr>cmd_Type = CommandTypeCommands, cmd_Payload = PCommands [''ping 10.0.0.1'']\<rparr>
     (NewSSHDriver 0) (snd (SSHFactory_HealthCheck once_lib NewConfigBuilder (NewSSHDriver 0) False))))
   = Some (''command execution failed: '' @ ''ssh: session already started'')"
proof -
  have run: "\<And>cmd v. \<not> v \<Longrightarrow> snd (sl_run once_lib (sh_session (NewSSHDriver 0)) cmd v)"
    and busy: "\<And>cmd v. v \<Longrightarrow> sl_run once_lib (sh_session (NewSSHDriver 0)) cmd v
      = (([], Some ''ssh: session already started''), v)"
    and first: "\<And>c v v'. sl_first once_lib c v v' = None"
    by (simp_all add: once_lib_def)
  note spec = ssh_single_use [of "\<lambda>v. v", OF run busy first, of "[]" "[]" "[]" False NewConfigBuilder]
  show ?thesis by (rule spec [THEN conjunct2, THEN conjunct2, THEN conjunct2, rule_format])
qed

text \<open>The default port is not used: a configuration without a port dials port 0. The client that
  was dialled is not kept, so closing the driver leaves it open.\<close>

lemma ssh_default_port_unused:
  "Port cfg = 0 \<Longrightarrow> ctx w = None \<Longrightarrow> sl_dial L (Host cfg @ '':'' @ Itoa 0) (Username cfg) (Password cfg)
     (ConnectTimeout cfg) w = (Inl e, w1) \<Longrightarrow>
   SSHFactory_CreateWithContext L ctx cfg w = (Inl (ssh_dial_failed @ e), w1)"
  by (simp add: SSHFactory_CreateWithContext_def)

end
