(* ===== verification/Pool_Health.thy ===== *)
theory Pool_Health
  imports Drivers Conn_Pool_Ops "HOL-Library.While_Combinator"
begin

text \<open>
  What the pool does around its connections (\<open>connection/pool_enhanced.go\<close>): merging the
  request's context with its own, the health check it runs on the two drivers, one scheduled
  check of a connection from acquiring to releasing it, the quick test before a rebuild, the
  replacement of a connection, the semaphore of the scheduled rebuilds and the wait of the
  graceful shutdown. The theorems put the health check and the SSH driver together.
\<close>

section \<open>Merged contexts\<close>

text \<open>A context by its deadline and the instant at which it ends, if it does.\<close>

record gctx =
  gc_deadline :: "gtime option"
  gc_end :: "gtime option"

fun earliest :: "gtime option \<Rightarrow> gtime option \<Rightarrow> gtime option" where
  "earliest None b = b"
| "earliest a None = a"
| "earliest (Some s) (Some t) = Some (min s t)"

text \<open>\<open>context.WithDeadline\<close>, and the goroutine that cancels the result when the request ends.\<close>

definition WithDeadline :: "gctx \<Rightarrow> gtime \<Rightarrow> gctx" where
  "WithDeadline parent d = \<lparr>gc_deadline = earliest (gc_deadline parent) (Some d), gc_end = earliest (gc_end parent) (Some d)\<rparr>"

definition mergeContext :: "gctx \<Rightarrow> gctx option \<Rightarrow> gctx" where
  "mergeContext pool_ctx requestCtx = (case requestCtx of
     None \<Rightarrow> pool_ctx
   | Some r \<Rightarrow> (case gc_deadline r of
       Some deadline \<Rightarrow> let m = WithDeadline pool_ctx deadline in m\<lparr>gc_end := earliest (gc_end m) (gc_end r)\<rparr>
     | None \<Rightarrow> pool_ctx))"

text \<open>A context with a deadline ends, at the deadline at the latest.\<close>

definition gctx_wf :: "gctx \<Rightarrow> bool" where
  "gctx_wf c \<longleftrightarrow> (case gc_deadline c of None \<Rightarrow> True
     | Some d \<Rightarrow> (case gc_end c of None \<Rightarrow> False | Some e \<Rightarrow> e \<le> d))"

lemma earliest_simps [simp]:
  "earliest a None = a"
  "earliest a a = a"
  "earliest a (earliest a b) = earliest a b"
  by (cases a; cases b; simp)+

lemma earliest_assoc: "earliest (earliest a b) c = earliest a (earliest b c)"
  by (cases a; cases b; cases c) simp_all

section \<open>Health checks\<close>

text \<open>The \<open>Execute\<close> of a driver, under the context of the check; other drivers may be registered.\<close>

type_synonym 'w execute = "'w ctx \<Rightarrow> Command \<Rightarrow> 'w \<Rightarrow> (ProtocolResponse option \<times> string option) \<times> 'w"

datatype 'w pool_driver = ScrapliConn "'w ScrapliDriver" | SSHConn SSHDriver | OtherConn Protocol "'w execute"

definition ssh_execute :: "'w sshlib \<Rightarrow> SSHDriver \<Rightarrow> 'w execute" where
  "ssh_execute S d = (\<lambda>ctx req. SSH_Execute S (Some (ctx, True)) req d)"

definition health_command :: "Platform \<Rightarrow> string option" where
  "health_command p =
    (if p \<in> {PlatformCiscoIOSXE, PlatformCiscoIOSXR, PlatformCiscoNXOS} then Some ''show clock''
     else if p \<in> {PlatformHuaweiVRP, PlatformH3CComware} then Some ''display clock'' else None)"

text \<open>The error, if any; no value at all is the panic on a nil response without an error.\<close>

definition healthCheckSSH :: "'w execute \<Rightarrow> 'w ctx \<Rightarrow> config \<Rightarrow> 'w \<Rightarrow> string option option \<times> 'w" where
  "healthCheckSSH execute ctx cfg w = (case health_command (CfgPlatform cfg) of
     None \<Rightarrow> (Some (Some (''unsupported platform for SSH health check: '' @ CfgPlatform cfg)), w)
   | Some command \<Rightarrow>
      (case execute ctx \<lparr>cmd_Type = CommandTypeCommands, cmd_Payload = PCommands [command]\<rparr> w of
         ((resp, Some e), w1) \<Rightarrow> (Some (Some e), w1)
       | ((Some r, None), w1) \<Rightarrow> (Some (if pr_Success r then None else Some ''health check command failed''), w1)
       | ((None, None), w1) \<Rightarrow> (None, w1)))"

definition defaultHealthCheck ::
  "'w netlib \<Rightarrow> 'w sshlib \<Rightarrow> config \<Rightarrow> 'w pool_driver \<Rightarrow> 'w \<Rightarrow> string option option \<times> 'w pool_driver \<times> 'w" where
  "defaultHealthCheck L S cfg drv w = (case drv of
     ScrapliConn d \<Rightarrow>
      (case GetPromptWithContext L (Some (nl_timeout L background (check_timeout cfg) w)) d w of
         (r, d1, w1) \<Rightarrow> (Some (case r of Inl e \<Rightarrow> Some e | Inr _ \<Rightarrow> None), ScrapliConn d1, w1))
   | SSHConn d \<Rightarrow>
      (case healthCheckSSH (ssh_execute S d) (sl_timeout S background (check_timeout cfg) w) cfg w of
         (r, w1) \<Rightarrow> (r, drv, w1))
   | OtherConn proto execute \<Rightarrow>
      if proto = ProtocolScrapli then (Some (Some ''invalid driver type for Scrapli''), drv, w)
      else if proto = ProtocolSSH then
        (case healthCheckSSH execute (sl_timeout S background (check_timeout cfg) w) cfg w of
           (r, w1) \<Rightarrow> (r, drv, w1))
      else (Some (Some (''unsupported protocol: '' @ proto)), drv, w))"

text \<open>
  One scheduled check of a connection (\<open>performHealthCheckForProtocol\<close> with
  \<open>checkConnectionHealthWithContext\<close>), when the pool offers it this connection: acquire it, test its
  state and age, begin the check, run it (\<open>probe\<close>), record the result and release it. The four
  instants are those of the acquisition, the age test, the record and the release. The counters
  of the collector and the failure event only observe and are left out.
\<close>

type_synonym instants = "gtime \<times> gtime \<times> gtime \<times> gtime"

definition check_release :: "gtime \<Rightarrow> gtime \<Rightarrow> pconn \<Rightarrow> pconn" where
  "check_release t1 t4 c = UpdateConnectionMetrics (time_sub t4 t1) True (release t4 c)"

definition health_round ::
  "('w \<Rightarrow> string option option \<times> 'w) \<Rightarrow> instants \<Rightarrow> pconn \<Rightarrow> 'w \<Rightarrow> (pconn \<times> 'w) option" where
  "health_round probe ts c w = (case ts of (t1, t2, t3, t4) \<Rightarrow>
    (case tryAcquireForTask t1 c of
       (False, c1) \<Rightarrow> Some (c1, w)
     | (True, c1) \<Rightarrow>
        if fst (getStatus c1) \<notin> {StateAcquired, StateIdle} \<or> time_sub t2 (c_createdAt c1) < 15 * Second
          then Some (check_release t1 t4 c1, w)
        else (case beginHealthCheck c1 of
           (False, c2) \<Rightarrow> Some (check_release t1 t4 c2, w)
         | (True, c2) \<Rightarrow> (case probe w of
             (None, w1) \<Rightarrow> None
           | (Some err, w1) \<Rightarrow>
              map_option (\<lambda>c3. (check_release t1 t4 c3, w1)) (recordHealthCheck t3 (err = None) err c2)))))"

fun health_rounds ::
  "('w \<Rightarrow> string option option \<times> 'w) \<Rightarrow> instants list \<Rightarrow> pconn \<Rightarrow> 'w \<Rightarrow> (pconn \<times> 'w) option" where
  "health_rounds probe [] c w = Some (c, w)"
| "health_rounds probe (ts # rest) c w = (case health_round probe ts c w of
     None \<Rightarrow> None | Some (c1, w1) \<Rightarrow> health_rounds probe rest c1 w1)"

section \<open>Rebuilds\<close>

definition canStartRebuild :: "pconn \<Rightarrow> bool" where
  "canStartRebuild c = (if \<not> isIdle c then False else if c_usingCount c > 0 then False else True)"

text \<open>\<open>replaceConnection\<close> on the driver pool, with the instants of the id and of the creation. The
  new driver is the handle of the new object; a field the literal does not set has its zero value.\<close>

definition replaceConnection :: "gtime \<Rightarrow> gtime \<Rightarrow> string \<Rightarrow> dpool \<Rightarrow> bool \<times> dpool" where
  "replaceConnection now created connID p = (case findConnectionByID connID p of
     None \<Rightarrow> (False, p)
   | Some old \<Rightarrow> (let r = length (dp_objects p);
        c = \<lparr>c_driver = Some r, c_id = connection_id (dp_config p) (dp_protocol p) now, c_protocol = dp_protocol p,
          c_createdAt = created, c_lastUsed = 0, c_usageCount = 0, c_state = StateIdle,
          c_rebuilding = False, c_lastRebuiltAt = 0, c_markedForRebuild = 0, c_rebuildReason = [],
          c_healthStatus = HealthStatusHealthy, c_lastHealthCheck = 0, c_consecutiveFailures = 0,
          c_avgResponseTime = 0, c_totalRequests = 0, c_totalErrors = 0, c_usingCount = 0,
          c_config = None, c_labels = c_labels (obj p old)\<rparr>
      in (True, p\<lparr>dp_objects := dp_objects p @ [c],
            dp_connections := AList.update (c_id c) r (AList.delete (c_id (obj p old)) (dp_connections p))\<rparr>)))"

text \<open>The goroutines of \<open>performRebuilds\<close>, one per protocol, behind a channel of \<open>cap\<close> tokens; making a
  channel of negative capacity panics. The rebuild manager is always there, the constructor of
  the pool makes it.\<close>

record rebuild_round =
  rn_waiting :: "Protocol list"
  rn_running :: "Protocol list"
  rn_done :: "Protocol list"

definition performRebuilds :: "config \<Rightarrow> Protocol list \<Rightarrow> rebuild_round option" where
  "performRebuilds cfg protocols =
    (let go = (if SmartRebuildEnabled cfg then protocols else []) in
     if go \<noteq> [] \<and> RebuildConcurrency cfg < 0 then None
     else Some \<lparr>rn_waiting = go, rn_running = [], rn_done = []\<rparr>)"

inductive round_step :: "nat \<Rightarrow> rebuild_round \<Rightarrow> rebuild_round \<Rightarrow> bool" for cap where
  enter: "round_step cap s (s\<lparr>rn_waiting := remove1 q (rn_waiting s), rn_running := q # rn_running s\<rparr>)"
    if "q \<in> set (rn_waiting s)" "length (rn_running s) < cap"
| leave: "round_step cap s (s\<lparr>rn_running := remove1 q (rn_running s), rn_done := q # rn_done s\<rparr>)"
    if "q \<in> set (rn_running s)"

section \<open>Closing a lent driver\<close>

text \<open>\<open>MonitoredDriver.Close\<close> gives the connection back to the pool and leaves its driver open.\<close>

definition MonitoredDriver_Close :: "gtime \<Rightarrow> gtime \<Rightarrow> bool \<Rightarrow> nat \<Rightarrow> dpool \<Rightarrow> string option \<times> dpool" where
  "MonitoredDriver_Close now startTime success r p = (None, Release now startTime success r p)"

section \<open>Shutting down\<close>

text \<open>The polls of \<open>ShutdownGraceful\<close>: the number of active connections and the clock at the \<open>k\<close>-th
  test of the loop; the result is the number of sleeps.\<close>

definition ShutdownGraceful_wait :: "(nat \<Rightarrow> nat \<times> gtime) \<Rightarrow> gtime \<Rightarrow> nat option" where
  "ShutdownGraceful_wait polls deadline =
     while_option (\<lambda>k. fst (polls k) > 0 \<and> snd (polls k) < deadline) Suc 0"

definition ShutdownGraceful :: "(nat \<Rightarrow> nat \<times> gtime) \<Rightarrow> gtime \<Rightarrow> duration \<Rightarrow> nat option" where
  "ShutdownGraceful polls start timeout =
     (if timeout > 0 then ShutdownGraceful_wait polls (start + timeout) else Some 0)"

section \<open>Properties of contexts, replacements and waits\<close>

text \<open>When the request's context has a deadline, the merged context ends exactly when the first of the
  two ends. Without a deadline the request's context is ignored: cancelling it changes nothing.\<close>

theorem mergeContext_end:
  assumes "gctx_wf r"
  shows "gc_end (mergeContext p (Some r))
    = (if gc_deadline r = None then gc_end p else earliest (gc_end p) (gc_end r))"
proof (cases "gc_deadline r")
  case (Some d)
  then obtain e where "gc_end r = Some e" "e \<le> d" using assms by (auto simp: gctx_wf_def split: option.splits)
  with Some show ?thesis
    by (simp add: mergeContext_def WithDeadline_def earliest_assoc min.absorb2)
qed (simp add: mergeContext_def)

theorem mergeContext_end_witness:
  "gc_end (mergeContext \<lparr>gc_deadline = None, gc_end = None\<rparr> (Some \<lparr>gc_deadline = None, gc_end = Some 5\<rparr>)) = None
   \<and> gc_end (mergeContext \<lparr>gc_deadline = None, gc_end = None\<rparr> (Some \<lparr>gc_deadline = Some 9, gc_end = Some 5\<rparr>)) = Some 5"
  using mergeContext_end [of "\<lparr>gc_deadline = None, gc_end = Some 5\<rparr>" "\<lparr>gc_deadline = None, gc_end = None\<rparr>"]
    mergeContext_end [of "\<lparr>gc_deadline = Some 9, gc_end = Some 5\<rparr>" "\<lparr>gc_deadline = None, gc_end = None\<rparr>"]
  by (simp add: gctx_wf_def)

text \<open>A replaced connection: the map loses the old object and gains the new one, the driver of the old
  one is not closed, and the new one has no configuration, so that its first failing health check
  is a nil dereference.\<close>

lemma replaceConnection_spec:
  assumes "findConnectionByID connID p = Some old" "replaceConnection now created connID p = (ok, p')"
  shows "ok \<and> dp_closed p' = dp_closed p \<and> dp_stats p' = dp_stats p
    \<and> (let r = length (dp_objects p) in map_of (dp_connections p') (c_id (obj p' r)) = Some r
        \<and> recordHealthCheck t False e (obj p' r) = None)"
  using assms
  by (auto simp: replaceConnection_def Let_def update_conv recordHealthCheck_nil_config nth_append)

text \<open>The wait of a graceful shutdown ends: when every sleep takes its 100 ms, after at most as many
  sleeps as fit into the timeout and one more; then no connection is active or the time is up.\<close>

theorem ShutdownGraceful_ends:
  assumes "\<And>k. snd (polls (Suc k)) \<ge> snd (polls k) + 100 * Millisecond" "snd (polls 0) \<ge> start" "timeout > 0"
  shows "\<exists>k. ShutdownGraceful polls start timeout = Some k \<and> (fst (polls k) = 0 \<or> snd (polls k) \<ge> start + timeout)
    \<and> int k * (100 * Millisecond) < timeout + 100 * Millisecond"
proof -
  let ?b = "\<lambda>k. fst (polls k) > 0 \<and> snd (polls k) < start + timeout"
  have clock: "snd (polls k) \<ge> start + int k * (100 * Millisecond)" for k
  proof (induction k)
    case (Suc k)
    then show ?case using assms(1) [of k] by (simp add: algebra_simps)
  qed (use assms(2) in simp)
  have m: "(0::int) < 100 * Millisecond" by simp
  have "\<exists>k. while_option ?b Suc 0 = Some k"
  proof (rule measure_while_option_Some [of "\<lambda>_. True" _ _ "\<lambda>k. nat (start + timeout - snd (polls k))"])
    fix k
    assume "?b k"
    then show "True \<and> nat (start + timeout - snd (polls (Suc k))) < nat (start + timeout - snd (polls k))"
      using assms(1) [of k] m by auto
  qed simp
  then obtain k where k: "while_option ?b Suc 0 = Some k" by blast
  have "\<not> ?b k" using while_option_stop [OF k] .
  moreover have "int k * (100 * Millisecond) < timeout + 100 * Millisecond"
  proof (rule while_option_rule [OF _ k])
    fix j
    assume "?b j" and "int j * (100 * Millisecond) < timeout + 100 * Millisecond"
    then show "int (Suc j) * (100 * Millisecond) < timeout + 100 * Millisecond"
      using clock [of j] by (simp add: algebra_simps)
  qed (use assms(3) m in simp)
  ultimately show ?thesis using k assms(3) by (auto simp: ShutdownGraceful_def ShutdownGraceful_wait_def)
qed

theorem ShutdownGraceful_ends_witness:
  "\<exists>k. ShutdownGraceful (\<lambda>k. (1, int k * (100 * Millisecond))) 0 (30 * Second) = Some k"
proof -
  let ?p = "\<lambda>k. (1::nat, int k * (100 * Millisecond))"
  have "\<And>k. snd (?p (Suc k)) \<ge> snd (?p k) + 100 * Millisecond" "snd (?p 0) \<ge> 0" "30 * Second > 0"
    by (simp_all add: algebra_simps)
  from ShutdownGraceful_ends [of ?p, OF this] show ?thesis by blast
qed

text \<open>A client that closes its driver and then releases it, as it would any resource, is counted twice.\<close>

lemma close_and_release_counted_twice:
  "dp_closed (snd (MonitoredDriver_Close now st ok r p)) = dp_closed p
   \<and> st_ActiveConnections (dp_stats (Release now st ok r (snd (MonitoredDriver_Close now st ok r p))))
      = st_ActiveConnections (dp_stats p) - 2"
  by (simp add: MonitoredDriver_Close_def Release_def count_active_def upd_obj_def)

section \<open>The rounds of scheduled rebuilds\<close>

definition round_protocols :: "rebuild_round \<Rightarrow> Protocol multiset" where
  "round_protocols s = mset (rn_waiting s) + mset (rn_running s) + mset (rn_done s)"

lemma round_step_keeps:
  "round_step cap s s' \<Longrightarrow> round_protocols s' = round_protocols s
     \<and> (length (rn_running s) \<le> cap \<longrightarrow> length (rn_running s') \<le> cap)"
proof (induction rule: round_step.induct)
  case (leave q s)
  then have "length (remove1 q (rn_running s)) \<le> length (rn_running s)" by (simp add: length_remove1)
  with leave show ?case by (auto simp: round_protocols_def)
qed (auto simp: round_protocols_def)

lemma round_steps_keep:
  "(round_step cap)\<^sup>*\<^sup>* s s' \<Longrightarrow> length (rn_running s) \<le> cap \<Longrightarrow>
     round_protocols s' = round_protocols s \<and> length (rn_running s') \<le> cap"
  by (induction rule: rtranclp_induct) (auto dest: round_step_keeps)

text \<open>A scheduled round of rebuilds never works on more protocols at once than configured, and it can
  always go on until every protocol is done, if the configuration is valid; with a concurrency of
  zero no goroutine ever starts and none ever ends.\<close>

theorem performRebuilds_rounds:
  assumes "performRebuilds cfg protocols = Some s" "(round_step (nat (RebuildConcurrency cfg)))\<^sup>*\<^sup>* s s'"
    "SmartRebuildEnabled cfg"
  shows "length (rn_running s') \<le> nat (RebuildConcurrency cfg)
    \<and> (if RebuildConcurrency cfg > 0
       then (\<exists>s''. round_step (nat (RebuildConcurrency cfg)) s' s'') \<or> mset (rn_done s') = mset protocols
       else s' = s \<and> rn_waiting s = protocols)"
proof -
  let ?cap = "nat (RebuildConcurrency cfg)"
  have s: "s = \<lparr>rn_waiting = protocols, rn_running = [], rn_done = []\<rparr>"
    using assms(1,3) by (auto simp: performRebuilds_def Let_def split: if_splits)
  then have k: "round_protocols s' = mset protocols" "length (rn_running s') \<le> ?cap"
    using round_steps_keep [OF assms(2)] by (simp_all add: round_protocols_def)
  have "(\<exists>s''. round_step ?cap s' s'') \<or> mset (rn_done s') = mset protocols" if "RebuildConcurrency cfg > 0"
  proof (cases "rn_running s'")
    case Nil
    show ?thesis
    proof (cases "rn_waiting s'")
      case Nil
      then show ?thesis using k(1) \<open>rn_running s' = []\<close> by (simp add: round_protocols_def)
    next
      case (Cons q qs)
      then show ?thesis using round_step.enter [of q s' ?cap] \<open>rn_running s' = []\<close> that by auto
    qed
  next
    case (Cons q qs)
    then show ?thesis using round_step.leave [of q s' ?cap] by auto
  qed
  moreover have "s' = s" if "\<not> RebuildConcurrency cfg > 0"
    using assms(2) that
  proof (induction rule: rtranclp_induct)
    case (step y z)
    then show ?case using s by (auto elim!: round_step.cases)
  qed simp
  ultimately show ?thesis using k(2) s by simp
qed

theorem performRebuilds_rounds_witness:
  "let s = \<lparr>rn_waiting = [''ssh''], rn_running = [], rn_done = []\<rparr> in
   performRebuilds (NewConfigBuilder\<lparr>SmartRebuildEnabled := True, RebuildConcurrency := 0\<rparr>) [''ssh''] = Some s
   \<and> length (rn_running s) \<le> 0"
proof -
  let ?cfg = "NewConfigBuilder\<lparr>SmartRebuildEnabled := True, RebuildConcurrency := 0\<rparr>"
  let ?s = "\<lparr>rn_waiting = [''ssh''], rn_running = [], rn_done = []\<rparr>"
  have "performRebuilds ?cfg [''ssh''] = Some ?s" by (simp add: performRebuilds_def)
  from performRebuilds_rounds [OF this rtranclp.rtrancl_refl] this show ?thesis by simp
qed

section \<open>Health checks of an SSH connection\<close>

text \<open>A connection that the scheduled check would take, with \<open>n\<close> failures counted.\<close>

definition checkable :: "config \<Rightarrow> gtime \<Rightarrow> int \<Rightarrow> pconn \<Rightarrow> bool" where
  "checkable cfg created n c \<longleftrightarrow> c_state c = StateIdle \<and> c_usingCount c \<le> 0 \<and> \<not> c_rebuilding c
     \<and> c_config c = Some cfg \<and> c_createdAt c = created \<and> c_consecutiveFailures c = n
     \<and> c_markedForRebuild c \<in> {0, 1}"

lemma recordFailure_keeps [simp]:
  "c_usingCount (recordFailure cfg c) = c_usingCount c"
  "c_rebuilding (recordFailure cfg c) = c_rebuilding c"
  "c_createdAt (recordFailure cfg c) = c_createdAt c"
  by (simp_all add: conn_simps Let_def)

lemma recordFailure_mark: "c_markedForRebuild c \<in> {0, 1} \<Longrightarrow> c_markedForRebuild (recordFailure cfg c) \<in> {0, 1}"
  by (auto simp: conn_simps Let_def)

lemma check_release_fields [simp]:
  "c_state c = StateAcquired \<Longrightarrow> c_state (check_release t1 t4 c) = StateIdle"
  "c_usingCount (check_release t1 t4 c) = c_usingCount c" "c_rebuilding (check_release t1 t4 c) = c_rebuilding c"
  "c_config (check_release t1 t4 c) = c_config c" "c_createdAt (check_release t1 t4 c) = c_createdAt c"
  "c_consecutiveFailures (check_release t1 t4 c) = c_consecutiveFailures c"
  "c_markedForRebuild (check_release t1 t4 c) = c_markedForRebuild c"
  "c_healthStatus (check_release t1 t4 c) = c_healthStatus c"
  by (auto simp: check_release_def UpdateConnectionMetrics_def Let_def conn_simps canTransitionTo_def)

lemma failing_round:
  assumes "checkable cfg created n c" "c_healthStatus c \<noteq> HealthStatusUnhealthy"
    "time_sub t2 created \<ge> 15 * Second" "probe w = (Some (Some e), w1)"
  shows "\<exists>c'. health_round probe (t1, t2, t3, t4) c w = Some (c', w1) \<and> checkable cfg created (n + 1) c'
    \<and> (c_healthStatus c' = HealthStatusUnhealthy \<longleftrightarrow> n + 1 \<ge> UnhealthyFailureThreshold cfg)
    \<and> (n + 1 \<ge> UnhealthyFailureThreshold cfg \<and> HealthCheckTriggerRebuild cfg \<longrightarrow> isMarkedForRebuild c')"
proof -
  let ?a = "c\<lparr>c_state := StateChecking, c_lastUsed := t1, c_usageCount := c_usageCount c + 1\<rparr>"
  let ?f = "recordFailure cfg (?a\<lparr>c_lastHealthCheck := t3, c_consecutiveFailures := n + 1\<rparr>)"
  let ?c = "check_release t1 t4 (after_check ?f)"
  have c: "c_state c = StateIdle" "c_usingCount c \<le> 0" "\<not> c_rebuilding c" "c_config c = Some cfg"
      "c_createdAt c = created" "c_consecutiveFailures c = n" "c_markedForRebuild c \<in> {0, 1}"
    using assms(1) by (simp_all add: checkable_def)
  have "tryAcquireForTask t1 c = (True, c\<lparr>c_state := StateAcquired, c_lastUsed := t1, c_usageCount := c_usageCount c + 1\<rparr>)"
    using c(1-3) assms(2) by (simp add: conn_simps canTransitionTo_def)
  moreover have "beginHealthCheck (c\<lparr>c_state := StateAcquired, c_lastUsed := t1, c_usageCount := c_usageCount c + 1\<rparr>) = (True, ?a)"
    by (simp add: conn_simps canTransitionTo_def)
  moreover have "recordHealthCheck t3 False (Some e) ?a = Some (after_check ?f)"
    using c(4,6) by (simp add: recordHealthCheck_failure)
  ultimately have r: "health_round probe (t1, t2, t3, t4) c w = Some (?c, w1)"
    using assms(3,4) c(5) by (simp add: health_round_def getStatus_def)
  have st: "c_state (after_check ?f) = StateAcquired" by (simp add: after_check_def)
  have m: "c_markedForRebuild ?f \<in> {0, 1}" by (rule recordFailure_mark) (use c(7) in simp)
  have k: "c_usingCount (after_check d) = c_usingCount d" "c_rebuilding (after_check d) = c_rebuilding d"
      "c_createdAt (after_check d) = c_createdAt d" "c_markedForRebuild (after_check d) = c_markedForRebuild d" for d
    by (simp_all add: after_check_def)
  have "checkable cfg created (n + 1) ?c" using c st m by (simp add: checkable_def k)
  moreover have "c_healthStatus ?c = HealthStatusUnhealthy \<longleftrightarrow> n + 1 \<ge> UnhealthyFailureThreshold cfg" by simp
  moreover have "isMarkedForRebuild ?c" if "n + 1 \<ge> UnhealthyFailureThreshold cfg" "HealthCheckTriggerRebuild cfg"
    using that c(7) by (auto simp: isMarkedForRebuild_def k recordFailure_def setHealthLocked_def
        markForRebuildWithReasonLocked_def Let_def)
  ultimately show ?thesis using r by blast
qed

lemma failing_rounds:
  assumes "\<And>v. good v \<Longrightarrow> \<exists>e. probe v = (Some (Some e), v)" "good w"
    and "checkable cfg created n c" "c_healthStatus c \<noteq> HealthStatusUnhealthy"
    and "\<And>t1 t2 t3 t4. (t1, t2, t3, t4) \<in> set ts \<Longrightarrow> time_sub t2 created \<ge> 15 * Second"
    and "n + int (length ts) = UnhealthyFailureThreshold cfg" "ts \<noteq> []"
  shows "\<exists>c'. health_rounds probe ts c w = Some (c', w) \<and> c_healthStatus c' = HealthStatusUnhealthy
    \<and> (HealthCheckTriggerRebuild cfg \<longrightarrow> isMarkedForRebuild c')"
  using assms(3-7)
proof (induction ts arbitrary: n c)
  case (Cons x ts)
  obtain t1 t2 t3 t4 where x: "x = (t1, t2, t3, t4)" by (cases x) auto
  obtain e where e: "probe w = (Some (Some e), w)" using assms(1) [OF assms(2)] by blast
  have age: "time_sub t2 created \<ge> 15 * Second" using Cons.prems(3) [of t1 t2 t3 t4] x by simp
  from failing_round [where probe = probe and w = w, OF Cons.prems(1,2) age e, of t1 t3 t4]
  obtain c' where c': "health_round probe x c w = Some (c', w)" "checkable cfg created (n + 1) c'"
      "c_healthStatus c' = HealthStatusUnhealthy \<longleftrightarrow> n + 1 \<ge> UnhealthyFailureThreshold cfg"
      "n + 1 \<ge> UnhealthyFailureThreshold cfg \<and> HealthCheckTriggerRebuild cfg \<longrightarrow> isMarkedForRebuild c'"
    unfolding x by blast
  show ?case
  proof (cases "ts = []")
    case True
    then show ?thesis using c' Cons.prems(4) by simp
  next
    case False
    have h: "c_healthStatus c' \<noteq> HealthStatusUnhealthy" using c'(3) Cons.prems(4) False by (cases ts) auto
    have "\<exists>d. health_rounds probe ts c' w = Some (d, w) \<and> c_healthStatus d = HealthStatusUnhealthy
        \<and> (HealthCheckTriggerRebuild cfg \<longrightarrow> isMarkedForRebuild d)"
      by (rule Cons.IH [OF c'(2) h]) (use Cons.prems(3,4) False in auto)
    then show ?thesis using c'(1) by simp
  qed
qed simp

lemma ssh_check_fails:
  assumes "\<And>cmd. sl_run S (sh_session d) cmd w = (([], Some e), w)" "\<And>c v v'. sl_first S c v v' = None"
  shows "\<exists>e'. fst (defaultHealthCheck L S cfg (SSHConn d) w) = Some (Some e')
    \<and> snd (snd (defaultHealthCheck L S cfg (SSHConn d) w)) = w"
  using assms
  by (auto simp: defaultHealthCheck_def healthCheckSSH_def ssh_execute_def SSH_Execute_def split: option.split)

text \<open>C16: An SSH connection wears out: once its session has run one command, each scheduled health check
  fails, and after as many checks as the threshold allows the connection is unhealthy, marked for
  a rebuild when the configuration says so, and no task gets it any more, although the device
  answers. \<open>started\<close> is the state of the session in which \<open>Run\<close> returns an error.\<close>

theorem ssh_connection_wears_out:
  assumes busy: "\<And>cmd v. started v \<Longrightarrow> sl_run S (sh_session d) cmd v = (([], Some e), v)"
    and first: "\<And>c v v'. sl_first S c v v' = None"
    and c: "checkable cfg created 0 c" "c_healthStatus c \<noteq> HealthStatusUnhealthy" "started w"
    and ts: "\<And>t1 t2 t3 t4. (t1, t2, t3, t4) \<in> set ts \<Longrightarrow> time_sub t2 created \<ge> 15 * Second"
    "int (length ts) = UnhealthyFailureThreshold cfg" "ts \<noteq> []"
  shows "\<exists>c'. health_rounds (\<lambda>v. let (r, _, v') = defaultHealthCheck L S cfg (SSHConn d) v in (r, v')) ts c w = Some (c', w)
    \<and> c_healthStatus c' = HealthStatusUnhealthy \<and> (HealthCheckTriggerRebuild cfg \<longrightarrow> isMarkedForRebuild c')
    \<and> (\<forall>t. \<not> fst (tryAcquireForTask t c'))"
proof -
  let ?probe = "\<lambda>v. let (r, _, v') = defaultHealthCheck L S cfg (SSHConn d) v in (r, v')"
  have fails: "\<exists>e'. ?probe v = (Some (Some e'), v)" if "started v" for v
    using ssh_check_fails [of S d v e L cfg, OF busy [OF that] first] by (auto simp: split_beta)
  have "\<exists>c'. health_rounds ?probe ts c w = Some (c', w) \<and> c_healthStatus c' = HealthStatusUnhealthy
      \<and> (HealthCheckTriggerRebuild cfg \<longrightarrow> isMarkedForRebuild c')"
    by (rule failing_rounds [of started, OF fails c(3,1,2) ts(1)]) (use ts(2,3) in simp_all)
  moreover have "\<not> fst (tryAcquireForTask t c')" if "c_healthStatus c' = HealthStatusUnhealthy" for t c'
    using that by (simp add: tryAcquireForTask_def)
  ultimately show ?thesis by blast
qed

theorem ssh_connection_wears_out_witness:
  "\<forall>L. \<exists>c'. health_rounds
      (\<lambda>v. let (r, _, v') = defaultHealthCheck L once_lib NewConfigBuilder (SSHConn (NewSSHDriver 0)) v in (r, v'))
      (replicate 3 (0, 1 + 15 * Second, 0, 0)) sample_conn True = Some (c', True)
    \<and> c_healthStatus c' = HealthStatusUnhealthy"
proof
  fix L :: "bool netlib"
  let ?ts = "replicate 3 (0::int, 1 + 15 * Second, 0::int, 0::int)"
  have busy: "\<And>cmd v. v \<Longrightarrow> sl_run once_lib (sh_session (NewSSHDriver 0)) cmd v
      = (([], Some ''ssh: session already started''), v)"
    and first: "\<And>c v v'. sl_first once_lib c v v' = None"
    by (simp_all add: once_lib_def)
  have c: "checkable NewConfigBuilder 1 0 sample_conn" "c_healthStatus sample_conn \<noteq> HealthStatusUnhealthy"
    by (simp_all add: checkable_def sample_conn_def)
  have ts: "\<And>t1 t2 t3 t4. (t1, t2, t3, t4) \<in> set ?ts \<Longrightarrow> time_sub t2 1 \<ge> 15 * Second"
      "int (length ?ts) = UnhealthyFailureThreshold NewConfigBuilder" "?ts \<noteq> []"
    by (auto simp: time_sub_def NewConfigBuilder_def)
  have "\<exists>c'. health_rounds
      (\<lambda>v. let (r, _, v') = defaultHealthCheck L once_lib NewConfigBuilder (SSHConn (NewSSHDriver 0)) v in (r, v'))
      ?ts sample_conn True = Some (c', True) \<and> c_healthStatus c' = HealthStatusUnhealthy
      \<and> (HealthCheckTriggerRebuild NewConfigBuilder \<longrightarrow> isMarkedForRebuild c') \<and> (\<forall>t. \<not> fst (tryAcquireForTask t c'))"
    by (rule ssh_connection_wears_out [where started = "\<lambda>v. v" and ts = ?ts, OF _ first c TrueI _ ts(2,3)])
      (erule busy, erule ts(1))
  then show "\<exists>c'. health_rounds
      (\<lambda>v. let (r, _, v') = defaultHealthCheck L once_lib NewConfigBuilder (SSHConn (NewSSHDriver 0)) v in (r, v'))
      ?ts sample_conn True = Some (c', True) \<and> c_healthStatus c' = HealthStatusUnhealthy"
    by blast
qed

end
