(* ===== verification/Rebuild_Batch.thy ===== *)
theory Rebuild_Batch
  imports Rebuild_Manager
begin

text \<open>
  Batch rebuilds of \<open>connection/pool_enhanced.go\<close>: \<open>RebuildConnectionByProto\<close> sends the marked
  connections in batches into a channel, from which up to \<open>RebuildConcurrency\<close> workers take them;
  the results come back over a second channel and are counted at the end. The dispatcher, the
  workers and the end of the context interleave; a step is one channel operation, one look at
  the context or one rebuild. What a rebuild of one connection returns (\<open>RebuildConnectionByID\<close>)
  is decided by the environment of the batch. Around it: the per-connection call, its
  asynchronous form, and the sum over all protocols.
\<close>

section \<open>Results\<close>

text \<open>Times and durations of a result are left out. \<open>utf8\<close> texts of the code are given by their bytes.\<close>

record RebuildResult =
  rr_Protocol :: string
  rr_Success :: bool
  rr_OldConnID :: string
  rr_NewConnID :: string
  rr_Reason :: string
  rr_Error :: string

datatype RebuildErrorCode = RebuildErrorCodeNotFound | RebuildErrorCodeInvalidState
  | RebuildErrorCodeCreateFailed | RebuildErrorCodeReplaceFailed | RebuildErrorCodeTimeout
  | RebuildErrorCodeCancelled | RebuildErrorCodePoolClosed

fun error_number :: "RebuildErrorCode \<Rightarrow> int" where
  "error_number RebuildErrorCodeNotFound = 1"
| "error_number RebuildErrorCodeInvalidState = 2"
| "error_number RebuildErrorCodeCreateFailed = 3"
| "error_number RebuildErrorCodeReplaceFailed = 4"
| "error_number RebuildErrorCodeTimeout = 5"
| "error_number RebuildErrorCodeCancelled = 6"
| "error_number RebuildErrorCodePoolClosed = 7"

record RebuildError =
  re_Code :: RebuildErrorCode
  re_Message :: string
  re_Retryable :: bool
  re_OriginalError :: "string option"

definition utf8_conn :: string where
  "utf8_conn = [CHR 0xE8, CHR 0xBF, CHR 0x9E, CHR 0xE6, CHR 0x8E, CHR 0xA5]"

definition utf8_rebuild_failed :: string where
  "utf8_rebuild_failed = [CHR 0xE9, CHR 0x87, CHR 0x8D, CHR 0xE5, CHR 0xBB, CHR 0xBA, CHR 0xE5, CHR 0xA4, CHR 0xB1,
     CHR 0xE8, CHR 0xB4, CHR 0xA5]"

definition utf8_rebuild_error :: string where
  "utf8_rebuild_error = [CHR 0xE9, CHR 0x87, CHR 0x8D, CHR 0xE5, CHR 0xBB, CHR 0xBA, CHR 0xE9, CHR 0x94, CHR 0x99,
     CHR 0xE8, CHR 0xAF, CHR 0xAF]"

definition utf8_missing :: string where
  "utf8_missing = utf8_conn @ [CHR 0xE4, CHR 0xB8, CHR 0x8D, CHR 0xE5, CHR 0xAD, CHR 0x98, CHR 0xE5, CHR 0x9C, CHR 0xA8]"

definition utf8_all :: string where
  "utf8_all = [CHR 0xE6, CHR 0x89, CHR 0x80, CHR 0xE6, CHR 0x9C, CHR 0x89] @ utf8_conn @ utf8_rebuild_failed"

definition utf8_some :: string where
  "utf8_some = [CHR 0xE9, CHR 0x83, CHR 0xA8, CHR 0xE5, CHR 0x88, CHR 0x86] @ utf8_conn @ utf8_rebuild_failed"

definition utf8_protocol :: string where
  "utf8_protocol = [CHR 0xE5, CHR 0x8D, CHR 0x8F, CHR 0xE8, CHR 0xAE, CHR 0xAE]"

definition utf8_no_protocol :: string where
  "utf8_no_protocol = [CHR 0xE5, CHR 0x8D, CHR 0x8F, CHR 0xE8, CHR 0xAE, CHR 0xAE, CHR 0xE7, CHR 0xB1, CHR 0xBB, CHR 0xE5,
     CHR 0x9E, CHR 0x8B, CHR 0xE4, CHR 0xB8, CHR 0x8D, CHR 0xE8, CHR 0x83, CHR 0xBD, CHR 0xE4, CHR 0xB8,
     CHR 0xBA, CHR 0xE7, CHR 0xA9, CHR 0xBA]"

definition utf8_bad_protocol :: string where
  "utf8_bad_protocol = [CHR 0xE4, CHR 0xB8, CHR 0x8D, CHR 0xE6, CHR 0x94, CHR 0xAF, CHR 0xE6, CHR 0x8C, CHR 0x81, CHR 0xE7,
     CHR 0x9A, CHR 0x84, CHR 0xE5, CHR 0x8D, CHR 0x8F, CHR 0xE8, CHR 0xAE, CHR 0xAE, CHR 0xE7, CHR 0xB1,
     CHR 0xBB, CHR 0xE5, CHR 0x9E, CHR 0x8B]"

definition RebuildError_Error :: "RebuildError \<Rightarrow> string" where
  "RebuildError_Error e = utf8_rebuild_error @ ''['' @ Itoa (error_number (re_Code e)) @ '']: '' @ re_Message e"

section \<open>One connection\<close>

text \<open>\<open>rebuildConnection\<close>: the events of the rebuild manager around the core rebuild, whose outcome is
  given; the pool's own event for a failure only reports it once more.\<close>

definition rebuildConnection ::
  "pconn \<Rightarrow> (string + string) \<Rightarrow> (string + string) \<times> rebuild_event list" where
  "rebuildConnection c core = (let start = RebuildStarted (c_protocol c) (c_id c) in case core of
     Inl err \<Rightarrow> (Inl (utf8_conn @ utf8_rebuild_failed @ '': '' @ err),
       [start, RebuildCompleted (c_protocol c) (c_id c) False])
   | Inr newID \<Rightarrow> (Inr newID, [start, RebuildCompleted (c_protocol c) (c_id c) True]))"

definition RebuildConnectionByID ::
  "string \<Rightarrow> pconn option \<Rightarrow> (string + string) \<Rightarrow> (RebuildError + RebuildResult) \<times> rebuild_event list" where
  "RebuildConnectionByID connID conn core = (case conn of
     None \<Rightarrow> (Inl \<lparr>re_Code = RebuildErrorCodeNotFound, re_Message = utf8_missing @ '': '' @ connID,
       re_Retryable = False, re_OriginalError = None\<rparr>, [])
   | Some c \<Rightarrow> let reason = (if c_rebuildReason c = [] then ''manual_rebuild'' else c_rebuildReason c) in
      (case rebuildConnection c core of
         (Inl err, evs) \<Rightarrow> (Inl \<lparr>re_Code = RebuildErrorCodeInvalidState,
            re_Message = utf8_conn @ utf8_rebuild_failed @ '': '' @ connID,
            re_Retryable = True, re_OriginalError = Some err\<rparr>, evs)
       | (Inr newID, evs) \<Rightarrow> (Inr \<lparr>rr_Protocol = c_protocol c, rr_Success = True, rr_OldConnID = connID,
            rr_NewConnID = newID, rr_Reason = reason, rr_Error = []\<rparr>, evs)))"

text \<open>The asynchronous form: what arrives on the channel before it is closed; \<open>None\<close> is the error
  for an empty id. A panic of the call closes the channel without a value.\<close>

definition RebuildConnectionByIDAsync ::
  "string \<Rightarrow> (RebuildError + RebuildResult) option \<Rightarrow> RebuildResult list option" where
  "RebuildConnectionByIDAsync connID call = (if connID = [] then None else Some (case call of
     None \<Rightarrow> []
   | Some (Inr r) \<Rightarrow> [r]
   | Some (Inl e) \<Rightarrow> [\<lparr>rr_Protocol = [], rr_Success = False, rr_OldConnID = connID, rr_NewConnID = [],
        rr_Reason = ''async_rebuild_failed'', rr_Error = RebuildError_Error e\<rparr>]))"

section \<open>The worker pool\<close>

datatype dispatcher = Sending nat "string list" | Pausing "string list" | Dispatched

datatype batch_worker = Idle | Taken string | Rebuilding string | Exited

record batch =
  b_dispatcher :: dispatcher
  b_tasks :: "string list"
  b_workers :: "batch_worker list"
  b_results :: "RebuildResult list"
  b_cancelled :: bool

definition worker_count :: "config \<Rightarrow> string list \<Rightarrow> nat" where
  "worker_count cfg conns =
     min (length conns) (nat (if RebuildConcurrency cfg \<le> 0 then 3 else RebuildConcurrency cfg))"

definition batch_size :: "config \<Rightarrow> nat" where
  "batch_size cfg = nat (if RebuildBatchSize cfg \<le> 0 then 5 else RebuildBatchSize cfg)"

definition batch_start :: "config \<Rightarrow> string list \<Rightarrow> bool \<Rightarrow> batch" where
  "batch_start cfg conns cancelled = \<lparr>b_dispatcher = Sending (batch_size cfg) conns, b_tasks = [],
     b_workers = replicate (worker_count cfg conns) Idle, b_results = [], b_cancelled = cancelled\<rparr>"

text \<open>The result of a worker for one connection, from the connection's rebuild reason and what
  \<open>RebuildConnectionByID\<close> returned.\<close>

definition worker_result :: "Protocol \<Rightarrow> string \<Rightarrow> string \<Rightarrow> (RebuildError + RebuildResult) \<Rightarrow> RebuildResult" where
  "worker_result proto connID reason call = (case call of
     Inl e \<Rightarrow> \<lparr>rr_Protocol = proto, rr_Success = False, rr_OldConnID = connID, rr_NewConnID = [],
        rr_Reason = reason, rr_Error = RebuildError_Error e\<rparr>
   | Inr r \<Rightarrow> \<lparr>rr_Protocol = proto, rr_Success = rr_Success r, rr_OldConnID = connID,
        rr_NewConnID = rr_NewConnID r, rr_Reason = (if rr_Reason r \<noteq> [] then rr_Reason r else reason), rr_Error = []\<rparr>)"

definition cancelled_result :: "Protocol \<Rightarrow> string \<Rightarrow> string \<Rightarrow> RebuildResult" where
  "cancelled_result proto connID err = \<lparr>rr_Protocol = proto, rr_Success = False, rr_OldConnID = connID,
     rr_NewConnID = [], rr_Reason = [], rr_Error = err\<rparr>"

text \<open>
  \<open>n\<close> counts down the batch. Both \<open>select\<close>s of the dispatcher may take the end of the context once
  the context has ended, also when sending is possible; the buffered channels never block it.
\<close>

inductive batch_step :: "config \<Rightarrow> Protocol \<Rightarrow> batch \<Rightarrow> batch \<Rightarrow> bool" for cfg proto where
  cancel: "batch_step cfg proto s (s\<lparr>b_cancelled := True\<rparr>)"
    if "\<not> b_cancelled s"
| send: "batch_step cfg proto s (s\<lparr>b_dispatcher := Sending n cs, b_tasks := b_tasks s @ [c]\<rparr>)"
    if "b_dispatcher s = Sending (Suc n) (c # cs)"
| sent_batch: "batch_step cfg proto s (s\<lparr>b_dispatcher := if cs = [] then Dispatched else Pausing cs\<rparr>)"
    if "b_dispatcher s = Sending n cs" "n = 0 \<or> cs = []"
| pause: "batch_step cfg proto s (s\<lparr>b_dispatcher := Sending (batch_size cfg) cs\<rparr>)"
    if "b_dispatcher s = Pausing cs"
| give_up: "batch_step cfg proto s (s\<lparr>b_dispatcher := Dispatched\<rparr>)"
    if "b_cancelled s" "b_dispatcher s = Sending (Suc n) (c # cs) \<or> b_dispatcher s = Pausing cs"
| take: "batch_step cfg proto s (s\<lparr>b_tasks := cs, b_workers := (b_workers s)[i := Taken c]\<rparr>)"
    if "i < length (b_workers s)" "b_workers s ! i = Idle" "b_tasks s = c # cs"
| exit: "batch_step cfg proto s (s\<lparr>b_workers := (b_workers s)[i := Exited]\<rparr>)"
    if "i < length (b_workers s)" "b_workers s ! i = Idle" "b_tasks s = []" "b_dispatcher s = Dispatched"
| refuse: "batch_step cfg proto s (s\<lparr>b_results := b_results s @ [cancelled_result proto c err],
      b_workers := (b_workers s)[i := Exited]\<rparr>)"
    if "i < length (b_workers s)" "b_workers s ! i = Taken c" "b_cancelled s"
| check: "batch_step cfg proto s (s\<lparr>b_workers := (b_workers s)[i := Rebuilding c]\<rparr>)"
    if "i < length (b_workers s)" "b_workers s ! i = Taken c" "\<not> b_cancelled s"
| rebuild: "batch_step cfg proto s (s\<lparr>b_results := b_results s @ [worker_result proto c reason call],
      b_workers := (b_workers s)[i := Idle]\<rparr>)"
    if "i < length (b_workers s)" "b_workers s ! i = Rebuilding c"

inductive batch_reach :: "config \<Rightarrow> Protocol \<Rightarrow> string list \<Rightarrow> batch \<Rightarrow> bool" for cfg proto conns where
  init: "batch_reach cfg proto conns (batch_start cfg conns b)"
| step: "batch_reach cfg proto conns s \<Longrightarrow> batch_step cfg proto s s' \<Longrightarrow> batch_reach cfg proto conns s'"

text \<open>\<open>wg.Wait()\<close> returns: the channel of tasks is closed and every worker has returned.\<close>

definition batch_done :: "batch \<Rightarrow> bool" where
  "batch_done s \<longleftrightarrow> b_dispatcher s = Dispatched \<and> (\<forall>w\<in>set (b_workers s). w = Exited)"

section \<open>The report\<close>

record BatchRebuildResult =
  br_Total :: int
  br_Success :: int
  br_Failed :: int
  br_Results :: "RebuildResult list"
  br_Errors :: "string list"
  br_Cancelled :: bool
  br_CancelError :: string

definition result_errors :: "RebuildResult list \<Rightarrow> string list" where
  "result_errors rs = map (\<lambda>r. utf8_conn @ '' '' @ rr_OldConnID r @ '': '' @ rr_Error r)
     (filter (\<lambda>r. \<not> rr_Success r \<and> rr_Error r \<noteq> []) rs)"

text \<open>The end of \<open>RebuildConnectionByProto\<close>; an empty batch returns at once.\<close>

definition batch_report :: "string list \<Rightarrow> RebuildResult list \<Rightarrow> BatchRebuildResult \<times> string option" where
  "batch_report conns rs =
    (let ok = int (length (filter rr_Success rs)); bad = int (length (filter (\<lambda>r. \<not> rr_Success r) rs));
         r = \<lparr>br_Total = int (length conns), br_Success = ok, br_Failed = bad, br_Results = rs, br_Errors = [],
              br_Cancelled = False, br_CancelError = []\<rparr>
     in if bad > 0 then (r\<lparr>br_Errors := result_errors rs\<rparr>,
          if ok = 0 then Some (utf8_all @ '': '' @ Join (result_errors rs) ''; '') else None)
        else (r, None))"

text \<open>The two refusals at the start of \<open>RebuildConnectionByProto\<close>; the messages' suggestions are left out.\<close>

definition RebuildConnectionByProto ::
  "(Protocol \<Rightarrow> bool) \<Rightarrow> Protocol \<Rightarrow> string list \<Rightarrow> RebuildResult list \<Rightarrow> BatchRebuildResult option \<times> string option" where
  "RebuildConnectionByProto exists proto conns rs =
    (if proto = [] then (None, Some (RebuildError_Error \<lparr>re_Code = RebuildErrorCodeInvalidState,
        re_Message = utf8_no_protocol, re_Retryable = False, re_OriginalError = None\<rparr>))
     else if \<not> exists proto then (None, Some (RebuildError_Error \<lparr>re_Code = RebuildErrorCodeInvalidState,
        re_Message = utf8_bad_protocol @ '': '' @ proto, re_Retryable = False, re_OriginalError = None\<rparr>))
     else (case batch_report conns rs of (r, err) \<Rightarrow> (Some r, err)))"

text \<open>\<open>RebuildConnections\<close> over the protocols, in the order in which their goroutines finish.\<close>

definition all_report ::
  "(Protocol \<times> BatchRebuildResult option \<times> string option) list \<Rightarrow> string option \<Rightarrow> BatchRebuildResult \<times> string option" where
  "all_report ps ctxErr =
    (if ps = [] then (\<lparr>br_Total = 0, br_Success = 0, br_Failed = 0, br_Results = [], br_Errors = [],
        br_Cancelled = False, br_CancelError = []\<rparr>, None)
     else let errs = concat (map (\<lambda>(p, _, e). case e of None \<Rightarrow> [] | Some m \<Rightarrow> [utf8_protocol @ '' '' @ p @ '': '' @ m]) ps);
         rs = concat (map (\<lambda>(_, r, _). case r of None \<Rightarrow> [] | Some b \<Rightarrow> br_Results b) ps);
         ok = int (length (filter rr_Success rs)); bad = int (length (filter (\<lambda>r. \<not> rr_Success r) rs));
         r = \<lparr>br_Total = int (length rs), br_Success = ok, br_Failed = bad, br_Results = rs, br_Errors = [],
              br_Cancelled = False, br_CancelError = []\<rparr>
     in case ctxErr of
          Some e \<Rightarrow> (r\<lparr>br_Cancelled := True, br_CancelError := e\<rparr>, Some e)
        | None \<Rightarrow> if errs \<noteq> [] then (r\<lparr>br_Errors := errs\<rparr>,
              Some ((if ok = 0 then utf8_all else utf8_some) @ '': '' @ Join errs ''; ''))
            else (r, None))"

section \<open>What becomes of the connections\<close>

fun undispatched :: "dispatcher \<Rightarrow> string list" where
  "undispatched (Sending n cs) = cs"
| "undispatched (Pausing cs) = cs"
| "undispatched Dispatched = []"

fun in_hand :: "batch_worker \<Rightarrow> string multiset" where
  "in_hand (Taken c) = {#c#}"
| "in_hand (Rebuilding c) = {#c#}"
| "in_hand _ = {#}"

text \<open>Every connection the batch still knows of, wherever it is.\<close>

definition accounted :: "batch \<Rightarrow> string multiset" where
  "accounted s = mset (map rr_OldConnID (b_results s)) + mset (b_tasks s)
     + sum_mset (image_mset in_hand (mset (b_workers s))) + mset (undispatched (b_dispatcher s))"

definition batch_inv :: "string list \<Rightarrow> batch \<Rightarrow> bool" where
  "batch_inv conns s \<longleftrightarrow> accounted s \<subseteq># mset conns
     \<and> (\<not> b_cancelled s \<longrightarrow> accounted s = mset conns
          \<and> (Exited \<in> set (b_workers s) \<longrightarrow> b_tasks s = [] \<and> b_dispatcher s = Dispatched))"

lemma sum_image_update:
  fixes f :: "'a \<Rightarrow> 'b :: cancel_comm_monoid_add"
  assumes "i < length xs"
  shows "sum_mset (image_mset f (mset (xs[i := x]))) + f (xs ! i) = sum_mset (image_mset f (mset xs)) + f x"
  using assms by (induction xs arbitrary: i) (auto simp: ac_simps split: nat.split)

lemma worker_result_id [simp]: "rr_OldConnID (worker_result proto c reason call) = c"
  by (simp add: worker_result_def split: sum.split)

lemma cancelled_result_id [simp]: "rr_OldConnID (cancelled_result proto c err) = c"
  by (simp add: cancelled_result_def)

lemma batch_size_pos: "0 < batch_size cfg"
  by (simp add: batch_size_def)

lemma worker_count_pos: "conns \<noteq> [] \<Longrightarrow> 0 < worker_count cfg conns"
  by (auto simp: worker_count_def)

lemma hands_update:
  "i < length ws \<Longrightarrow> sum_mset (image_mset in_hand (mset (ws[i := x]))) + in_hand (ws ! i)
     = sum_mset (image_mset in_hand (mset ws)) + in_hand x"
  by (rule sum_image_update)

text \<open>A step loses connections only when the dispatcher gives up.\<close>

lemma step_accounted:
  assumes "batch_step cfg proto s s'"
  shows "accounted s' \<subseteq># accounted s \<and> (\<not> b_cancelled s \<longrightarrow> accounted s' = accounted s)"
  using assms
proof cases
  case (take i c cs)
  then show ?thesis using hands_update [OF take(2), of "Taken c"] by (simp add: accounted_def ac_simps)
next
  case (exit i)
  then show ?thesis using hands_update [OF exit(2), of Exited] by (simp add: accounted_def)
next
  case (refuse i c err)
  then show ?thesis using hands_update [OF refuse(2), of Exited] by (simp add: accounted_def ac_simps)
next
  case (check i c)
  then show ?thesis using hands_update [OF check(2), of "Rebuilding c"] by (simp add: accounted_def)
next
  case (rebuild i c reason call)
  then show ?thesis using hands_update [OF rebuild(2), of Idle] by (simp add: accounted_def ac_simps)
qed (auto simp: accounted_def)

lemma step_exits:
  assumes "batch_step cfg proto s s'" "\<not> b_cancelled s'"
    "Exited \<in> set (b_workers s) \<longrightarrow> b_tasks s = [] \<and> b_dispatcher s = Dispatched"
  shows "Exited \<in> set (b_workers s') \<longrightarrow> b_tasks s' = [] \<and> b_dispatcher s' = Dispatched"
  using assms(1)
  by cases (use assms(2,3) in \<open>auto dest!: set_update_subset_insert [THEN subsetD]\<close>)

lemma step_cancelled: "batch_step cfg proto s s' \<Longrightarrow> b_cancelled s \<Longrightarrow> b_cancelled s'"
  by (erule batch_step.cases) auto

lemma batch_step_inv: "batch_step cfg proto s s' \<Longrightarrow> batch_inv conns s \<Longrightarrow> batch_inv conns s'"
  unfolding batch_inv_def using step_accounted step_exits step_cancelled subset_mset.order_trans by metis

lemma hands_replicate [simp]: "sum_mset (image_mset in_hand (replicate_mset n Idle)) = {#}"
  by (induction n) simp_all

lemma batch_start_inv: "batch_inv conns (batch_start cfg conns b)"
  by (auto simp: batch_inv_def accounted_def batch_start_def)

lemma batch_reach_inv: "batch_reach cfg proto conns s \<Longrightarrow> batch_inv conns s"
  by (induction rule: batch_reach.induct) (auto intro: batch_start_inv batch_step_inv)

section \<open>A bound on the steps\<close>

fun worker_weight :: "batch_worker \<Rightarrow> nat" where
  "worker_weight Idle = 1"
| "worker_weight (Taken c) = 3"
| "worker_weight (Rebuilding c) = 2"
| "worker_weight Exited = 0"

fun dispatch_weight :: "dispatcher \<Rightarrow> nat" where
  "dispatch_weight (Sending n cs) = 6 * length cs + (if n = 0 then 3 else 1)"
| "dispatch_weight (Pausing cs) = 6 * length cs + 2"
| "dispatch_weight Dispatched = 0"

definition batch_weight :: "batch \<Rightarrow> nat" where
  "batch_weight s = dispatch_weight (b_dispatcher s) + 3 * length (b_tasks s)
     + sum_mset (image_mset worker_weight (mset (b_workers s))) + (if b_cancelled s then 0 else 1)"

lemma weights_update:
  "i < length ws \<Longrightarrow> sum_mset (image_mset worker_weight (mset (ws[i := x]))) + worker_weight (ws ! i)
     = sum_mset (image_mset worker_weight (mset ws)) + worker_weight x"
  by (rule sum_image_update)

lemma batch_step_weight:
  assumes "batch_step cfg proto s s'"
  shows "batch_weight s' < batch_weight s"
  using assms
proof cases
  case (pause cs)
  then show ?thesis using batch_size_pos [of cfg] by (simp add: batch_weight_def)
next
  case (take i c cs)
  then show ?thesis using weights_update [OF take(2), of "Taken c"] by (simp add: batch_weight_def)
next
  case (exit i)
  then show ?thesis using weights_update [OF exit(2), of Exited] by (simp add: batch_weight_def)
next
  case (refuse i c err)
  then show ?thesis using weights_update [OF refuse(2), of Exited] by (simp add: batch_weight_def)
next
  case (check i c)
  then show ?thesis using weights_update [OF check(2), of "Rebuilding c"] by (simp add: batch_weight_def)
next
  case (rebuild i c reason call)
  then show ?thesis using weights_update [OF rebuild(2), of Idle] by (simp add: batch_weight_def)
qed (auto simp: batch_weight_def split: if_splits)

lemma steps_weight: "(batch_step cfg proto ^^ k) s s' \<Longrightarrow> batch_weight s' + k \<le> batch_weight s"
proof (induction k arbitrary: s')
  case (Suc k)
  then obtain t where "(batch_step cfg proto ^^ k) s t" "batch_step cfg proto t s'" by auto
  with Suc.IH [of t] batch_step_weight [of cfg proto t s'] show ?case by simp
qed simp

lemma weight_replicate [simp]: "sum_mset (image_mset worker_weight (replicate_mset n Idle)) = n"
  by (induction n) simp_all

lemma batch_start_weight: "batch_weight (batch_start cfg conns b) \<le> 7 * length conns + 2"
  using batch_size_pos [of cfg] min.cobounded1 [of "length conns"]
  by (simp add: batch_weight_def batch_start_def worker_count_def le_SucI)

text \<open>What can always happen next: the dispatcher never blocks, and an idle worker blocks only on
  an empty open channel.\<close>

lemma dispatcher_moves:
  assumes "b_dispatcher s \<noteq> Dispatched"
  shows "\<exists>s'. batch_step cfg proto s s' \<and> b_cancelled s' = b_cancelled s"
proof (cases "b_dispatcher s")
  case (Sending n cs)
  show ?thesis
  proof (cases "n = 0 \<or> cs = []")
    case True
    from batch_step.sent_batch [OF Sending True, of cfg proto] show ?thesis by force
  next
    case False
    then obtain m c ds where "n = Suc m" "cs = c # ds" by (auto simp: neq_Nil_conv gr0_conv_Suc)
    with Sending batch_step.send [of s m c ds cfg proto] show ?thesis by force
  qed
next
  case (Pausing cs)
  from batch_step.pause [OF Pausing, of cfg proto] show ?thesis by force
qed (use assms in simp)

lemma batch_worker_moves:
  assumes "b_dispatcher s = Dispatched" "i < length (b_workers s)" "b_workers s ! i \<noteq> Exited"
  shows "\<exists>s'. batch_step cfg proto s s' \<and> b_cancelled s' = b_cancelled s"
proof (cases "b_workers s ! i")
  case Idle
  show ?thesis
  proof (cases "b_tasks s")
    case Nil
    from batch_step.exit [OF assms(2) Idle Nil assms(1), of cfg proto] show ?thesis by force
  next
    case (Cons c cs)
    from batch_step.take [OF assms(2) Idle Cons, of cfg proto] show ?thesis by force
  qed
next
  case (Taken c)
  show ?thesis
  proof (cases "b_cancelled s")
    case True
    from batch_step.refuse [OF assms(2) Taken True, of cfg proto] show ?thesis by force
  next
    case False
    from batch_step.check [OF assms(2) Taken False, of cfg proto] show ?thesis by force
  qed
next
  case (Rebuilding c)
  from batch_step.rebuild [OF assms(2) Rebuilding, of cfg proto] show ?thesis by force
qed (use assms in simp)

lemma batch_moves:
  assumes "\<not> batch_done s"
  shows "\<exists>s'. batch_step cfg proto s s' \<and> b_cancelled s' = b_cancelled s"
proof (cases "b_dispatcher s = Dispatched")
  case True
  then obtain i where "i < length (b_workers s)" "b_workers s ! i \<noteq> Exited"
    using assms by (auto simp: batch_done_def in_set_conv_nth)
  with True show ?thesis by (rule batch_worker_moves)
qed (rule dispatcher_moves)

lemma steps_reach: "(batch_step cfg proto ^^ k) (batch_start cfg conns b) s \<Longrightarrow> batch_reach cfg proto conns s"
  by (induction k arbitrary: s) (auto intro: batch_reach.intros)

lemma reach_workers: "batch_reach cfg proto conns s \<Longrightarrow> length (b_workers s) = worker_count cfg conns"
proof (induction rule: batch_reach.induct)
  case (step s s')
  from step.hyps(2) step.IH show ?case by cases simp_all
qed (simp add: batch_start_def)

section \<open>Properties\<close>



section \<open>A cancelled batch\<close>

lemma workers_exit:
  "\<lbrakk>batch_reach cfg proto conns s; b_dispatcher s = Dispatched; b_tasks s = []; b_workers s = replicate j Exited @ replicate n Idle\<rbrakk>
    \<Longrightarrow> \<exists>s'. batch_reach cfg proto conns s' \<and> batch_done s' \<and> b_results s' = b_results s
      \<and> b_cancelled s' = b_cancelled s"
proof (induction n arbitrary: s j)
  case 0
  then show ?case by (intro exI [of _ s]) (simp add: batch_done_def)
next
  case (Suc n)
  let ?t = "s\<lparr>b_workers := (b_workers s)[j := Exited]\<rparr>"
  have "batch_step cfg proto s ?t"
    using Suc.prems by (intro batch_step.exit) (simp_all add: nth_append)
  then have "batch_reach cfg proto conns ?t" using Suc.prems(1) by (rule batch_reach.step [rotated])
  moreover have "b_workers ?t = replicate (Suc j) Exited @ replicate n Idle"
    using Suc.prems(4) by (simp add: list_update_append replicate_app_Cons_same [symmetric])
  ultimately show ?case using Suc.IH [of ?t "Suc j"] Suc.prems(2,3) by simp
qed

text \<open>A batch whose context ends early may report no error at all: every connection was to be
  rebuilt, none was, none is counted as failed, and the caller gets nil.\<close>

theorem cancelled_batch_silent:
  assumes "conns \<noteq> []"
  shows "\<exists>s. batch_reach cfg proto conns s \<and> batch_done s \<and> b_cancelled s
    \<and> batch_report conns (b_results s) = (\<lparr>br_Total = int (length conns), br_Success = 0, br_Failed = 0,
        br_Results = [], br_Errors = [], br_Cancelled = False, br_CancelError = []\<rparr>, None)"
proof -
  let ?s = "batch_start cfg conns True"
  let ?t = "?s\<lparr>b_dispatcher := Dispatched\<rparr>"
  obtain c cs where cs: "conns = c # cs" using assms by (cases conns) auto
  obtain n where "batch_size cfg = Suc n" using batch_size_pos [of cfg] gr0_conv_Suc by blast
  then have "batch_step cfg proto ?s ?t"
    using cs by (intro batch_step.give_up [of _ n c cs]) (simp_all add: batch_start_def)
  then have t: "batch_reach cfg proto conns ?t" by (rule batch_reach.step [OF batch_reach.init])
  obtain s where "batch_reach cfg proto conns s" "batch_done s" "b_results s = b_results ?t" "b_cancelled s = b_cancelled ?t"
    using workers_exit [OF t, of 0 "worker_count cfg conns"] by (auto simp: batch_start_def)
  then show ?thesis by (intro exI [of _ s]) (simp add: batch_start_def batch_report_def)
qed

theorem cancelled_batch_silent_witness:
  "\<exists>s. batch_reach NewConfigBuilder ''ssh'' [''a'', ''b''] s \<and> batch_done s \<and> snd (batch_report [''a'', ''b''] (b_results s)) = None"
  using cancelled_batch_silent [of "[''a'', ''b'']" NewConfigBuilder "''ssh''"] by (auto intro: exI)

end
