(* ===== verification/Manager_Events.thy ===== *)
theory Manager_Events
  imports Manager "HOL-Library.Sublist"
begin

text \<open>
  How line events reach the manager (\<open>Start\<close> and \<open>handleLineChanges\<close> of \<open>manager/manager.go\<close>): the
  subscription's channel, the goroutine that moves events into a buffer of 500, and the processor
  that applies them. The publisher, the two goroutines, the stop of the manager and the end of
  the subscription interleave. Receiving from a subscription that was closed gives the zero
  event, which the processor's \<open>switch\<close> ignores; it is \<open>None\<close> here.
\<close>

section \<open>Starting\<close>

text \<open>What \<open>Start\<close> does before it starts goroutines; the result says whether they are started. A
  panic of \<open>fullSync\<close> is recovered.\<close>

definition Manager_Start ::
  "bool \<Rightarrow> (Manager \<Rightarrow> Manager) \<Rightarrow> task_impl registry \<times> Manager \<Rightarrow> bool \<times> task_impl registry \<times> Manager" where
  "Manager_Start has_aggregator sync rm = (let (r, m) = rm in
     if \<not> has_aggregator then (False, r, m)
     else case Register PingTask_Meta r of
       (Some err, r1) \<Rightarrow> (False, r1, m)
     | (None, r1) \<Rightarrow> (True, r1, sync m))"

section \<open>The pipeline\<close>

text \<open>\<open>pl_sent\<close>, \<open>pl_handled\<close> and \<open>pl_dropped\<close> only record what happened.\<close>

record pipeline =
  pl_queue :: "LineChangeEvent list"
  pl_closed :: bool
  pl_stop :: bool
  pl_buffer :: "LineChangeEvent option list"
  pl_returned :: bool
  pl_exited :: bool
  pl_manager :: Manager
  pl_sent :: "LineChangeEvent list"
  pl_handled :: "LineChangeEvent list"
  pl_dropped :: nat

definition new_pipeline :: "Manager \<Rightarrow> pipeline" where
  "new_pipeline m = \<lparr>pl_queue = [], pl_closed = False, pl_stop = False, pl_buffer = [], pl_returned = False,
     pl_exited = False, pl_manager = m, pl_sent = [], pl_handled = [], pl_dropped = 0\<rparr>"

definition process_one :: "(nat \<Rightarrow> nat) \<Rightarrow> LineChangeEvent option \<Rightarrow> Manager \<Rightarrow> Manager" where
  "process_one grow x m = (case x of None \<Rightarrow> m | Some e \<Rightarrow> processLineEvent grow e m)"

inductive pipe_step :: "(nat \<Rightarrow> nat) \<Rightarrow> pipeline \<Rightarrow> pipeline \<Rightarrow> bool" for grow where
  publish: "pipe_step grow s (s\<lparr>pl_queue := pl_queue s @ [e], pl_sent := pl_sent s @ [e]\<rparr>)"
    if "\<not> pl_closed s" "length (pl_queue s) < 1000"
| unsubscribe: "pipe_step grow s (s\<lparr>pl_closed := True\<rparr>)"
| stop: "pipe_step grow s (s\<lparr>pl_stop := True\<rparr>)"
| receive: "pipe_step grow s (s\<lparr>pl_queue := q, pl_buffer := buffer_event (Some e) (pl_buffer s),
      pl_dropped := pl_dropped s + (if length (pl_buffer s) < 500 then 0 else 1)\<rparr>)"
    if "\<not> pl_returned s" "pl_queue s = e # q"
| receive_zero: "pipe_step grow s (s\<lparr>pl_buffer := buffer_event None (pl_buffer s)\<rparr>)"
    if "\<not> pl_returned s" "pl_queue s = []" "pl_closed s"
| return: "pipe_step grow s (s\<lparr>pl_returned := True\<rparr>)"
    if "\<not> pl_returned s" "pl_stop s"
| handle: "pipe_step grow s (s\<lparr>pl_buffer := b, pl_manager := process_one grow x (pl_manager s),
      pl_handled := pl_handled s @ (case x of None \<Rightarrow> [] | Some e \<Rightarrow> [e])\<rparr>)"
    if "pl_buffer s = x # b" "\<not> pl_exited s"
| exit: "pipe_step grow s (s\<lparr>pl_exited := True\<rparr>)"
    if "pl_buffer s = []" "pl_returned s" "\<not> pl_exited s"

inductive pipe_reach :: "(nat \<Rightarrow> nat) \<Rightarrow> Manager \<Rightarrow> pipeline \<Rightarrow> bool" for grow m where
  init: "pipe_reach grow m (new_pipeline m)"
| step: "pipe_reach grow m s \<Longrightarrow> pipe_step grow s s' \<Longrightarrow> pipe_reach grow m s'"

section \<open>Order and completeness\<close>

definition events_of :: "LineChangeEvent option list \<Rightarrow> LineChangeEvent list" where
  "events_of xs = map the (filter (\<lambda>x. x \<noteq> None) xs)"

lemma events_of_simps [simp]:
  "events_of [] = []" "events_of (x # xs) = (case x of None \<Rightarrow> [] | Some e \<Rightarrow> [e]) @ events_of xs"
  "events_of (xs @ ys) = events_of xs @ events_of ys"
  by (auto simp: events_of_def split: option.splits)

definition pipe_inv :: "(nat \<Rightarrow> nat) \<Rightarrow> Manager \<Rightarrow> pipeline \<Rightarrow> bool" where
  "pipe_inv grow m s \<longleftrightarrow> subseq (pl_handled s @ events_of (pl_buffer s) @ pl_queue s) (pl_sent s)
     \<and> (pl_dropped s = 0 \<longrightarrow> pl_handled s @ events_of (pl_buffer s) @ pl_queue s = pl_sent s)
     \<and> pl_manager s = fold (processLineEvent grow) (pl_handled s) m
     \<and> length (pl_buffer s) \<le> 500 \<and> (pl_exited s \<longrightarrow> pl_buffer s = [] \<and> pl_returned s)"

lemma subseq_skip: "subseq (xs @ e # ys) zs \<Longrightarrow> subseq (xs @ ys) zs"
  by (rule subseq_order.trans) (auto intro: list_emb_append_mono)

lemma pipe_step_inv:
  assumes "pipe_step grow s s'" "pipe_inv grow m s"
  shows "pipe_inv grow m s'"
  using assms(1)
proof cases
  case (receive e q)
  show ?thesis
  proof (cases "length (pl_buffer s) < 500")
    case True
    then show ?thesis using assms(2) receive by (auto simp: pipe_inv_def buffer_event_def)
  next
    case False
    then show ?thesis using assms(2) receive subseq_skip [of "pl_handled s @ events_of (pl_buffer s)" e q]
      by (simp add: pipe_inv_def buffer_event_def)
  qed
next
  case (handle x b)
  then show ?thesis using assms(2) by (auto simp: pipe_inv_def process_one_def split: option.splits)
next
  case (publish e)
  have "subseq (xs @ ys @ zs @ [e]) (pl_sent s @ [e])" if "subseq (xs @ ys @ zs) (pl_sent s)" for xs ys zs
    using list_emb_append_mono [OF that, of "[e]" "[e]"] by simp
  with publish show ?thesis using assms(2) by (simp add: pipe_inv_def)
qed (use assms(2) in \<open>auto simp: pipe_inv_def buffer_event_def\<close>)

lemma pipe_reach_inv: "pipe_reach grow m s \<Longrightarrow> pipe_inv grow m s"
proof (induction rule: pipe_reach.induct)
  case init
  show ?case by (simp add: pipe_inv_def new_pipeline_def)
next
  case (step s s')
  then show ?case by (blast intro: pipe_step_inv)
qed



section \<open>When the subscription ends first\<close>

text \<open>Once the syncer has closed the subscription while the manager goes on, the receiving goroutine
  never blocks again: it keeps receiving the zero event, as often as one likes, and fills the
  buffer with it.\<close>

theorem closed_subscription_spins:
  assumes "\<not> pl_returned s" "pl_queue s = []" "pl_closed s"
  shows "(pipe_step grow ^^ n) s (s\<lparr>pl_buffer := pl_buffer s @ replicate (min n (500 - length (pl_buffer s))) None\<rparr>)"
proof (induction n)
  case (Suc n)
  let ?b = "\<lambda>n. pl_buffer s @ replicate (min n (500 - length (pl_buffer s))) (None :: LineChangeEvent option)"
  let ?t = "\<lambda>n. s\<lparr>pl_buffer := ?b n\<rparr>"
  have "pipe_step grow (?t n) ((?t n)\<lparr>pl_buffer := buffer_event None (?b n)\<rparr>)"
    using pipe_step.receive_zero [of "?t n" grow] assms by simp
  moreover have "buffer_event None (?b n) = ?b (Suc n)"
    by (cases "n < 500 - length (pl_buffer s)") (auto simp: buffer_event_def min_def replicate_append_same)
  ultimately show ?case using Suc by auto
qed simp

theorem closed_subscription_spins_witness:
  "\<exists>s. (pipe_step (\<lambda>n. n) ^^ 600) ((new_pipeline NewManager)\<lparr>pl_closed := True\<rparr>) s \<and> length (pl_buffer s) = 500"
proof -
  let ?s = "(new_pipeline NewManager)\<lparr>pl_closed := True\<rparr>"
  have "\<not> pl_returned ?s" "pl_queue ?s = []" "pl_closed ?s" by (simp_all add: new_pipeline_def)
  from closed_subscription_spins [OF this, of 600 "\<lambda>n. n"] show ?thesis
    by (intro exI conjI) (auto simp: new_pipeline_def)
qed

end
