(* ===== verification/Spec2Isabelle.thy ===== *)
theory Spec2Isabelle
  imports Conn_Pool_Open Conn_Pool_Alone Conn_Pool_Ops Manager_Proofs Zabbix_Sender Executor Async_Executor
    Syncer_Proofs Subscriptions Adapters Task_Errors Metrics_Races Pool_Health Rebuild_Batch Manager_Events
begin

text \<open>
  \<^bold>\<open>A monitor for dedicated lines, verified\<close>

  The program reads lines (a customer address behind a router) from Zabbix, pings each of them at
  its own interval from its router over a pool of SSH or Scrapli connections, and sends packet
  loss or an error status back to Zabbix. The development follows one datum through the program:
  the syncer turns hosts, templates and macros into lines and publishes changes; the manager keeps
  the lines per router and one scheduler for each; a scheduler has one queue per interval, whose
  workers take a connection from the pool, run the ping task through the executor and submit the
  result to the aggregator; the aggregator batches results for its handlers, one of which is the
  Zabbix sender. Source paths below are relative to \<open>src/\<close>.

  \<^bold>\<open>Theories and the code they model\<close>

  Shared: \<open>Prelude\<close> (time and durations in nanoseconds, saturating and wrapping 64-bit arithmetic,
  rounding of floating-point numbers, order of map iteration, collections of rules),
  \<open>Go_Strings\<close> (the functions of \<open>strings\<close>, \<open>strconv\<close> and \<open>fmt\<close> that the code calls, and dynamic
  values), \<open>Go_Slices\<close> (slices that share arrays).

  \<^item> \<open>State_Manager\<close>, \<open>Health_Manager\<close>: \<open>connection/state_manager.go\<close>, \<open>health_manager.go\<close>: the table
    of connection states, classification of health-check errors.
  \<^item> \<open>Conn_Config\<close>: \<open>connection/config_enhanced.go\<close>, \<open>types.go\<close>, the \<open>capability\<close> files: the
    configuration record with builder and validation, capabilities.
  \<^item> \<open>Pooled_Conn\<close>: \<open>connection/pooled_connection.go\<close>: one connection; every operation that changes
    it, and sequences of them.
  \<^item> \<open>Rebuild_Manager\<close>: \<open>connection/rebuild_manager.go\<close>: when a connection is marked for a rebuild.
  \<^item> \<open>Conn_Pool\<close> with \<open>Conn_Pool_Proofs\<close>, \<open>Conn_Pool_Runs\<close>, \<open>Conn_Pool_Open\<close>, \<open>Conn_Pool_Alone\<close>,
    \<open>Conn_Pool_Ops\<close>, \<open>Rebuild_Batch\<close>, \<open>Pool_Health\<close>: \<open>connection/pool_enhanced.go\<close>: the pool and its
    goroutines as interleaved steps, whole runs, runs without interference, balancers, warm-up and
    events, batch rebuilds, health checks on the drivers, merged contexts and shutdown.
  \<^item> \<open>Drivers\<close>: \<open>connection/scrapli_driver.go\<close>, \<open>ssh_driver.go\<close> and their factories.
  \<^item> \<open>Metrics\<close>, \<open>Metrics_Races\<close>: \<open>connection/metrics.go\<close>: the collector, and its lock-free updates and
    its lock under interleaving.
  \<^item> \<open>Resilience\<close>: \<open>connection/resilience.go\<close>: retry policies, retrier, circuit breaker.
  \<^item> \<open>Registry\<close>, \<open>Ping\<close>, \<open>Ping_Proofs\<close>: \<open>task/interface.go\<close>, \<open>registry.go\<close>, \<open>ping.go\<close>: task metadata and
    discovery; validation, commands and parsers of the ping task.
  \<^item> \<open>Adapters\<close>, \<open>Task_Errors\<close>: \<open>task/adapter.go\<close>, \<open>adapter_cisco.go\<close>, \<open>errors.go\<close>.
  \<^item> \<open>Executor\<close>, \<open>Async_Executor\<close>: \<open>task/executor.go\<close>, \<open>async_executor.go\<close>: the core execution, the
    middlewares, the asynchronous workers.
  \<^item> \<open>Aggregator\<close>, \<open>Aggregator_Proofs\<close>, \<open>Zabbix_Sender\<close>: \<open>task/aggregator.go\<close>,
    \<open>zabbixSenderHandler.go\<close>, and the handlers that \<open>cmd/monitor/main.go\<close> installs.
  \<^item> \<open>Lines\<close>, \<open>Syncer\<close>, \<open>Syncer_Proofs\<close>, \<open>Subscriptions\<close>: \<open>syncer/types.go\<close>, \<open>syncer.go\<close>: lines and
    their hash, fetching, template chains, macros, change detection, subscriber channels.
  \<^item> \<open>Interval_Queue\<close>, \<open>Router_Scheduler\<close>, \<open>Scheduler_Proofs\<close>, \<open>Manager\<close>, \<open>Manager_Proofs\<close>,
    \<open>Manager_Events\<close>: the files of \<open>manager/\<close>: queues, schedulers, the manager, and the pipeline that
    brings line events to it.

  A struct is a record whose fields carry a short prefix, a method a function from the state to
  result and new state. Errors are values: \<open>None\<close> or \<open>Inl\<close>. A panic is a missing result. Objects
  that are shared by reference (connections, slices, task errors) live in an explicit heap. Code
  that runs concurrently is a step function or an inductive relation with one step per critical
  section, atomic access, channel operation or library call; reachability quantifies over every
  schedule.

  \<^bold>\<open>What is shown\<close>

  \<^item> Connections: only the transitions of the table ever happen; under every interleaving of
    clients, health checks, rebuilds, cleaner and warm-ups a connection has one holder, mapped
    connections have open drivers, and without rebuilds the pool keeps to its limit; what a rebuild,
    a sweep and a close do exactly when they run alone, and how a rebuild can close a connection in
    use. A batch rebuild ends in bounded time with one result per connection. Health checks and
    the one-command SSH session together make every SSH connection unhealthy.
  \<^item> Drivers: a closed Scrapli driver stays closed; a race of connecting and closing leaks a
    connection; a failed open is permanent; the first command on a fresh driver.
  \<^item> Metrics: the counters, the exact minimum, maximum and sum under races with a bound on retries,
    and the deadlock of the nested read lock.
  \<^item> Lines: the published events replayed on the old set give the new set; template recursion ends
    with one node per template; macro priorities. The manager's lists refine line events in spite
    of arrays shared with the schedulers, events are processed in order, schedulers refine a set
    of lines, and which lines are never checked.
  \<^item> Tasks: reports of the parsers are consistent, exact losses per platform, the aggregator
    delivers every accepted event to each handler exactly once or leaves it in the channel, callbacks
    come at most once, adapters fulfil one contract.
  \<^item> This theory puts parts together: a scheduled ping over the executor and the Scrapli driver, and
    from the result to the metric that Zabbix receives.

  The interfaces between parts are locales interpreted on the model: queues of lines, retry
  policies, load balancers, platform adapters, handlers that return, and the cells of a
  compare-and-swap loop.

  \<^bold>\<open>Bounds and idealisations\<close>

  Loops are total functions. Fuel occurs twice: the template recursion, with more fuel than there
  are reachable templates, and the text of a task error, with more fuel than there are error
  objects on its chain; both amounts are proved to be enough. The wait of a graceful shutdown is a
  while loop that is proved to end when the clock advances.

  Floating-point numbers are rational numbers rounded to 53 bits after every operation, and
  \<open>math.Pow\<close> is taken to be correctly rounded. Counters that only count events are unbounded
  integers; sums of durations, intervals and hashes keep their 64 bits. Strings are bytes, and case
  conversion is that of ASCII. The order of map iteration, the capacity chosen when a slice grows,
  the choice of a \<open>select\<close>, random jitter and the clock are arguments. Unlocked reads of one word
  are atomic, and the cleaner's decision reads a connection at one instant. Contexts are functions of
  the world that tell whether they have ended. Zabbix, the two network libraries and the sender are
  records of functions; where a theorem needs something of them, it is a hypothesis with a witness.

  \<^bold>\<open>Not modelled\<close>

  Log texts, debug traces and leak reports; the formatting of pool events for the log; figures of
  the runtime (memory, goroutines) in statistics; the exporters of the metrics, which have empty
  bodies; flags, signals and the health monitor of the main program; timer loops whose body is
  modelled as a step; getters that return a field; the helpers of tests that are not in test files.
\<close>

section \<open>From a scheduled ping to a metric\<close>

lemma scheduler_config_retries [simp]:
  "TaskMaxRetries (scheduler_config r) = 0"
  by (simp add: scheduler_config_def WithTaskRetryPolicy_def WithConnectionRetryPolicy_def
      WithConnectionPool_def WithSmartRebuild_def WithMetadata_def WithProtocol_def WithBasicAuth_def)

lemma ping_context_valid:
  "ValidateParams (tc_Params (ping_context r ct line)) = None \<longleftrightarrow> l_IP line \<noteq> []"
  by (simp add: ping_context_def ValidateParams_def validate_repeat_def validate_timeout_def validate_enable_def)

text \<open>What the executor does with a valid ping of a line, as rewriting of its result.\<close>

lemma ping_core:
  assumes "l_IP line \<noteq> []" "dr_GetCapability conn = ScrapliCapability"
    "r_Platform r \<in> set (pc_PlatformSupport ScrapliCapability)"
  shows "\<exists>cmd. pings cmd CommandTypeCommands (l_IP line)
    \<and> (\<forall>w. executor_core W conn PingTask_methods dl (ping_context r CommandTypeCommands line) w
        = (case dr_Execute conn dl cmd w of
             (Inl err, w1) \<Rightarrow> (failure (error_status W dl w1 err) err, w1)
           | (Inr raw, w1) \<Rightarrow> (ParseOutput (ping_context r CommandTypeCommands line) (VBytes raw), w1)))"
proof -
  let ?ctx = "ping_context r CommandTypeCommands line"
  have v: "ValidateParams (tc_Params ?ctx) = None" using assms(1) by (simp add: ping_context_valid)
  obtain ip rep to pwd where b: "tc_Params ?ctx ''target_ip'' = Some (VString ip)"
      "BuildCommand ?ctx = build_payload (tc_CommandType ?ctx) (tc_Platform ?ctx) ip rep to pwd"
    by (rule validated_build [OF v]) blast
  then have ip: "ip = l_IP line" by (simp add: ping_context_def)
  have pl: "tc_Platform ?ctx = r_Platform r" "tc_CommandType ?ctx = CommandTypeCommands"
    by (simp_all add: ping_context_def)
  obtain cmd where cmd: "BuildCommand ?ctx = Inr cmd"
    using assms(3) build_payload_ok [of CommandTypeCommands "r_Platform r" ip rep to pwd] b(2) pl
    by (auto simp: ScrapliCapability_def cisco_platforms_def)
  then have p: "pings cmd CommandTypeCommands (l_IP line)"
    using b(2) ip pl build_payload_pings by metis
  then have "cmd_Payload cmd \<noteq> POther" by (auto simp: pings_def)
  moreover have "validateCapability (dr_GetCapability conn) ?ctx = None"
    using assms(2,3) pl by (simp add: validateCapability_def SupportsCommandType_iff ScrapliCapability_def)
  ultimately have "executor_core W conn PingTask_methods dl ?ctx w
      = (case dr_Execute conn dl cmd w of
           (Inl err, w1) \<Rightarrow> (failure (error_status W dl w1 err) err, w1)
         | (Inr raw, w1) \<Rightarrow> (ParseOutput ?ctx (VBytes raw), w1))" for w
    using v cmd unfolding executor_core_def by (simp add: PingTask_methods_def ping_core_parse split: prod.split sum.split)
  with p show ?thesis by blast
qed

text \<open>A ping of a line that a scheduler runs on a driver with the Scrapli capabilities always
  reaches the device, provided the line has an address and the router's platform is one of the
  five supported ones: the command executed is a ping of the line's address, and the result is
  exactly what the parser makes of the device's output, or a failure with its status.\<close>

theorem ping_reaches_device:
  assumes "l_IP line \<noteq> []" "dr_GetCapability conn = ScrapliCapability"
    "r_Platform r \<in> set (pc_PlatformSupport ScrapliCapability)"
  shows "\<exists>cmd. pings cmd CommandTypeCommands (l_IP line)
    \<and> (\<forall>w. executor_core W conn PingTask_methods dl (ping_context r CommandTypeCommands line) w
        = (case dr_Execute conn dl cmd w of
             (Inl err, w1) \<Rightarrow> (failure (error_status W dl w1 err) err, w1)
           | (Inr raw, w1) \<Rightarrow> (ParseOutput (ping_context r CommandTypeCommands line) (VBytes raw), w1)))"
  using assms by (rule ping_core)

definition any_world :: "'w world" where
  "any_world = \<lparr>w_clock = (\<lambda>_. 0), w_cancelled = (\<lambda>_. False), w_sleep = (\<lambda>_ w. w), w_wait = (\<lambda>_ _ w. (False, w))\<rparr>"

definition silent_driver :: "unit driver" where
  "silent_driver = \<lparr>dr_GetCapability = ScrapliCapability, dr_Execute = (\<lambda>_ _ w. (Inr [], w))\<rparr>"

theorem ping_reaches_device_witness:
  "\<exists>cmd. pings cmd CommandTypeCommands ''10.0.0.1''
    \<and> executor_core any_world silent_driver PingTask_methods None (ping_context (l_Router sample_line) CommandTypeCommands sample_line) ()
        = (ParseOutput (ping_context (l_Router sample_line) CommandTypeCommands sample_line) (VBytes []), ())"
proof -
  have "l_IP sample_line = ''10.0.0.1''" "dr_GetCapability silent_driver = ScrapliCapability"
      "r_Platform (l_Router sample_line) \<in> set (pc_PlatformSupport ScrapliCapability)"
      "dr_Execute silent_driver dl cmd w = (Inr [], w)" for dl cmd w
    by (simp_all add: sample_line_def silent_driver_def ScrapliCapability_def)
  then show ?thesis
    using ping_reaches_device [of sample_line silent_driver "l_Router sample_line" any_world None] by auto
qed

text \<open>C6: Whatever the device, the driver and the clock do, the event of a line's ping becomes one
  metric for the line's address: on the ping item exactly when the check succeeded with a loss
  from 0 to 100, otherwise on the error item with one of six statuses. In particular no event
  of the scheduler is ever reported as lacking a status.\<close>

theorem ping_pipeline:
  "let r = fst (fst (scheduler_executor W conn PingTask_methods (scheduler_config router) dl (ping_context router ct line) w));
       m = event_metric (result_event now line ''ping'' r d)
   in mt_Host m = l_IP line
    \<and> (mt_Key m = ping_key \<longleftrightarrow> res_Success r
         \<and> (\<exists>v. res_Data r ''packet_loss'' = Some (VInt v) \<and> 0 \<le> v \<and> v \<le> 100 \<and> mt_Value m = Itoa v))
    \<and> (mt_Key m = ping_key \<or> mt_Key m = error_key \<and> mt_Value m \<in> {StatusCheckTimeout, StatusParseFailed,
         StatusConnectionError, StatusExecutionError, StatusPacketLossOutOfRange, StatusInvalidPacketLossData})"
proof -
  let ?r = "fst (fst (scheduler_executor W conn PingTask_methods (scheduler_config router) dl (ping_context router ct line) w))"
  obtain s where s: "res_Data ?r ''status'' = Some (VString s)" "s \<in> set executor_statuses"
      "s = StatusCheckFinished \<longleftrightarrow> res_Success ?r"
    using scheduler_ping_reported [of "scheduler_config router" W conn dl "ping_context router ct line" w]
    unfolding reported_def by auto
  show ?thesis
    using s by (auto simp: Let_def event_metric_def new_metric_def result_event_def executor_statuses_def
        as_int_def split: option.split gvalue.split)
qed

section \<open>A ping over the Scrapli driver\<close>

text \<open>The driver as the executor sees it: its state is part of the world, and \<open>ctxof\<close> is the context
  that has the given deadline.\<close>

definition scrapli_conn :: "'w netlib \<Rightarrow> (gtime option \<Rightarrow> 'w ctx) \<Rightarrow> ('w ScrapliDriver \<times> 'w) driver" where
  "scrapli_conn L ctxof = \<lparr>dr_GetCapability = ScrapliCapability,
     dr_Execute = (\<lambda>dl cmd (d, w). let (r, d1, w1) = Scrapli_Execute L (Some (ctxof dl)) (Some cmd) d w in (r, (d1, w1)))\<rparr>"

text \<open>C15: A ping of a line over a driver fresh from the factory, when the device can be reached and the
  context is alive: the driver is opened, sends commands whose last one pings the line's address,
  and if the answers come in time the result of the task is what the parser makes of the answers,
  joined by line breaks; the driver stays open.\<close>

theorem ping_over_scrapli:
  assumes "l_IP line \<noteq> []" "r_Platform r \<in> set (pc_PlatformSupport ScrapliCapability)"
    and "ScrapliFactory_CreateWithContext L stringer ctx0 cfg w0 = (Inr d, w)" "sd_driver d = Some h"
    and "nl_open L h w = (None, w1)" "ctxof dl w1 = None"
  shows "\<exists>cmds. cmds \<noteq> [] \<and> HasPrefix (last cmds) ''ping '' \<and> Contains (last cmds) (l_IP line)
    \<and> (\<forall>rs w2. nl_commands L h cmds w1 = (Inr rs, w2)
          \<and> nl_first L (nl_timeout L (ctxof dl) (ConnectTimeout cfg) w1) w1 w2 = None \<longrightarrow>
        (\<exists>d1. executor_core W (scrapli_conn L ctxof) PingTask_methods dl (ping_context r CommandTypeCommands line) (d, w)
            = (ParseOutput (ping_context r CommandTypeCommands line) (VBytes (Join rs newline)), (d1, w2))
          \<and> sd_channel d1 = Some h \<and> \<not> sd_closed d1))"
proof -
  let ?conn = "scrapli_conn L ctxof" and ?ctx = "ping_context r CommandTypeCommands line"
  have "dr_GetCapability ?conn = ScrapliCapability" by (simp add: scrapli_conn_def)
  from ping_core [OF assms(1) this assms(2), of W dl]
  obtain cmd where cmd: "pings cmd CommandTypeCommands (l_IP line)"
    and run: "\<And>v. executor_core W ?conn PingTask_methods dl ?ctx v = (case dr_Execute ?conn dl cmd v of
        (Inl err, v1) \<Rightarrow> (failure (error_status W dl v1 err) err, v1)
      | (Inr raw, v1) \<Rightarrow> (ParseOutput ?ctx (VBytes raw), v1))" by blast
  from cmd obtain cmds where c: "cmd = \<lparr>cmd_Type = CommandTypeCommands, cmd_Payload = PCommands cmds\<rparr>"
      "cmds \<noteq> []" "HasPrefix (last cmds) ''ping ''" "Contains (last cmds) (l_IP line)"
    by (cases cmd) (auto simp: pings_def split: payload.splits)
  have "\<exists>d1. executor_core W ?conn PingTask_methods dl ?ctx (d, w)
        = (ParseOutput ?ctx (VBytes (Join rs newline)), (d1, w2)) \<and> sd_channel d1 = Some h \<and> \<not> sd_closed d1"
    if ok: "nl_commands L h cmds w1 = (Inr rs, w2)"
      "nl_first L (nl_timeout L (ctxof dl) (ConnectTimeout cfg) w1) w1 w2 = None" for rs w2
  proof -
    obtain d1 where d1: "Scrapli_Execute L (Some (ctxof dl)) (Some cmd) d w = (Inr (Join rs newline), d1, w2)"
        "sd_channel d1 = Some h" "\<not> sd_closed d1"
      using Execute_first_use [OF assms(3-6) ok] unfolding c(1) by blast
    then have "dr_Execute ?conn dl cmd (d, w) = (Inr (Join rs newline), (d1, w2))"
      by (simp add: scrapli_conn_def)
    then have "executor_core W ?conn PingTask_methods dl ?ctx (d, w) = (ParseOutput ?ctx (VBytes (Join rs newline)), (d1, w2))"
      by (simp only: run prod.case sum.case)
    with d1(2,3) show ?thesis by blast
  qed
  with c(2-4) show ?thesis by blast
qed

theorem ping_over_scrapli_witness:
  "\<exists>d cmds. ScrapliFactory_CreateWithContext demo_lib (\<lambda>_. None) background
       (NewConfigBuilder\<lparr>Metadata := [''platform'' \<mapsto> VString ''cisco_iosxe'']\<rparr>) (7, []) = (Inr d, (8, []))
     \<and> HasPrefix (last cmds) ''ping ''
     \<and> (\<exists>d1. executor_core any_world (scrapli_conn demo_lib (\<lambda>_. background)) PingTask_methods None
           (ping_context (l_Router sample_line) CommandTypeCommands sample_line) (d, (8, []))
         = (ParseOutput (ping_context (l_Router sample_line) CommandTypeCommands sample_line)
              (VBytes (Join cmds newline)), (d1, (8, [7]))))"
proof -
  let ?cfg = "NewConfigBuilder\<lparr>Metadata := [''platform'' \<mapsto> VString ''cisco_iosxe'']\<rparr>"
  obtain d where d: "ScrapliFactory_CreateWithContext demo_lib (\<lambda>_. None) background ?cfg (7, []) = (Inr d, (8, []))"
      "sd_driver d = Some 7"
    by (simp add: ScrapliFactory_CreateWithContext_def background_def platform_name_def demo_lib_def)
  have h: "l_IP sample_line \<noteq> []" "r_Platform (l_Router sample_line) \<in> set (pc_PlatformSupport ScrapliCapability)"
      "nl_open demo_lib 7 (8, []) = (None, (8, [7]))" "background (8, [7]) = None"
    by (simp_all add: sample_line_def ScrapliCapability_def demo_lib_def background_def)
  from ping_over_scrapli [where ctxof = "\<lambda>_. background" and dl = None, OF h(1,2) d h(3,4), of any_world]
  show ?thesis using d(1) by (auto simp: demo_lib_def)
qed

end
